(* ===== verification/Anna_Prelude.thy ===== *)
theory Anna_Prelude
  imports Main "HOL-Library.Word" "HOL-Library.AList"
begin

text \<open>
  What every component of the development shares: machine integers, the containers of the C++
  standard library, the result type of code that can fault, and the string functions
  (\<^verbatim>\<open>std::to_string\<close>, \<^verbatim>\<open>std::stoi\<close> and the repository's own \<^verbatim>\<open>split\<close>).

  An \<^verbatim>\<open>unordered_map\<close> is an association list with distinct keys. The order of the list stands
  for the iteration order, which the C++ standard leaves open; the results about the containers
  are stated through \<^const>\<open>map_of\<close> and \<^const>\<open>set\<close>, which forget it. \<^verbatim>\<open>operator[]\<close>
  inserts a default value under a missing key, so it is split into the value read
  (\<open>om_at\<close>) and the map left behind (\<open>om_touch\<close>).
\<close>

section \<open>Collections and types\<close>

named_theorems cpp_defs \<open>unfoldings of the container and monad combinators\<close>
named_theorems res_simps \<open>rewriting of computations that may fault\<close>

type_synonym u32 = "32 word"
type_synonym u64 = "64 word"
type_synonym Address = string
type_synonym Key = string
type_synonym ('k, 'v) omap = "('k \<times> 'v) list"

section \<open>Faults\<close>

text \<open>
  A computation of the program either yields a value or faults: it divides by zero, indexes a
  container out of range, dereferences a null pointer, gets an exception from \<^verbatim>\<open>std::stoi\<close>,
  reads an uninitialised variable, goes on iterating over a container that has grown, converts a
  floating-point number that the integer type cannot represent, or loops forever.
\<close>

datatype fault =
  Diverges | DivByZero | OutOfRange | NullDeref | InvalidArgument | Uninitialised | InvalidIterator
  | BadConversion

type_synonym 'a res = "fault + 'a"

definition rbind :: "'a res \<Rightarrow> ('a \<Rightarrow> 'b res) \<Rightarrow> 'b res" where
  "rbind m f = (case m of Inl e \<Rightarrow> Inl e | Inr x \<Rightarrow> f x)"

primrec rfold :: "('a \<Rightarrow> 's \<Rightarrow> 's res) \<Rightarrow> 'a list \<Rightarrow> 's \<Rightarrow> 's res" where
  "rfold f [] s = Inr s"
| "rfold f (x # xs) s = rbind (f x s) (rfold f xs)"

definition vec_at :: "'a list \<Rightarrow> nat \<Rightarrow> 'a res" where
  "vec_at xs i = (if i < length xs then Inr (xs ! i) else Inl OutOfRange)"

section \<open>Containers\<close>

definition om_at :: "'v \<Rightarrow> ('k, 'v) omap \<Rightarrow> 'k \<Rightarrow> 'v" where
  "om_at d m k = (case map_of m k of None \<Rightarrow> d | Some v \<Rightarrow> v)"

definition om_touch :: "'v \<Rightarrow> 'k \<Rightarrow> ('k, 'v) omap \<Rightarrow> ('k, 'v) omap" where
  "om_touch d k m = (case map_of m k of None \<Rightarrow> m @ [(k, d)] | Some v \<Rightarrow> m)"

definition om_modify :: "'v \<Rightarrow> 'k \<Rightarrow> ('v \<Rightarrow> 'v) \<Rightarrow> ('k, 'v) omap \<Rightarrow> ('k, 'v) omap" where
  "om_modify d k f m = AList.update k (f (om_at d m k)) m"

definition om_wf :: "('k, 'v) omap \<Rightarrow> bool" where
  "om_wf m \<longleftrightarrow> distinct (map fst m)"

definition umap_eq :: "('k, 'v) omap \<Rightarrow> ('k, 'v) omap \<Rightarrow> bool" where
  "umap_eq a b \<longleftrightarrow> length a = length b \<and> list_all (\<lambda>(k, v). map_of b k = Some v) a"

section \<open>Strings\<close>

definition digit_char :: "nat \<Rightarrow> char" where
  "digit_char d = char_of (48 + d)"

definition char_digit :: "char \<Rightarrow> nat" where
  "char_digit c = of_char c - 48"

definition is_digit :: "char \<Rightarrow> bool" where
  "is_digit c \<longleftrightarrow> 48 \<le> (of_char c :: nat) \<and> (of_char c :: nat) \<le> 57"

definition is_space :: "char \<Rightarrow> bool" where
  "is_space c \<longleftrightarrow> (of_char c :: nat) = 32 \<or> (9 \<le> (of_char c :: nat) \<and> (of_char c :: nat) \<le> 13)"

fun nat_to_string :: "nat \<Rightarrow> string" where
  "nat_to_string n =
     (if n < 10 then [digit_char n] else nat_to_string (n div 10) @ [digit_char (n mod 10)])"

declare nat_to_string.simps [simp del]

definition to_string :: "'a::len word \<Rightarrow> string" where
  "to_string w = nat_to_string (unat w)"

definition int_to_string :: "int \<Rightarrow> string" where
  "int_to_string i =
     (if i < 0 then CHR ''-'' # nat_to_string (nat (- i)) else nat_to_string (nat i))"

definition digits_val :: "string \<Rightarrow> nat" where
  "digits_val s = foldl (\<lambda>n c. 10 * n + char_digit c) 0 s"

definition stoi :: "string \<Rightarrow> int res" where
  "stoi s =
     (let t = dropWhile is_space s;
          neg = (case t of [] \<Rightarrow> False | c # _ \<Rightarrow> c = CHR ''-'');
          u = (case t of [] \<Rightarrow> [] | c # r \<Rightarrow> if c = CHR ''-'' \<or> c = CHR ''+'' then r else t);
          ds = takeWhile is_digit u;
          v = (if neg then - int (digits_val ds) else int (digits_val ds))
      in if ds = [] then Inl InvalidArgument
         else if v < - (2 ^ 31) \<or> 2 ^ 31 \<le> v then Inl OutOfRange
         else Inr v)"

text \<open>
  \<^verbatim>\<open>split\<close> of \<^verbatim>\<open>common.hpp\<close>: \<^verbatim>\<open>std::getline\<close> until the stream is exhausted. No item is
  produced after a final delimiter, and none for the empty string.
\<close>

function split :: "string \<Rightarrow> char \<Rightarrow> string list" where
  "split s delim =
     (if s = [] then []
      else takeWhile (\<lambda>c. c \<noteq> delim) s #
           (case dropWhile (\<lambda>c. c \<noteq> delim) s of [] \<Rightarrow> [] | _ # r \<Rightarrow> split r delim))"
  by pat_completeness auto
termination
proof (relation "measure (\<lambda>(s, d). length s)", goal_cases)
  case 1
  then show ?case by simp
next
  case (2 s delim c r)
  have "length (dropWhile (\<lambda>c. c \<noteq> delim) s) \<le> length s"
    by (rule length_dropWhile_le)
  with 2 show ?case by simp
qed

declare split.simps [simp del]

section \<open>Facts about the combinators\<close>

lemma rbind_Inr [simp]: "rbind (Inr x) f = f x"
  by (simp add: rbind_def)

lemma rbind_Inl [simp]: "rbind (Inl e) f = Inl e"
  by (simp add: rbind_def)

lemma rbind_eq_Inr [res_simps]: "rbind m f = Inr y \<longleftrightarrow> (\<exists>x. m = Inr x \<and> f x = Inr y)"
  by (cases m) auto

lemma rbind_cases:
  assumes "rbind m f = Inr y"
  obtains x where "m = Inr x" and "f x = Inr y"
  using assms by (auto simp: rbind_eq_Inr)

lemma rfold_append: "rfold f (xs @ ys) s = rbind (rfold f xs s) (rfold f ys)"
proof (induction xs arbitrary: s)
  case Nil
  then show ?case by simp
next
  case (Cons x xs)
  then show ?case by (cases "f x s") auto
qed

text \<open>An invariant of every completed step is an invariant of the completed loop.\<close>

lemma rfold_invariant:
  assumes "rfold f xs s = Inr t" and "I s"
    and "\<And>x s t. x \<in> set xs \<Longrightarrow> I s \<Longrightarrow> f x s = Inr t \<Longrightarrow> I t"
  shows "I t"
  using assms
proof (induction xs arbitrary: s)
  case Nil
  then show ?case by simp
next
  case (Cons x xs)
  from Cons.prems(1) obtain u where u: "f x s = Inr u" and r: "rfold f xs u = Inr t"
    by (auto simp: rbind_eq_Inr)
  from Cons.prems(3)[OF _ Cons.prems(2) u] have "I u" by simp
  with r show ?case
    using Cons.prems(3) by (intro Cons.IH [of u]) auto
qed

lemma rfold_total:
  assumes "\<And>x s. x \<in> set xs \<Longrightarrow> \<exists>s'. f x s = Inr s'"
  shows "\<exists>s'. rfold f xs s = Inr s'"
  using assms
proof (induction xs arbitrary: s)
  case (Cons x xs)
  then obtain s1 where "f x s = Inr s1"
    by (meson list.set_intros(1))
  moreover obtain s2 where "rfold f xs s1 = Inr s2"
    using Cons by (meson list.set_intros(2))
  ultimately show ?case
    by simp
qed simp

lemma vec_at_Inr [res_simps]: "vec_at xs i = Inr x \<longleftrightarrow> i < length xs \<and> xs ! i = x"
  by (auto simp: vec_at_def)

lemma vec_at_0_Cons [simp]: "vec_at (x # xs) 0 = Inr x"
  by (simp add: vec_at_def)

lemma vec_at_Nil [simp]: "vec_at [] i = Inl OutOfRange"
  by (simp add: vec_at_def)

lemma om_at_update [simp]: "om_at d (AList.update k v m) k' = (if k' = k then v else om_at d m k')"
  by (simp add: om_at_def update_conv')

lemma om_at_Some: "map_of m k = Some v \<Longrightarrow> om_at d m k = v"
  by (simp add: om_at_def)

lemma om_at_Nil [simp]: "om_at d [] k = d"
  by (simp add: om_at_def)

lemma om_at_touch [simp]: "om_at d (om_touch d k m) k' = om_at d m k'"
  by (auto simp: om_at_def om_touch_def map_add_def split: option.splits)

lemma map_of_touch:
  "map_of (om_touch d k m) k' =
     (if k' = k then Some (om_at d m k) else map_of m k')"
  by (auto simp: om_at_def om_touch_def map_add_def split: option.splits)

lemma map_of_modify [simp]:
  "map_of (om_modify d k f m) = (map_of m)(k \<mapsto> f (om_at d m k))"
  by (simp add: om_modify_def update_conv')

lemma om_at_modify [simp]:
  "om_at d (om_modify d' k f m) k' = (if k' = k then f (om_at d' m k) else om_at d m k')"
  by (simp add: om_modify_def)

lemma om_wf_update [intro]: "om_wf m \<Longrightarrow> om_wf (AList.update k v m)"
  by (simp add: om_wf_def distinct_update)

lemma om_wf_modify [intro]: "om_wf m \<Longrightarrow> om_wf (om_modify d k f m)"
  by (simp add: om_modify_def om_wf_update)

lemma om_wf_delete [intro]: "om_wf m \<Longrightarrow> om_wf (AList.delete k m)"
  by (simp add: om_wf_def distinct_delete)

lemma om_wf_touch [intro]: "om_wf m \<Longrightarrow> om_wf (om_touch d k m)"
  by (auto simp: om_wf_def om_touch_def map_of_eq_None_iff split: option.splits)

lemma om_wf_Nil [simp]: "om_wf []"
  by (simp add: om_wf_def)

lemma map_of_delete [simp]: "map_of (AList.delete k m) = (map_of m)(k := None)"
  by (rule delete_conv')

text \<open>Comparing sizes and entries, as \<^verbatim>\<open>unordered_map::operator==\<close> does, is equality of lookups.\<close>

lemma umap_eq_iff:
  assumes a: "om_wf a" and b: "om_wf b"
  shows "umap_eq a b \<longleftrightarrow> map_of a = map_of b"
proof
  assume eq: "umap_eq a b"
  then have sub: "\<And>k v. map_of a k = Some v \<Longrightarrow> map_of b k = Some v"
    by (auto simp: umap_eq_def list_all_iff dest!: map_of_SomeD)
  then have dsub: "dom (map_of a) \<subseteq> dom (map_of b)"
    by auto
  have "card (dom (map_of a)) = length a" "card (dom (map_of b)) = length b"
    using a b by (metis om_wf_def distinct_card dom_map_of_conv_image_fst image_set length_map)+
  with eq have "card (dom (map_of a)) = card (dom (map_of b))"
    by (simp add: umap_eq_def)
  then have "dom (map_of a) = dom (map_of b)"
    using dsub by (intro card_subset_eq finite_dom_map_of)
  then show "map_of a = map_of b"
    using sub by (intro ext) (metis domIff not_None_eq)
next
  assume eq: "map_of a = map_of b"
  have len: "card (dom (map_of a)) = length a" "card (dom (map_of b)) = length b"
    using a b by (metis om_wf_def distinct_card dom_map_of_conv_image_fst image_set length_map)+
  have "list_all (\<lambda>(k, v). map_of b k = Some v) a"
    using a unfolding eq [symmetric] by (auto simp: list_all_iff om_wf_def intro: map_of_is_SomeI)
  then show "umap_eq a b"
    using len eq by (simp add: umap_eq_def)
qed

section \<open>Decimal numbers\<close>

lemma digit_char_val: "d < 10 \<Longrightarrow> char_digit (digit_char d) = d"
  by (simp add: digit_char_def char_digit_def)

lemma is_digit_digit_char: "d < 10 \<Longrightarrow> is_digit (digit_char d)"
  by (simp add: digit_char_def is_digit_def)

lemma digits_val_snoc: "digits_val (s @ [c]) = 10 * digits_val s + char_digit c"
  by (simp add: digits_val_def)

lemma digits_val_nat_to_string [simp]: "digits_val (nat_to_string n) = n"
proof (induction n rule: nat_to_string.induct)
  case (1 n)
  show ?case
  proof (cases "n < 10")
    case True
    then show ?thesis
      by (simp add: nat_to_string.simps [of n] digits_val_def digit_char_val)
  next
    case False
    with 1 show ?thesis
      by (simp add: nat_to_string.simps [of n] digits_val_snoc digit_char_val)
  qed
qed

lemma nat_to_string_inj: "nat_to_string m = nat_to_string n \<longleftrightarrow> m = n"
  by (metis digits_val_nat_to_string)

lemma nat_to_string_digits: "c \<in> set (nat_to_string n) \<Longrightarrow> is_digit c"
proof (induction n arbitrary: c rule: nat_to_string.induct)
  case (1 n)
  then show ?case
    by (cases "n < 10") (auto simp: nat_to_string.simps [of n] is_digit_digit_char)
qed

lemma nat_to_string_nonempty [simp]: "nat_to_string n \<noteq> []"
  by (subst nat_to_string.simps) simp

lemma to_string_inj: "to_string a = to_string b \<longleftrightarrow> a = b"
  by (simp add: to_string_def nat_to_string_inj word_unat_eq_iff)

lemma to_string_nonempty [simp]: "to_string a \<noteq> []"
  by (simp add: to_string_def)

lemma to_string_no_char: "\<not> is_digit c \<Longrightarrow> c \<notin> set (to_string a)"
  by (auto simp: to_string_def dest: nat_to_string_digits)

lemma takeWhile_digits_nat_to_string [simp]:
  "takeWhile is_digit (nat_to_string n) = nat_to_string n"
  by (simp add: takeWhile_eq_all_conv nat_to_string_digits)

lemma digit_not_space: "is_digit c \<Longrightarrow> \<not> is_space c"
  by (auto simp: is_digit_def is_space_def)

lemma digit_not_sign: "is_digit c \<Longrightarrow> c \<noteq> CHR ''-'' \<and> c \<noteq> CHR ''+''"
  by (auto simp: is_digit_def)

text \<open>\<^verbatim>\<open>std::stoi\<close> reads back what \<^verbatim>\<open>std::to_string\<close> prints, for every \<^verbatim>\<open>int\<close>.\<close>

lemma stoi_nat_to_string: "n < 2 ^ 31 \<Longrightarrow> stoi (nat_to_string n) = Inr (int n)"
proof -
  assume n: "n < 2 ^ 31"
  obtain c cs where s: "nat_to_string n = c # cs"
    by (meson list.exhaust nat_to_string_nonempty)
  then have c: "is_digit c"
    using nat_to_string_digits [of c n] by simp
  have "\<forall>x\<in>set cs. is_digit x" and dv: "digits_val (c # cs) = n"
    using nat_to_string_digits [of _ n] digits_val_nat_to_string [of n]
    by (simp_all add: s)
  then have tw: "takeWhile is_digit cs = cs"
    by (simp add: takeWhile_eq_all_conv)
  show ?thesis
    using c digit_not_space [OF c] digit_not_sign [OF c] n dv
    by (simp add: stoi_def s Let_def tw)
qed

section \<open>Splitting\<close>

text \<open>A delimiter that occurs once in each string splits equal strings alike.\<close>

lemma delim_inj:
  assumes "d \<notin> set s" "d \<notin> set t"
  shows "x @ d # s = y @ d # t \<longleftrightarrow> x = y \<and> s = t"
proof
  assume eq: "x @ d # s = y @ d # t"
  have tw: "\<And>u z. d \<notin> set u \<Longrightarrow> takeWhile (\<lambda>c. c \<noteq> d) (rev u @ d # rev z) = rev u"
    by (subst takeWhile_append2) auto
  from eq have "rev s @ d # rev x = rev t @ d # rev y"
    by (metis append.assoc append_Cons append_Nil rev.simps(2) rev_append)
  then have "rev s = rev t"
    using tw [OF assms(1), of x] tw [OF assms(2), of y] by simp
  then show "x = y \<and> s = t"
    using eq by simp
qed simp

lemma delim_first_inj:
  assumes "d \<notin> set x" "d \<notin> set y"
  shows "x @ d # s = y @ d # t \<longleftrightarrow> x = y \<and> s = t"
proof
  assume eq: "x @ d # s = y @ d # t"
  have tw: "\<And>u z. d \<notin> set u \<Longrightarrow> takeWhile (\<lambda>c. c \<noteq> d) (u @ d # z) = u"
    by (subst takeWhile_append2) auto
  have "x = y"
    using tw [OF assms(1), of s] tw [OF assms(2), of t] eq by simp
  then show "x = y \<and> s = t"
    using eq by simp
qed simp

lemma split_Nil [simp]: "split [] d = []"
  by (simp add: split.simps)

lemma split_item: "d \<notin> set a \<Longrightarrow> split (a @ d # b) d = a # split b d"
proof -
  assume d: "d \<notin> set a"
  have "takeWhile (\<lambda>c. c \<noteq> d) (a @ d # b) = a" "dropWhile (\<lambda>c. c \<noteq> d) (a @ d # b) = d # b"
    using d by (induction a) auto
  then show ?thesis
    by (subst split.simps) simp
qed

lemma split_last: "d \<notin> set a \<Longrightarrow> a \<noteq> [] \<Longrightarrow> split a d = [a]"
proof -
  assume d: "d \<notin> set a" and a: "a \<noteq> []"
  have items: "takeWhile (\<lambda>c. c \<noteq> d) a = a" "dropWhile (\<lambda>c. c \<noteq> d) a = []"
    using d by (auto simp: takeWhile_eq_all_conv dropWhile_eq_Nil_conv)
  show ?thesis
    using a by (subst split.simps) (simp only: items list.case if_False)
qed

lemma split_nonempty: "s \<noteq> [] \<Longrightarrow> split s d \<noteq> []"
  by (subst split.simps) simp

text \<open>Counters that stay below a machine word do not wrap around.\<close>

lemma unat_of_nat_le: "n \<le> unat (w :: 'a::len word) \<Longrightarrow> unat (of_nat n :: 'a word) = n"
proof -
  assume "n \<le> unat w"
  moreover have "unat w < 2 ^ LENGTH('a)"
    by (rule unsigned_less)
  ultimately have "n < 2 ^ LENGTH('a)"
    by (rule le_less_trans)
  then show ?thesis
    by (simp add: unat_of_nat)
qed

lemma of_nat_eq_word: "n = unat (w :: 'a::len word) \<Longrightarrow> of_nat n = w"
  by (simp add: word_unat_eq_iff)

section \<open>Results that satisfy a predicate\<close>

definition rpost :: "('a \<Rightarrow> bool) \<Rightarrow> 'a res \<Rightarrow> bool" where
  "rpost P m \<longleftrightarrow> (\<forall>x. m = Inr x \<longrightarrow> P x)"

lemma rpostD: "rpost P m \<Longrightarrow> m = Inr x \<Longrightarrow> P x"
  by (simp add: rpost_def)

lemma rpost_Inl [simp]: "rpost P (Inl e)"
  by (simp add: rpost_def)

lemma rpost_Inr [simp]: "rpost P (Inr x) \<longleftrightarrow> P x"
  by (simp add: rpost_def)

lemma rpost_bind: "rpost Q m \<Longrightarrow> (\<And>x. Q x \<Longrightarrow> rpost P (f x)) \<Longrightarrow> rpost P (rbind m f)"
  by (auto simp: rpost_def rbind_def split: sum.splits)

lemma rpost_rfold: "P s \<Longrightarrow> (\<And>x s. P s \<Longrightarrow> rpost P (f x s)) \<Longrightarrow> rpost P (rfold f xs s)"
  by (induction xs arbitrary: s) (auto intro: rpost_bind)

end
