(* ===== verification/Anna_Lattices.thy ===== *)
theory Anna_Lattices
  imports Anna_Prelude "HOL-Library.List_Lexorder" "HOL-Library.Char_ord"
begin

text \<open>
  The lattice library of \<^verbatim>\<open>common/include/lattices\<close>: \<^verbatim>\<open>BoolLattice\<close>, \<^verbatim>\<open>MaxLattice\<close>,
  \<^verbatim>\<open>SetLattice\<close>, \<^verbatim>\<open>OrderedSetLattice\<close>, \<^verbatim>\<open>MapLattice\<close>, \<^verbatim>\<open>LWWPairLattice\<close> and
  \<^verbatim>\<open>PriorityLattice\<close>. A lattice object is its \<^verbatim>\<open>element\<close>; each \<^verbatim>\<open>do_merge\<close> is a function from
  the old element and the merged one to the new element.

  The locale \<open>mergeable\<close> is the contract a replicated value needs: merging is associative,
  idempotent, and commutative on compatible elements, all up to a view of the element. Its
  lemmas show that a replica's value depends only on the set of updates it has received.
  Every merge of this theory interprets it.
\<close>

section \<open>The lattices\<close>

subsection \<open>\<^verbatim>\<open>BoolLattice\<close> and \<^verbatim>\<open>MaxLattice<unsigned>\<close>\<close>

definition bool_do_merge :: "bool \<Rightarrow> bool \<Rightarrow> bool" where
  "bool_do_merge element e = (element \<or> e)"

text \<open>
  \<^verbatim>\<open>MaxLattice::do_merge\<close> copies the element into an \<^verbatim>\<open>int\<close> and compares that with the
  \<^verbatim>\<open>unsigned\<close> argument, which converts it back.
\<close>

definition max_do_merge :: "u32 \<Rightarrow> u32 \<Rightarrow> u32" where
  "max_do_merge element e =
     (let current = sint element in if word_of_int current < e then e else element)"

definition max_add :: "u32 \<Rightarrow> u32 \<Rightarrow> u32" where
  "max_add element n = element + n"

definition max_subtract :: "u32 \<Rightarrow> u32 \<Rightarrow> u32" where
  "max_subtract element n = element - n"

subsection \<open>\<^verbatim>\<open>SetLattice\<close>\<close>

definition set_do_merge :: "'a list \<Rightarrow> 'a list \<Rightarrow> 'a list" where
  "set_do_merge element e = fold List.insert e element"

definition set_size :: "'a list \<Rightarrow> u32" where
  "set_size element = of_nat (length element)"

definition set_insert :: "'a list \<Rightarrow> 'a \<Rightarrow> 'a list" where
  "set_insert element e = List.insert e element"

definition set_intersect :: "'a list \<Rightarrow> 'a list \<Rightarrow> 'a list" where
  "set_intersect element s =
     fold (\<lambda>that_elem res.
       fold (\<lambda>this_elem res. if this_elem = that_elem then List.insert this_elem res else res)
         element res) s []"

definition set_project :: "('a \<Rightarrow> bool) \<Rightarrow> 'a list \<Rightarrow> 'a list" where
  "set_project f element =
     fold (\<lambda>elem res. if f elem then List.insert elem res else res) element []"

subsection \<open>\<^verbatim>\<open>OrderedSetLattice\<close>\<close>

definition ordered_set_do_merge :: "'a::linorder list \<Rightarrow> 'a list \<Rightarrow> 'a list" where
  "ordered_set_do_merge element e = fold insort_insert e element"

definition ordered_set_insert :: "'a::linorder list \<Rightarrow> 'a \<Rightarrow> 'a list" where
  "ordered_set_insert element e = insort_insert e element"

definition ordered_set_intersect :: "'a::linorder list \<Rightarrow> 'a list \<Rightarrow> 'a list" where
  "ordered_set_intersect element s =
     fold (\<lambda>that_elem res.
       fold (\<lambda>this_elem res. if this_elem = that_elem then insort_insert this_elem res else res)
         element res) s []"

definition ordered_set_project :: "('a::linorder \<Rightarrow> bool) \<Rightarrow> 'a list \<Rightarrow> 'a list" where
  "ordered_set_project f element =
     fold (\<lambda>elem res. if f elem then insort_insert elem res else res) element []"

subsection \<open>\<^verbatim>\<open>MapLattice\<close>\<close>

definition map_insert_pair ::
    "('v \<Rightarrow> 'v \<Rightarrow> 'v) \<Rightarrow> 'k \<Rightarrow> 'v \<Rightarrow> ('k, 'v) omap \<Rightarrow> ('k, 'v) omap" where
  "map_insert_pair merge k v element =
     (case map_of element k of
        Some w \<Rightarrow> AList.update k (merge w v) element
      | None \<Rightarrow> element @ [(k, v)])"

definition map_do_merge ::
    "('v \<Rightarrow> 'v \<Rightarrow> 'v) \<Rightarrow> ('k, 'v) omap \<Rightarrow> ('k, 'v) omap \<Rightarrow> ('k, 'v) omap" where
  "map_do_merge merge element m = fold (\<lambda>(k, v). map_insert_pair merge k v) m element"

definition map_size :: "('k, 'v) omap \<Rightarrow> u32" where
  "map_size element = of_nat (length element)"

definition map_contains :: "('k, 'v) omap \<Rightarrow> 'k \<Rightarrow> bool" where
  "map_contains element k = (case map_of element k of None \<Rightarrow> False | Some _ \<Rightarrow> True)"

definition map_at :: "'v \<Rightarrow> ('k, 'v) omap \<Rightarrow> 'k \<Rightarrow> 'v \<times> ('k, 'v) omap" where
  "map_at dflt element k = (om_at dflt element k, om_touch dflt k element)"

definition map_intersect ::
    "('v \<Rightarrow> 'v \<Rightarrow> 'v) \<Rightarrow> 'v \<Rightarrow> ('k, 'v) omap \<Rightarrow> ('k, 'v) omap \<Rightarrow> ('k, 'v) omap" where
  "map_intersect merge dflt element other =
     fold (\<lambda>(k, v) res.
       if map_contains element k
       then map_insert_pair merge k v
              (map_insert_pair merge k (fst (map_at dflt element k)) res)
       else res) other []"

definition map_project :: "('v \<Rightarrow> bool) \<Rightarrow> ('k, 'v) omap \<Rightarrow> ('k, 'v) omap" where
  "map_project f element =
     fold (\<lambda>(k, v) res. if f v then (if map_contains res k then res else res @ [(k, v)]) else res)
       element []"

definition map_key_set :: "('k, 'v) omap \<Rightarrow> 'k list" where
  "map_key_set element = fold (\<lambda>(k, v). List.insert k) element []"

definition map_remove :: "'k \<Rightarrow> ('k, 'v) omap \<Rightarrow> ('k, 'v) omap" where
  "map_remove k element = (if map_contains element k then AList.delete k element else element)"

definition map_insert ::
    "('v \<Rightarrow> 'v \<Rightarrow> 'v) \<Rightarrow> 'k \<Rightarrow> 'v \<Rightarrow> ('k, 'v) omap \<Rightarrow> ('k, 'v) omap" where
  "map_insert merge k v element = map_insert_pair merge k v element"

subsection \<open>\<^verbatim>\<open>LWWPairLattice\<close>\<close>

record 'a TimestampValuePair =
  tvp_timestamp :: u64
  tvp_value :: 'a

definition lww_bot :: "string TimestampValuePair" where
  "lww_bot = \<lparr>tvp_timestamp = 0, tvp_value = []\<rparr>"

definition lww_do_merge ::
    "'a TimestampValuePair \<Rightarrow> 'a TimestampValuePair \<Rightarrow> 'a TimestampValuePair" where
  "lww_do_merge element p =
     (if tvp_timestamp p \<ge> tvp_timestamp element
      then element\<lparr>tvp_timestamp := tvp_timestamp p, tvp_value := tvp_value p\<rparr>
      else element)"

definition lww_size :: "string TimestampValuePair \<Rightarrow> u32" where
  "lww_size element = of_nat (length (tvp_value element) + 8)"

subsection \<open>\<^verbatim>\<open>PriorityLattice\<close>\<close>

record ('p, 'v) PriorityValuePair =
  pvp_priority :: 'p
  pvp_value :: 'v

definition priority_bot :: "('p::numeral, string) PriorityValuePair" where
  "priority_bot = \<lparr>pvp_priority = 2147483647, pvp_value = []\<rparr>"

definition priority_do_merge ::
    "('p \<Rightarrow> 'p \<Rightarrow> bool) \<Rightarrow> ('p, 'v) PriorityValuePair \<Rightarrow> ('p, 'v) PriorityValuePair
      \<Rightarrow> ('p, 'v) PriorityValuePair" where
  "priority_do_merge compare element p =
     (if compare (pvp_priority p) (pvp_priority element) then p else element)"

text \<open>\<^verbatim>\<open>sizeof(P)\<close> is 8 for the \<^verbatim>\<open>double\<close> priorities the servers use.\<close>

definition priority_size :: "('p, string) PriorityValuePair \<Rightarrow> u32" where
  "priority_size element = of_nat (8 + length (pvp_value element))"

section \<open>The contract of a replicated value\<close>

locale mergeable =
  fixes inv :: "'a \<Rightarrow> bool"
    and view :: "'a \<Rightarrow> 'b"
    and compat :: "'a \<Rightarrow> 'a \<Rightarrow> bool"
    and mrg :: "'a \<Rightarrow> 'a \<Rightarrow> 'a"
  assumes inv_mrg: "inv a \<Longrightarrow> inv b \<Longrightarrow> inv (mrg a b)"
    and cong_left: "inv a \<Longrightarrow> inv a' \<Longrightarrow> inv b \<Longrightarrow> view a = view a' \<Longrightarrow>
          view (mrg a b) = view (mrg a' b)"
    and cong_right: "inv a \<Longrightarrow> inv b \<Longrightarrow> inv b' \<Longrightarrow> view b = view b' \<Longrightarrow>
          view (mrg a b) = view (mrg a b')"
    and comm: "inv a \<Longrightarrow> inv b \<Longrightarrow> compat a b \<Longrightarrow> view (mrg a b) = view (mrg b a)"
    and assoc: "inv a \<Longrightarrow> inv b \<Longrightarrow> inv c \<Longrightarrow>
          view (mrg (mrg a b) c) = view (mrg a (mrg b c))"
    and idem: "inv a \<Longrightarrow> view (mrg a a) = view a"
begin

lemma inv_foldl: "inv s \<Longrightarrow> list_all inv us \<Longrightarrow> inv (foldl mrg s us)"
  by (induction us arbitrary: s) (auto simp: inv_mrg)

lemma cong_foldl:
  "inv s \<Longrightarrow> inv t \<Longrightarrow> list_all inv us \<Longrightarrow> view s = view t \<Longrightarrow>
     view (foldl mrg s us) = view (foldl mrg t us)"
proof (induction us arbitrary: s t)
  case Nil
  then show ?case by simp
next
  case (Cons u us)
  then have "view (mrg s u) = view (mrg t u)"
    by (intro cong_left) auto
  with Cons show ?case by (simp add: inv_mrg)
qed

lemma swap:
  assumes "inv s" "inv a" "inv b" "compat a b"
  shows "view (mrg (mrg s a) b) = view (mrg (mrg s b) a)"
proof -
  have "view (mrg (mrg s a) b) = view (mrg s (mrg a b))"
    using assms by (intro assoc)
  also have "\<dots> = view (mrg s (mrg b a))"
    using assms by (intro cong_right comm inv_mrg)
  also have "\<dots> = view (mrg (mrg s b) a)"
    using assms by (intro assoc [symmetric])
  finally show ?thesis .
qed

text \<open>A second delivery of an update changes nothing, however late it comes.\<close>

lemma absorb:
  assumes "inv s" "list_all inv us" "u \<in> set us"
    and "\<And>a b. a \<in> set us \<Longrightarrow> b \<in> set us \<Longrightarrow> compat a b"
  shows "view (mrg (foldl mrg s us) u) = view (foldl mrg s us)"
  using assms
proof (induction us rule: rev_induct)
  case Nil
  then show ?case by simp
next
  case (snoc x us)
  let ?t = "foldl mrg s us"
  from snoc.prems have inv: "inv ?t" "inv x" "inv u"
    by (auto intro: inv_foldl simp: list_all_iff)
  show ?case
  proof (cases "u \<in> set us")
    case True
    with snoc have IH: "view (mrg ?t u) = view ?t" by simp
    have "view (mrg (mrg ?t x) u) = view (mrg (mrg ?t u) x)"
      using inv snoc.prems by (intro swap) auto
    also have "\<dots> = view (mrg ?t x)"
      using inv IH by (intro cong_left inv_mrg)
    finally show ?thesis by simp
  next
    case False
    with snoc.prems have "u = x" by simp
    have "view (mrg (mrg ?t x) x) = view (mrg ?t (mrg x x))"
      using inv by (intro assoc)
    also have "\<dots> = view (mrg ?t x)"
      using inv by (intro cong_right inv_mrg idem)
    finally show ?thesis using \<open>u = x\<close> by simp
  qed
qed

lemma absorb_all:
  assumes "inv s" "list_all inv us" "set vs \<subseteq> set us"
    and "\<And>a b. a \<in> set us \<Longrightarrow> b \<in> set us \<Longrightarrow> compat a b"
  shows "view (foldl mrg s (us @ vs)) = view (foldl mrg s us)"
  using assms(3)
proof (induction vs rule: rev_induct)
  case Nil
  then show ?case by simp
next
  case (snoc v vs)
  let ?t = "foldl mrg s us"
  have inv: "inv ?t" "list_all inv vs" "inv v"
    using assms snoc.prems by (auto intro: inv_foldl simp: list_all_iff)
  have "view (mrg (foldl mrg ?t vs) v) = view (mrg ?t v)"
    using assms(1,2) snoc inv by (intro cong_left inv_foldl) auto
  also have "\<dots> = view ?t"
    using assms snoc.prems by (intro absorb) auto
  finally show ?case by simp
qed

lemma move_last:
  assumes "inv s" "list_all inv us" "inv v"
    and "\<And>a. a \<in> set us \<Longrightarrow> compat a v"
  shows "view (mrg (foldl mrg s us) v) = view (foldl mrg (mrg s v) us)"
  using assms(1,2,4)
proof (induction us arbitrary: s)
  case Nil
  then show ?case by simp
next
  case (Cons u us)
  from Cons.prems have inv: "inv s" "inv u" "list_all inv us" by auto
  have "view (mrg (foldl mrg (mrg s u) us) v) = view (foldl mrg (mrg (mrg s u) v) us)"
    using Cons inv by (intro Cons.IH) (auto simp: inv_mrg)
  also have "\<dots> = view (foldl mrg (mrg (mrg s v) u) us)"
    using Cons.prems inv assms(3) by (intro cong_foldl swap) (auto simp: inv_mrg)
  finally show ?case by simp
qed

lemma exchange:
  assumes "inv s" "list_all inv us" "list_all inv vs"
    and "\<And>a b. a \<in> set us \<Longrightarrow> b \<in> set vs \<Longrightarrow> compat a b"
  shows "view (foldl mrg s (us @ vs)) = view (foldl mrg s (vs @ us))"
  using assms(1,3,4)
proof (induction vs arbitrary: s)
  case Nil
  then show ?case by simp
next
  case (Cons v vs)
  from Cons.prems have inv: "inv v" "list_all inv vs" "inv (foldl mrg s us)" "inv (mrg s v)"
    using assms(2) by (auto intro: inv_foldl simp: inv_mrg)
  have "view (foldl mrg (mrg (foldl mrg s us) v) vs) = view (foldl mrg (foldl mrg (mrg s v) us) vs)"
    using Cons.prems inv assms(2)
    by (intro cong_foldl move_last inv_mrg inv_foldl) auto
  also have "\<dots> = view (foldl mrg (mrg s v) (vs @ us))"
    using Cons inv by (simp flip: foldl_append)
  finally show ?case by simp
qed

text \<open>
  Strong eventual consistency: two replicas that start alike and receive the same updates hold
  the same value, whatever the order and the multiplicity of the deliveries.
\<close>

lemma convergence:
  assumes "inv s" "list_all inv us" "set us = set vs"
    and "\<And>a b. a \<in> set us \<Longrightarrow> b \<in> set us \<Longrightarrow> compat a b"
  shows "view (foldl mrg s us) = view (foldl mrg s vs)"
proof -
  have vs: "list_all inv vs" using assms(2,3) by (simp add: list_all_iff)
  have "view (foldl mrg s us) = view (foldl mrg s (us @ vs))"
    using assms vs by (intro absorb_all [symmetric]) auto
  also have "\<dots> = view (foldl mrg s (vs @ us))"
    using assms vs by (intro exchange) auto
  also have "\<dots> = view (foldl mrg s vs)"
    using assms vs by (intro absorb_all) auto
  finally show ?thesis .
qed

text \<open>
  Anti-entropy: merging the whole value of another replica, as gossip does, has the effect of
  delivering the updates that made it.
\<close>

lemma merge_replica:
  assumes "inv s" "list_all inv us" "list_all inv vs"
    and "\<And>a b. a \<in> set (s # us) \<Longrightarrow> b \<in> set (s # us) \<Longrightarrow> compat a b"
  shows "view (mrg (foldl mrg s us) (foldl mrg s vs)) = view (foldl mrg s (us @ vs))"
  using assms(3)
proof (induction vs rule: rev_induct)
  case Nil
  have "view (mrg (foldl mrg s us) s) = view (mrg (foldl mrg (mrg s s) us) s)"
    using assms idem [of s]
    by (intro cong_left cong_foldl inv_foldl) (auto simp: inv_mrg)
  also have "\<dots> = view (foldl mrg s (s # us))"
    using assms absorb [of s "s # us" s] by simp
  also have "\<dots> = view (foldl mrg s us)"
    using assms idem [of s] by (auto intro!: cong_foldl simp: inv_mrg)
  finally show ?case by simp
next
  case (snoc v vs)
  let ?a = "foldl mrg s us" and ?b = "foldl mrg s vs"
  have inv: "inv ?a" "inv ?b" "inv v" "list_all inv vs"
    using assms snoc.prems by (auto intro: inv_foldl)
  have "view (mrg ?a (mrg ?b v)) = view (mrg (mrg ?a ?b) v)"
    using inv by (intro assoc [symmetric])
  also have "\<dots> = view (mrg (foldl mrg s (us @ vs)) v)"
    using assms inv snoc by (intro cong_left inv_mrg inv_foldl) auto
  finally show ?case by simp
qed

end

text \<open>A lattice whose default element is the bottom of the merge.\<close>

locale bounded_mergeable = mergeable inv view compat mrg
  for inv :: "'a \<Rightarrow> bool" and view :: "'a \<Rightarrow> 'b" and compat and mrg +
  fixes dflt :: 'a
  assumes inv_dflt: "inv dflt"
    and dflt_left: "inv a \<Longrightarrow> view (mrg dflt a) = view a"
begin

lemma first_update: "inv a \<Longrightarrow> view (foldl mrg dflt [a]) = view a"
  by (simp add: dflt_left)

end

section \<open>What the merges compute\<close>

lemma max_do_merge_max: "max_do_merge a b = max a b"
  by (auto simp: max_do_merge_def max_def)

lemma set_fold_insert [simp]: "set (fold List.insert e xs) = set xs \<union> set e"
  by (induction e arbitrary: xs) auto

lemma distinct_fold_insert [intro]: "distinct xs \<Longrightarrow> distinct (fold List.insert e xs)"
  by (induction e arbitrary: xs) auto

lemma set_set_do_merge [simp]: "set (set_do_merge a b) = set a \<union> set b"
  by (simp add: set_do_merge_def)

lemma distinct_set_do_merge [intro]: "distinct a \<Longrightarrow> distinct (set_do_merge a b)"
  by (auto simp: set_do_merge_def)

lemma set_fold_insort_insert [simp]: "set (fold insort_insert e xs) = set xs \<union> set e"
  by (induction e arbitrary: xs) (auto simp: set_insort_insert)

lemma sorted_distinct_fold_insort_insert:
  "sorted xs \<and> distinct xs \<Longrightarrow> sorted (fold insort_insert e xs) \<and> distinct (fold insort_insert e xs)"
  by (induction e arbitrary: xs) (auto simp: sorted_insort_insert distinct_insort_insert)

lemma set_ordered_set_do_merge [simp]: "set (ordered_set_do_merge a b) = set a \<union> set b"
  by (simp add: ordered_set_do_merge_def)

lemma sorted_distinct_ordered_set_do_merge:
  "sorted a \<and> distinct a \<Longrightarrow> sorted (ordered_set_do_merge a b) \<and> distinct (ordered_set_do_merge a b)"
  by (simp add: ordered_set_do_merge_def sorted_distinct_fold_insort_insert)

lemma ordered_set_eqI:
  "sorted a \<and> distinct a \<Longrightarrow> sorted b \<and> distinct b \<Longrightarrow> set a = set b \<Longrightarrow> a = b"
  by (simp add: sorted_distinct_set_unique)

lemma map_of_insert_pair [simp]:
  "map_of (map_insert_pair mrg k v m) =
     (map_of m)(k \<mapsto> (case map_of m k of None \<Rightarrow> v | Some w \<Rightarrow> mrg w v))"
  by (auto simp: map_insert_pair_def fun_eq_iff update_conv' map_add_def split: option.splits)

lemma om_wf_insert_pair [intro]: "om_wf m \<Longrightarrow> om_wf (map_insert_pair mrg k v m)"
  by (auto simp: map_insert_pair_def om_wf_def distinct_update map_of_eq_None_iff split: option.splits)

lemma om_wf_map_do_merge [intro]: "om_wf m \<Longrightarrow> om_wf (map_do_merge mrg m es)"
  unfolding map_do_merge_def by (induction es arbitrary: m) auto

lemma map_of_map_do_merge:
  "om_wf es \<Longrightarrow> map_of (map_do_merge mrg m es) k =
     (case map_of es k of
        None \<Rightarrow> map_of m k
      | Some v \<Rightarrow> Some (case map_of m k of None \<Rightarrow> v | Some w \<Rightarrow> mrg w v))"
proof (induction es arbitrary: m)
  case Nil
  then show ?case by (simp add: map_do_merge_def)
next
  case (Cons e es)
  obtain k' v where e: "e = (k', v)" by (cases e)
  from Cons.prems e have wf: "om_wf es" and k': "map_of es k' = None"
    by (auto simp: om_wf_def map_of_eq_None_iff)
  have "map_of (map_do_merge mrg m (e # es)) k = map_of (map_do_merge mrg (map_insert_pair mrg k' v m) es) k"
    by (simp add: map_do_merge_def e)
  with Cons.IH [OF wf] k' show ?case
    by (auto simp: e split: option.splits)
qed

lemma map_contains_iff: "map_contains m k \<longleftrightarrow> k \<in> dom (map_of m)"
  by (auto simp: map_contains_def split: option.splits)

lemma map_of_map_remove [simp]: "map_of (map_remove k m) = (map_of m)(k := None)"
  by (auto simp: map_remove_def map_contains_def fun_eq_iff split: option.splits)

lemma om_wf_map_remove [intro]: "om_wf m \<Longrightarrow> om_wf (map_remove k m)"
  by (auto simp: map_remove_def)

section \<open>Maps of mergeable values\<close>

definition map_inv :: "('v \<Rightarrow> bool) \<Rightarrow> ('k, 'v) omap \<Rightarrow> bool" where
  "map_inv ok m \<longleftrightarrow> om_wf m \<and> (\<forall>k v. map_of m k = Some v \<longrightarrow> ok v)"

definition map_view :: "('v \<Rightarrow> 'w) \<Rightarrow> ('k, 'v) omap \<Rightarrow> 'k \<rightharpoonup> 'w" where
  "map_view view m = (\<lambda>k. map_option view (map_of m k))"

definition map_compat :: "('v \<Rightarrow> 'v \<Rightarrow> bool) \<Rightarrow> ('k, 'v) omap \<Rightarrow> ('k, 'v) omap \<Rightarrow> bool" where
  "map_compat agree a b \<longleftrightarrow>
     (\<forall>k v w. map_of a k = Some v \<longrightarrow> map_of b k = Some w \<longrightarrow> agree v w)"

context mergeable
begin

lemma map_inv_merge: "map_inv inv a \<Longrightarrow> map_inv inv b \<Longrightarrow> map_inv inv (map_do_merge mrg a b)"
  by (auto simp: map_inv_def map_of_map_do_merge inv_mrg split: option.splits)

lemma map_view_merge:
  "map_inv inv a \<Longrightarrow> map_inv inv b \<Longrightarrow> map_view view (map_do_merge mrg a b) k =
     (case (map_of a k, map_of b k) of
        (None, None) \<Rightarrow> None
      | (Some v, None) \<Rightarrow> Some (view v)
      | (None, Some w) \<Rightarrow> Some (view w)
      | (Some v, Some w) \<Rightarrow> Some (view (mrg v w)))"
  by (auto simp: map_view_def map_inv_def map_of_map_do_merge split: option.splits)

text \<open>A map of mergeable values, merged entry by entry, is mergeable.\<close>

lemma map_mergeable:
  "mergeable (map_inv inv) (map_view view) (map_compat compat)
     (map_do_merge mrg :: ('k, 'a) omap \<Rightarrow> ('k, 'a) omap \<Rightarrow> ('k, 'a) omap)"
proof (unfold_locales, goal_cases)
  case (1 a b)
  then show ?case by (rule map_inv_merge)
next
  case (2 a a' b)
  show ?case
  proof
    fix k
    from 2(4) have "map_option view (map_of a k) = map_option view (map_of a' k)"
      by (simp add: map_view_def fun_eq_iff)
    with 2(1-3) show "map_view view (map_do_merge mrg a b) k = map_view view (map_do_merge mrg a' b) k"
      by (cases "map_of a k"; cases "map_of a' k"; cases "map_of b k")
        (auto simp: map_view_merge map_inv_def intro: cong_left)
  qed
next
  case (3 a b b')
  show ?case
  proof
    fix k
    from 3(4) have "map_option view (map_of b k) = map_option view (map_of b' k)"
      by (simp add: map_view_def fun_eq_iff)
    with 3(1-3) show "map_view view (map_do_merge mrg a b) k = map_view view (map_do_merge mrg a b') k"
      by (cases "map_of a k"; cases "map_of b k"; cases "map_of b' k")
        (auto simp: map_view_merge map_inv_def intro: cong_right)
  qed
next
  case (4 a b)
  then show ?case
    by (intro ext) (auto simp: map_view_merge map_inv_def map_compat_def intro: comm split: option.splits)
next
  case (5 a b c)
  show ?case
  proof
    fix k
    show "map_view view (map_do_merge mrg (map_do_merge mrg a b) c) k
        = map_view view (map_do_merge mrg a (map_do_merge mrg b c)) k"
      using 5 by (auto simp: map_view_def map_of_map_do_merge map_inv_def om_wf_map_do_merge assoc
          split: option.splits)
  qed
next
  case (6 a)
  then show ?case
    by (intro ext) (auto simp: map_inv_def map_view_def map_of_map_do_merge idem split: option.splits)
qed

end

section \<open>Interpretations\<close>

text \<open>
  Compatibility is trivial for the join semilattices. A last-writer-wins pair is compatible with
  another when their timestamps differ or the pairs agree, and likewise a priority pair: ties are
  broken by the order of arrival, so only tie-free histories commute.
\<close>

definition lww_compat :: "'a TimestampValuePair \<Rightarrow> 'a TimestampValuePair \<Rightarrow> bool" where
  "lww_compat a b \<longleftrightarrow> (tvp_timestamp a = tvp_timestamp b \<longrightarrow> a = b)"

definition priority_compat ::
    "('p, 'v) PriorityValuePair \<Rightarrow> ('p, 'v) PriorityValuePair \<Rightarrow> bool" where
  "priority_compat a b \<longleftrightarrow> (pvp_priority a = pvp_priority b \<longrightarrow> a = b)"

interpretation bool_lattice: bounded_mergeable "\<lambda>_. True" id "\<lambda>_ _. True" bool_do_merge False
  by unfold_locales (auto simp: bool_do_merge_def)

interpretation max_lattice: bounded_mergeable "\<lambda>_. True" id "\<lambda>_ _. True" max_do_merge 0
  by unfold_locales (auto simp: max_do_merge_max ac_simps)

interpretation set_lattice: bounded_mergeable distinct set "\<lambda>_ _. True" set_do_merge "[]"
  by unfold_locales auto

interpretation ordered_set_lattice:
  bounded_mergeable "\<lambda>a. sorted a \<and> distinct a" id "\<lambda>_ _. True" ordered_set_do_merge "[]"
  by unfold_locales
    (auto intro!: ordered_set_eqI dest: sorted_distinct_ordered_set_do_merge
       simp: sorted_distinct_ordered_set_do_merge)

interpretation vector_clock: mergeable
  "map_inv (\<lambda>_. True)" "map_view id" "map_compat (\<lambda>_ _. True)" "map_do_merge max_do_merge"
  by (rule max_lattice.map_mergeable)

lemma lww_do_merge_pick:
  "lww_do_merge a b =
     (if tvp_timestamp a \<le> tvp_timestamp b
      then b\<lparr>TimestampValuePair.more := TimestampValuePair.more a\<rparr> else a)"
  by (cases a; cases b) (auto simp: lww_do_merge_def)

interpretation lww_lattice: bounded_mergeable "\<lambda>_. True" id lww_compat lww_do_merge lww_bot
  by unfold_locales (auto simp: lww_do_merge_def lww_compat_def lww_bot_def)

interpretation priority_lattice: mergeable
  "\<lambda>_. True" id priority_compat "priority_do_merge ((<) :: 'p::linorder \<Rightarrow> 'p \<Rightarrow> bool)"
  by unfold_locales (auto simp: priority_do_merge_def priority_compat_def)

end
