(* ===== verification/Anna_Causal.thy ===== *)
theory Anna_Causal
  imports Anna_Lattices
begin

text \<open>
  The causal lattices of \<^verbatim>\<open>single_key_causal_lattice.hpp\<close> and \<^verbatim>\<open>multi_key_causal_lattice.hpp\<close>: a
  value guarded by a vector clock, and one that also carries the versions of the keys it depends
  on. A merge replaces the value when the incoming clock dominates, keeps it when the clock is
  dominated, and merges the values of concurrent versions. The specification lemmas state exactly
  this in terms of the domination order of clocks. Merging is commutative except on equal clocks
  with different values; it is not associative, because a merged clock forgets which values it
  stands for.
\<close>

section \<open>The lattices\<close>

type_synonym VectorClock = "(string, u32) omap"

definition vc_merge :: "VectorClock \<Rightarrow> VectorClock \<Rightarrow> VectorClock" where
  "vc_merge = map_do_merge max_do_merge"

record 'a VectorClockValuePair =
  vcp_vector_clock :: VectorClock
  vcp_value :: 'a

definition sk_bot :: "string list VectorClockValuePair" where
  "sk_bot = \<lparr>vcp_vector_clock = [], vcp_value = []\<rparr>"

definition sk_do_merge ::
    "('a \<Rightarrow> 'a \<Rightarrow> 'a) \<Rightarrow> 'a VectorClockValuePair \<Rightarrow> 'a VectorClockValuePair
      \<Rightarrow> 'a VectorClockValuePair" where
  "sk_do_merge merge element p =
     (let prev = vcp_vector_clock element;
          vector_clock = vc_merge prev (vcp_vector_clock p);
          element = element\<lparr>vcp_vector_clock := vector_clock\<rparr>
      in if umap_eq vector_clock (vcp_vector_clock p)
         then element\<lparr>vcp_value := vcp_value p\<rparr>
         else if \<not> umap_eq vector_clock prev
         then element\<lparr>vcp_value := merge (vcp_value element) (vcp_value p)\<rparr>
         else element)"

definition sk_size :: "string list VectorClockValuePair \<Rightarrow> u32" where
  "sk_size p = map_size (vcp_vector_clock p) * 2 * 4 + set_size (vcp_value p)"

record 'a MultiKeyCausalPayload =
  mkp_vector_clock :: VectorClock
  mkp_dependencies :: "(Key, VectorClock) omap"
  mkp_value :: 'a

definition mk_bot :: "string list MultiKeyCausalPayload" where
  "mk_bot = \<lparr>mkp_vector_clock = [], mkp_dependencies = [], mkp_value = []\<rparr>"

definition mk_do_merge ::
    "('a \<Rightarrow> 'a \<Rightarrow> 'a) \<Rightarrow> 'a MultiKeyCausalPayload \<Rightarrow> 'a MultiKeyCausalPayload
      \<Rightarrow> 'a MultiKeyCausalPayload" where
  "mk_do_merge merge element p =
     (let prev = mkp_vector_clock element;
          vector_clock = vc_merge prev (mkp_vector_clock p);
          element = element\<lparr>mkp_vector_clock := vector_clock\<rparr>
      in if umap_eq vector_clock (mkp_vector_clock p)
         then element\<lparr>mkp_dependencies := mkp_dependencies p, mkp_value := mkp_value p\<rparr>
         else if \<not> umap_eq vector_clock prev
         then element\<lparr>
           mkp_dependencies := map_do_merge vc_merge (mkp_dependencies element) (mkp_dependencies p),
           mkp_value := merge (mkp_value element) (mkp_value p)\<rparr>
         else element)"

definition mk_size :: "string list MultiKeyCausalPayload \<Rightarrow> u32" where
  "mk_size p =
     (let dep_size = foldl (\<lambda>n (k, vc). n + of_nat (length k) + map_size vc * 2 * 4) 0
            (mkp_dependencies p)
      in map_size (mkp_vector_clock p) * 2 * 4 + dep_size + set_size (mkp_value p))"

section \<open>Domination of clocks\<close>

definition vc_le :: "VectorClock \<Rightarrow> VectorClock \<Rightarrow> bool" where
  "vc_le a b \<longleftrightarrow>
     list_all (\<lambda>(k, v). case map_of b k of None \<Rightarrow> False | Some w \<Rightarrow> v \<le> w) a"

lemma om_wf_vc_merge [intro]: "om_wf a \<Longrightarrow> om_wf (vc_merge a b)"
  by (auto simp: vc_merge_def)

lemma map_of_vc_merge:
  "om_wf b \<Longrightarrow> map_of (vc_merge a b) k =
     (case map_of b k of
        None \<Rightarrow> map_of a k
      | Some v \<Rightarrow> Some (case map_of a k of None \<Rightarrow> v | Some w \<Rightarrow> max w v))"
  by (simp add: vc_merge_def map_of_map_do_merge max_do_merge_max cong: option.case_cong)

lemma vc_le_iff:
  "om_wf a \<Longrightarrow> vc_le a b \<longleftrightarrow> (\<forall>k v. map_of a k = Some v \<longrightarrow> (\<exists>w. map_of b k = Some w \<and> v \<le> w))"
  unfolding vc_le_def list_all_iff om_wf_def
  by (fastforce split: option.splits dest: map_of_SomeD intro: map_of_is_SomeI)

lemma vc_le_refl [simp]: "om_wf a \<Longrightarrow> vc_le a a"
  by (simp add: vc_le_iff)

lemma vc_le_antisym: "om_wf a \<Longrightarrow> om_wf b \<Longrightarrow> vc_le a b \<Longrightarrow> vc_le b a \<Longrightarrow> map_of a = map_of b"
proof (rule ext)
  fix k
  assume "om_wf a" "om_wf b" "vc_le a b" "vc_le b a"
  then show "map_of a k = map_of b k"
    by (cases "map_of a k"; cases "map_of b k") (force simp: vc_le_iff)+
qed

text \<open>The two tests of \<^verbatim>\<open>do_merge\<close> decide domination.\<close>

lemma merged_eq_incoming:
  assumes "om_wf a" "om_wf b"
  shows "umap_eq (vc_merge a b) b \<longleftrightarrow> vc_le a b"
proof -
  have "umap_eq (vc_merge a b) b \<longleftrightarrow> (\<forall>k. map_of (vc_merge a b) k = map_of b k)"
    using assms by (simp add: umap_eq_iff om_wf_vc_merge fun_eq_iff)
  also have "\<dots> \<longleftrightarrow> vc_le a b"
  proof
    assume eq: "\<forall>k. map_of (vc_merge a b) k = map_of b k"
    show "vc_le a b"
      unfolding vc_le_iff [OF assms(1)]
    proof (intro allI impI)
      fix k v
      assume "map_of a k = Some v"
      with eq [rule_format, of k] show "\<exists>w. map_of b k = Some w \<and> v \<le> w"
        using assms by (auto simp: map_of_vc_merge max_def split: option.splits if_splits)
    qed
  next
    assume le: "vc_le a b"
    show "\<forall>k. map_of (vc_merge a b) k = map_of b k"
    proof
      fix k
      show "map_of (vc_merge a b) k = map_of b k"
        using le assms
        by (cases "map_of a k"; cases "map_of b k")
          (force simp: vc_le_iff map_of_vc_merge max_def)+
    qed
  qed
  finally show ?thesis .
qed

lemma merged_eq_previous:
  assumes "om_wf a" "om_wf b"
  shows "umap_eq (vc_merge a b) a \<longleftrightarrow> vc_le b a"
proof -
  have "umap_eq (vc_merge a b) a \<longleftrightarrow> (\<forall>k. map_of (vc_merge a b) k = map_of a k)"
    using assms by (simp add: umap_eq_iff om_wf_vc_merge fun_eq_iff)
  also have "\<dots> \<longleftrightarrow> vc_le b a"
  proof
    assume eq: "\<forall>k. map_of (vc_merge a b) k = map_of a k"
    show "vc_le b a"
      unfolding vc_le_iff [OF assms(2)]
    proof (intro allI impI)
      fix k v
      assume "map_of b k = Some v"
      with eq [rule_format, of k] show "\<exists>w. map_of a k = Some w \<and> v \<le> w"
        using assms by (cases "map_of a k") (auto simp: map_of_vc_merge max_def split: if_splits)
    qed
  next
    assume le: "vc_le b a"
    show "\<forall>k. map_of (vc_merge a b) k = map_of a k"
    proof
      fix k
      show "map_of (vc_merge a b) k = map_of a k"
        using le assms
        by (cases "map_of a k"; cases "map_of b k")
          (force simp: vc_le_iff map_of_vc_merge max_def)+
    qed
  qed
  finally show ?thesis .
qed

lemma map_of_vc_merge_comm:
  "om_wf a \<Longrightarrow> om_wf b \<Longrightarrow> map_of (vc_merge a b) = map_of (vc_merge b a)"
  by (rule ext) (auto simp: map_of_vc_merge max.commute split: option.splits)

section \<open>Correctness of the merges\<close>

lemma sk_do_merge_cases:
  assumes "om_wf (vcp_vector_clock a)" "om_wf (vcp_vector_clock p)"
  shows "sk_do_merge merge a p =
    (a\<lparr>vcp_vector_clock := vc_merge (vcp_vector_clock a) (vcp_vector_clock p),
       vcp_value :=
         (if vc_le (vcp_vector_clock a) (vcp_vector_clock p) then vcp_value p
          else if vc_le (vcp_vector_clock p) (vcp_vector_clock a) then vcp_value a
          else merge (vcp_value a) (vcp_value p))\<rparr>)"
  using assms by (simp add: sk_do_merge_def Let_def merged_eq_incoming merged_eq_previous)

lemma mk_do_merge_cases:
  assumes "om_wf (mkp_vector_clock a)" "om_wf (mkp_vector_clock p)"
  shows "mk_do_merge merge a p =
    (let va = mkp_vector_clock a; vp = mkp_vector_clock p in
     a\<lparr>mkp_vector_clock := vc_merge va vp,
       mkp_dependencies :=
         (if vc_le va vp then mkp_dependencies p
          else if vc_le vp va then mkp_dependencies a
          else map_do_merge vc_merge (mkp_dependencies a) (mkp_dependencies p)),
       mkp_value :=
         (if vc_le va vp then mkp_value p
          else if vc_le vp va then mkp_value a
          else merge (mkp_value a) (mkp_value p))\<rparr>)"
  using assms by (simp add: mk_do_merge_def Let_def merged_eq_incoming merged_eq_previous)

definition sk_view :: "'a list VectorClockValuePair \<Rightarrow> (string \<rightharpoonup> u32) \<times> 'a set" where
  "sk_view a = (map_of (vcp_vector_clock a), set (vcp_value a))"

definition sk_inv :: "'a list VectorClockValuePair \<Rightarrow> bool" where
  "sk_inv a \<longleftrightarrow> om_wf (vcp_vector_clock a) \<and> distinct (vcp_value a)"

lemma sk_inv_merge: "sk_inv a \<Longrightarrow> sk_inv p \<Longrightarrow> sk_inv (sk_do_merge set_do_merge a p)"
  by (auto simp: sk_inv_def sk_do_merge_cases)

lemma sk_view_merge:
  assumes "sk_inv a" "sk_inv p"
  shows "sk_view (sk_do_merge set_do_merge a p) =
    (map_of (vc_merge (vcp_vector_clock a) (vcp_vector_clock p)),
     if vc_le (vcp_vector_clock a) (vcp_vector_clock p) then set (vcp_value p)
     else if vc_le (vcp_vector_clock p) (vcp_vector_clock a) then set (vcp_value a)
     else set (vcp_value a) \<union> set (vcp_value p))"
  using assms by (simp add: sk_view_def sk_inv_def sk_do_merge_cases)

text \<open>
  C40. Merging single-key causal values follows the vector clocks: the resulting clock is the
  entry-wise maximum; the values are those of the incoming version when its clock dominates,
  those already stored when theirs dominates strictly, and the union when the versions are
  concurrent.
\<close>

theorem sk_merge_correct:
  assumes "sk_inv a" "sk_inv p"
  shows "map_of (vcp_vector_clock (sk_do_merge set_do_merge a p)) c =
      (case map_of (vcp_vector_clock p) c of
         None \<Rightarrow> map_of (vcp_vector_clock a) c
       | Some n \<Rightarrow> Some (case map_of (vcp_vector_clock a) c of None \<Rightarrow> n | Some m \<Rightarrow> max m n))
    \<and> set (vcp_value (sk_do_merge set_do_merge a p)) =
      (if vc_le (vcp_vector_clock a) (vcp_vector_clock p) then set (vcp_value p)
       else if vc_le (vcp_vector_clock p) (vcp_vector_clock a) then set (vcp_value a)
       else set (vcp_value a) \<union> set (vcp_value p))"
proof -
  have wf: "om_wf (vcp_vector_clock a)" "om_wf (vcp_vector_clock p)"
    using assms by (simp_all add: sk_inv_def)
  have "map_of (vcp_vector_clock (sk_do_merge set_do_merge a p)) =
      map_of (vc_merge (vcp_vector_clock a) (vcp_vector_clock p))"
    using sk_view_merge [OF assms] by (simp add: sk_view_def)
  then show ?thesis
    using sk_view_merge [OF assms] wf by (simp add: sk_view_def map_of_vc_merge)
qed

theorem sk_merge_correct_witness:
  "map_of (vcp_vector_clock (sk_do_merge set_do_merge
       \<lparr>vcp_vector_clock = [(''x'', 1)], vcp_value = [''A'']\<rparr>
       \<lparr>vcp_vector_clock = [(''y'', 1)], vcp_value = [''B'']\<rparr>)) ''y'' = Some 1
   \<and> set (vcp_value (sk_do_merge set_do_merge
       \<lparr>vcp_vector_clock = [(''x'', 1)], vcp_value = [''A'']\<rparr>
       \<lparr>vcp_vector_clock = [(''y'', 1)], vcp_value = [''B'']\<rparr>)) = {''A'', ''B''}"
  using sk_merge_correct [of "\<lparr>vcp_vector_clock = [(''x'', 1)], vcp_value = [''A'']\<rparr>"
      "\<lparr>vcp_vector_clock = [(''y'', 1)], vcp_value = [''B'']\<rparr>" "''y''"]
  by (simp add: sk_inv_def om_wf_def vc_le_def insert_commute)

text \<open>
  Two replicas that exchange one version each agree, unless the two versions carry the same clock
  with different values.
\<close>

lemma sk_merge_comm:
  assumes "sk_inv a" "sk_inv p"
    and "map_of (vcp_vector_clock a) = map_of (vcp_vector_clock p) \<Longrightarrow>
      set (vcp_value a) = set (vcp_value p)"
  shows "sk_view (sk_do_merge set_do_merge a p) = sk_view (sk_do_merge set_do_merge p a)"
proof -
  have wf: "om_wf (vcp_vector_clock a)" "om_wf (vcp_vector_clock p)"
    using assms by (simp_all add: sk_inv_def)
  have "vc_le (vcp_vector_clock a) (vcp_vector_clock p) \<Longrightarrow>
      vc_le (vcp_vector_clock p) (vcp_vector_clock a) \<Longrightarrow> set (vcp_value a) = set (vcp_value p)"
    using vc_le_antisym [OF wf] assms(3) by blast
  then show ?thesis
    unfolding sk_view_merge [OF assms(1,2)] sk_view_merge [OF assms(2,1)]
    by (auto simp: map_of_vc_merge_comm [OF wf])
qed

text \<open>
  Merging single-key causal values is not associative: of three versions, two concurrent and
  the third a successor of the first, the order in which a replica receives them decides whether
  the overwritten value survives. A replica that merges the concurrent pair first keeps it for
  ever, because the merged clock is concurrent with the successor's.
\<close>

theorem sk_merge_not_associative:
  "let a = \<lparr>vcp_vector_clock = [(''x'', 1)], vcp_value = [''A'']\<rparr>;
       b = \<lparr>vcp_vector_clock = [(''y'', 1)], vcp_value = [''B'']\<rparr>;
       c = \<lparr>vcp_vector_clock = [(''x'', 2)], vcp_value = [''C'']\<rparr>;
       m = sk_do_merge set_do_merge
   in sk_view (m (m a b) c) = ([''x'' \<mapsto> 2, ''y'' \<mapsto> 1], {''A'', ''B'', ''C''})
    \<and> sk_view (m (m a c) b) = ([''x'' \<mapsto> 2, ''y'' \<mapsto> 1], {''B'', ''C''})"
  unfolding Let_def
  by (simp add: sk_do_merge_def Let_def sk_view_def vc_merge_def map_do_merge_def
      map_insert_pair_def max_do_merge_max umap_eq_def set_do_merge_def fun_eq_iff)
    (auto simp: insert_commute)

end
