(* ===== verification/Anna_Messages.thy ===== *)
theory Anna_Messages
  imports Complex_Main Anna_Prelude
begin

text \<open>
  The protocol-buffer messages of \<^verbatim>\<open>common/proto/anna.proto\<close>, \<^verbatim>\<open>common/proto/shared.proto\<close>,
  \<^verbatim>\<open>include/proto/metadata.proto\<close> and \<^verbatim>\<open>include/proto/benchmark.proto\<close>. An enum is a datatype, a message a record, a repeated field a
  list, a \<^verbatim>\<open>map\<close> field an association list and a \<^verbatim>\<open>double\<close> a real.

  The classes that encode and decode the messages are generated at build time and are not part
  of the repository. They are a parameter of the model, the record \<open>codec\<close>:
  \<^verbatim>\<open>SerializeToString\<close> as a function to strings and \<^verbatim>\<open>ParseFromString\<close> on a fresh message as a
  function from strings to its success flag and the message it leaves.
\<close>

section \<open>Enumerations\<close>

datatype RequestType = RT_UNSPECIFIED | GET | PUT

datatype LatticeType =
  NONE | LWW | SET | SINGLE_CAUSAL | MULTI_CAUSAL | ORDERED_SET | PRIORITY

datatype AnnaError = NO_ERROR | KEY_DNE | WRONG_THREAD | TIMEOUT | LATTICE | NO_SERVERS

datatype Tier = TIER_UNSPECIFIED | MEMORY | DISK | ROUTING

primrec Tier_number :: "Tier \<Rightarrow> nat" where
  "Tier_number TIER_UNSPECIFIED = 0"
| "Tier_number MEMORY = 1"
| "Tier_number DISK = 2"
| "Tier_number ROUTING = 3"

primrec Tier_Name :: "Tier \<Rightarrow> string" where
  "Tier_Name TIER_UNSPECIFIED = ''TIER_UNSPECIFIED''"
| "Tier_Name MEMORY = ''MEMORY''"
| "Tier_Name DISK = ''DISK''"
| "Tier_Name ROUTING = ''ROUTING''"

text \<open>
  \<^verbatim>\<open>Tier_Parse\<close> leaves its target untouched when the name is unknown; the callers pass an
  uninitialised variable, which is \<^const>\<open>None\<close> here.
\<close>

definition Tier_Parse :: "string \<Rightarrow> Tier option" where
  "Tier_Parse s =
     (if s = ''TIER_UNSPECIFIED'' then Some TIER_UNSPECIFIED
      else if s = ''MEMORY'' then Some MEMORY
      else if s = ''DISK'' then Some DISK
      else if s = ''ROUTING'' then Some ROUTING
      else None)"

section \<open>Requests and responses\<close>

record KeyTuple =
  kt_key :: Key
  kt_lattice_type :: LatticeType
  kt_error :: AnnaError
  kt_payload :: string
  kt_address_cache_size :: u32
  kt_invalidate :: bool

definition empty_KeyTuple :: KeyTuple where
  "empty_KeyTuple = \<lparr>kt_key = [], kt_lattice_type = NONE, kt_error = NO_ERROR, kt_payload = [],
     kt_address_cache_size = 0, kt_invalidate = False\<rparr>"

record KeyRequest =
  rq_type :: RequestType
  rq_tuples :: "KeyTuple list"
  rq_response_address :: Address
  rq_request_id :: string

definition empty_KeyRequest :: KeyRequest where
  "empty_KeyRequest = \<lparr>rq_type = RT_UNSPECIFIED, rq_tuples = [], rq_response_address = [],
     rq_request_id = []\<rparr>"

record KeyResponse =
  rs_type :: RequestType
  rs_tuples :: "KeyTuple list"
  rs_response_id :: string
  rs_error :: AnnaError

definition empty_KeyResponse :: KeyResponse where
  "empty_KeyResponse = \<lparr>rs_type = RT_UNSPECIFIED, rs_tuples = [], rs_response_id = [],
     rs_error = NO_ERROR\<rparr>"

record KeyAddressRequest =
  aq_response_address :: Address
  aq_keys :: "Key list"
  aq_request_id :: string

record KeyAddress =
  ka_key :: Key
  ka_ips :: "Address list"

record KeyAddressResponse =
  ar_addresses :: "KeyAddress list"
  ar_error :: AnnaError
  ar_response_id :: string

definition empty_KeyAddressResponse :: KeyAddressResponse where
  "empty_KeyAddressResponse = \<lparr>ar_addresses = [], ar_error = NO_ERROR, ar_response_id = []\<rparr>"

section \<open>Stored values\<close>

record LWWValue =
  lwwv_timestamp :: u64
  lwwv_value :: string

record SetValue =
  setv_values :: "string list"

record SingleKeyCausalValue =
  skcv_vector_clock :: "(string, u32) omap"
  skcv_values :: "string list"

record KeyVersion =
  kv_key :: Key
  kv_vector_clock :: "(string, u32) omap"

record MultiKeyCausalValue =
  mkcv_vector_clock :: "(string, u32) omap"
  mkcv_dependencies :: "KeyVersion list"
  mkcv_values :: "string list"

record PriorityValue =
  priov_priority :: real
  priov_value :: string

definition empty_PriorityValue :: PriorityValue where
  "empty_PriorityValue = \<lparr>priov_priority = 0, priov_value = []\<rparr>"

record StringSet =
  strs_keys :: "string list"

section \<open>Cluster metadata\<close>

record ReplicationValue =
  rv_tier :: Tier
  rv_value :: u32

record ReplicationFactor =
  rf_key :: Key
  rf_global :: "ReplicationValue list"
  rf_local :: "ReplicationValue list"

record ReplicationFactorUpdate =
  rfu_updates :: "ReplicationFactor list"

record Server =
  srv_public_ip :: Address
  srv_private_ip :: Address

record TierMembership =
  tm_tier_id :: Tier
  tm_servers :: "Server list"

record ClusterMembership =
  cm_tiers :: "TierMembership list"

section \<open>Statistics\<close>

record ServerThreadStatistics =
  sts_storage_consumption :: u64
  sts_occupancy :: real
  sts_epoch :: u32
  sts_access_count :: u32

definition empty_ServerThreadStatistics :: ServerThreadStatistics where
  "empty_ServerThreadStatistics = \<lparr>sts_storage_consumption = 0, sts_occupancy = 0, sts_epoch = 0,
     sts_access_count = 0\<rparr>"

record KeyCount =
  kc_key :: Key
  kc_access_count :: u32

record KeyAccessData =
  kad_keys :: "KeyCount list"

record KeySize =
  ks_key :: Key
  ks_size :: u32

record KeySizeData =
  ksd_key_sizes :: "KeySize list"

record KeyLatency =
  kl_key :: Key
  kl_latency :: real

record UserFeedback =
  uf_uid :: string
  uf_latency :: real
  uf_finish :: bool
  uf_throughput :: real
  uf_warmup :: bool
  uf_key_latency :: "KeyLatency list"

definition empty_UserFeedback :: UserFeedback where
  "empty_UserFeedback = \<lparr>uf_uid = [], uf_latency = 0, uf_finish = False, uf_throughput = 0,
     uf_warmup = False, uf_key_latency = []\<rparr>"

section \<open>The generated encoders and decoders\<close>

record codec =
  ser_KeyRequest :: "KeyRequest \<Rightarrow> string"
  parse_KeyRequest :: "string \<Rightarrow> bool \<times> KeyRequest"
  ser_KeyResponse :: "KeyResponse \<Rightarrow> string"
  parse_KeyResponse :: "string \<Rightarrow> bool \<times> KeyResponse"
  ser_KeyAddressRequest :: "KeyAddressRequest \<Rightarrow> string"
  parse_KeyAddressRequest :: "string \<Rightarrow> bool \<times> KeyAddressRequest"
  ser_KeyAddressResponse :: "KeyAddressResponse \<Rightarrow> string"
  parse_KeyAddressResponse :: "string \<Rightarrow> bool \<times> KeyAddressResponse"
  ser_LWWValue :: "LWWValue \<Rightarrow> string"
  parse_LWWValue :: "string \<Rightarrow> bool \<times> LWWValue"
  ser_SetValue :: "SetValue \<Rightarrow> string"
  parse_SetValue :: "string \<Rightarrow> bool \<times> SetValue"
  ser_SingleKeyCausalValue :: "SingleKeyCausalValue \<Rightarrow> string"
  parse_SingleKeyCausalValue :: "string \<Rightarrow> bool \<times> SingleKeyCausalValue"
  ser_MultiKeyCausalValue :: "MultiKeyCausalValue \<Rightarrow> string"
  parse_MultiKeyCausalValue :: "string \<Rightarrow> bool \<times> MultiKeyCausalValue"
  ser_PriorityValue :: "PriorityValue \<Rightarrow> string"
  parse_PriorityValue :: "string \<Rightarrow> bool \<times> PriorityValue"
  ser_StringSet :: "StringSet \<Rightarrow> string"
  parse_StringSet :: "string \<Rightarrow> bool \<times> StringSet"
  ser_ReplicationFactor :: "ReplicationFactor \<Rightarrow> string"
  parse_ReplicationFactor :: "string \<Rightarrow> bool \<times> ReplicationFactor"
  ser_ReplicationFactorUpdate :: "ReplicationFactorUpdate \<Rightarrow> string"
  parse_ReplicationFactorUpdate :: "string \<Rightarrow> bool \<times> ReplicationFactorUpdate"
  ser_ClusterMembership :: "ClusterMembership \<Rightarrow> string"
  parse_ClusterMembership :: "string \<Rightarrow> bool \<times> ClusterMembership"
  ser_ServerThreadStatistics :: "ServerThreadStatistics \<Rightarrow> string"
  parse_ServerThreadStatistics :: "string \<Rightarrow> bool \<times> ServerThreadStatistics"
  ser_KeyAccessData :: "KeyAccessData \<Rightarrow> string"
  parse_KeyAccessData :: "string \<Rightarrow> bool \<times> KeyAccessData"
  ser_KeySizeData :: "KeySizeData \<Rightarrow> string"
  parse_KeySizeData :: "string \<Rightarrow> bool \<times> KeySizeData"
  ser_UserFeedback :: "UserFeedback \<Rightarrow> string"
  parse_UserFeedback :: "string \<Rightarrow> bool \<times> UserFeedback"

lemma Tier_Parse_Name [simp]: "Tier_Parse (Tier_Name t) = Some t"
  by (cases t) (simp_all add: Tier_Parse_def)

lemma Tier_number_inj: "Tier_number s = Tier_number t \<longleftrightarrow> s = t"
  by (cases s; cases t) simp_all

instantiation Tier :: linorder
begin

definition less_eq_Tier :: "Tier \<Rightarrow> Tier \<Rightarrow> bool" where
  "less_eq_Tier s t \<longleftrightarrow> Tier_number s \<le> Tier_number t"

definition less_Tier :: "Tier \<Rightarrow> Tier \<Rightarrow> bool" where
  "less_Tier s t \<longleftrightarrow> Tier_number s < Tier_number t"

instance
  by standard (auto simp: less_eq_Tier_def less_Tier_def Tier_number_inj)

end

end
