(* ===== verification/Anna_Wire.thy ===== *)
theory Anna_Wire
  imports Anna_Messages
begin

text \<open>
  A concrete wire format for the messages. The real encoders and decoders are generated by the
  protocol-buffer compiler and stay a parameter of the model; the properties that need more of
  them than their types assume that a serialised message is parsed back. This theory shows that
  the assumption can be met, by a simple length-prefixed format for the messages the properties
  mention. Nothing else depends on the format.
\<close>

section \<open>Combinators\<close>

definition wire_ok :: "('a \<Rightarrow> string) \<Rightarrow> (string \<Rightarrow> 'a \<times> string) \<Rightarrow> bool" where
  "wire_ok enc dec \<longleftrightarrow> (\<forall>x rest. dec (enc x @ rest) = (x, rest))"

lemma wire_okD: "wire_ok enc dec \<Longrightarrow> dec (enc x @ rest) = (x, rest)"
  by (simp add: wire_ok_def)

definition enc_nat :: "nat \<Rightarrow> string" where
  "enc_nat n = nat_to_string n @ [CHR '':'']"

definition dec_nat :: "string \<Rightarrow> nat \<times> string" where
  "dec_nat s = (digits_val (takeWhile is_digit s), tl (dropWhile is_digit s))"

lemma dec_enc_nat [simp]: "dec_nat (enc_nat n @ rest) = (n, rest)"
proof -
  have *: "list_all is_digit ds \<Longrightarrow> takeWhile is_digit (ds @ CHR '':'' # rest) = ds
      \<and> dropWhile is_digit (ds @ CHR '':'' # rest) = CHR '':'' # rest" for ds
    by (induction ds) (auto simp: is_digit_def)
  have "list_all is_digit (nat_to_string n)"
    by (auto simp: list_all_iff dest: nat_to_string_digits)
  from * [OF this] show ?thesis
    by (simp add: enc_nat_def dec_nat_def)
qed

definition dec_map :: "('a \<Rightarrow> 'b) \<Rightarrow> (string \<Rightarrow> 'a \<times> string) \<Rightarrow> string \<Rightarrow> 'b \<times> string" where
  "dec_map f dec s = (case dec s of (x, rest) \<Rightarrow> (f x, rest))"

lemma wire_map:
  "wire_ok enc dec \<Longrightarrow> (\<And>x. f (g x) = x) \<Longrightarrow> wire_ok (\<lambda>x. enc (g x)) (dec_map f dec)"
  by (simp add: wire_ok_def dec_map_def)

lemma wire_nat: "wire_ok enc_nat dec_nat"
  by (simp add: wire_ok_def)

definition enc_word :: "'a::len word \<Rightarrow> string" where
  "enc_word w = enc_nat (unat w)"

definition dec_word :: "string \<Rightarrow> 'a::len word \<times> string" where
  "dec_word = dec_map of_nat dec_nat"

lemma wire_word: "wire_ok enc_word dec_word"
  using wire_map [OF wire_nat, of of_nat unat] by (simp add: enc_word_def [abs_def] dec_word_def)

definition enc_str :: "string \<Rightarrow> string" where
  "enc_str s = enc_nat (length s) @ s"

definition dec_str :: "string \<Rightarrow> string \<times> string" where
  "dec_str s = (case dec_nat s of (n, rest) \<Rightarrow> (take n rest, drop n rest))"

lemma wire_str: "wire_ok enc_str dec_str"
  by (simp add: wire_ok_def enc_str_def dec_str_def)

definition enc_pair :: "('a \<Rightarrow> string) \<Rightarrow> ('b \<Rightarrow> string) \<Rightarrow> 'a \<times> 'b \<Rightarrow> string" where
  "enc_pair f g p = f (fst p) @ g (snd p)"

definition dec_pair ::
    "(string \<Rightarrow> 'a \<times> string) \<Rightarrow> (string \<Rightarrow> 'b \<times> string) \<Rightarrow> string \<Rightarrow> ('a \<times> 'b) \<times> string" where
  "dec_pair f g s = (case f s of (x, rest) \<Rightarrow> case g rest of (y, rest') \<Rightarrow> ((x, y), rest'))"

lemma wire_pair: "wire_ok f f' \<Longrightarrow> wire_ok g g' \<Longrightarrow> wire_ok (enc_pair f g) (dec_pair f' g')"
  by (auto simp: wire_ok_def enc_pair_def dec_pair_def)

primrec dec_many :: "(string \<Rightarrow> 'a \<times> string) \<Rightarrow> nat \<Rightarrow> string \<Rightarrow> 'a list \<times> string" where
  "dec_many dec 0 s = ([], s)"
| "dec_many dec (Suc n) s =
     (case dec s of (x, rest) \<Rightarrow> case dec_many dec n rest of (xs, rest') \<Rightarrow> (x # xs, rest'))"

definition enc_list :: "('a \<Rightarrow> string) \<Rightarrow> 'a list \<Rightarrow> string" where
  "enc_list enc xs = enc_nat (length xs) @ concat (map enc xs)"

definition dec_list :: "(string \<Rightarrow> 'a \<times> string) \<Rightarrow> string \<Rightarrow> 'a list \<times> string" where
  "dec_list dec s = (case dec_nat s of (n, rest) \<Rightarrow> dec_many dec n rest)"

lemma wire_list:
  assumes "wire_ok enc dec"
  shows "wire_ok (enc_list enc) (dec_list dec)"
proof -
  have "dec_many dec (length xs) (concat (map enc xs) @ rest) = (xs, rest)" for xs rest
    by (induction xs) (auto simp: wire_okD [OF assms])
  then show ?thesis
    by (simp add: wire_ok_def enc_list_def dec_list_def)
qed

section \<open>Enumerations\<close>

primrec nat_of_RequestType :: "RequestType \<Rightarrow> nat" where
  "nat_of_RequestType RT_UNSPECIFIED = 0"
| "nat_of_RequestType GET = 1"
| "nat_of_RequestType PUT = 2"

definition RequestType_of_nat :: "nat \<Rightarrow> RequestType" where
  "RequestType_of_nat n = (if n = 1 then GET else if n = 2 then PUT else RT_UNSPECIFIED)"

lemma RequestType_of_nat [simp]: "RequestType_of_nat (nat_of_RequestType t) = t"
  by (cases t) (simp_all add: RequestType_of_nat_def)

primrec nat_of_LatticeType :: "LatticeType \<Rightarrow> nat" where
  "nat_of_LatticeType NONE = 0"
| "nat_of_LatticeType LWW = 1"
| "nat_of_LatticeType SET = 2"
| "nat_of_LatticeType SINGLE_CAUSAL = 3"
| "nat_of_LatticeType MULTI_CAUSAL = 4"
| "nat_of_LatticeType ORDERED_SET = 5"
| "nat_of_LatticeType PRIORITY = 6"

definition LatticeType_of_nat :: "nat \<Rightarrow> LatticeType" where
  "LatticeType_of_nat n =
     (if n = 1 then LWW else if n = 2 then SET else if n = 3 then SINGLE_CAUSAL
      else if n = 4 then MULTI_CAUSAL else if n = 5 then ORDERED_SET
      else if n = 6 then PRIORITY else NONE)"

lemma LatticeType_of_nat [simp]: "LatticeType_of_nat (nat_of_LatticeType t) = t"
  by (cases t) (simp_all add: LatticeType_of_nat_def)

primrec nat_of_AnnaError :: "AnnaError \<Rightarrow> nat" where
  "nat_of_AnnaError NO_ERROR = 0"
| "nat_of_AnnaError KEY_DNE = 1"
| "nat_of_AnnaError WRONG_THREAD = 2"
| "nat_of_AnnaError TIMEOUT = 3"
| "nat_of_AnnaError LATTICE = 4"
| "nat_of_AnnaError NO_SERVERS = 5"

definition AnnaError_of_nat :: "nat \<Rightarrow> AnnaError" where
  "AnnaError_of_nat n =
     (if n = 1 then KEY_DNE else if n = 2 then WRONG_THREAD else if n = 3 then TIMEOUT
      else if n = 4 then LATTICE else if n = 5 then NO_SERVERS else NO_ERROR)"

lemma AnnaError_of_nat [simp]: "AnnaError_of_nat (nat_of_AnnaError t) = t"
  by (cases t) (simp_all add: AnnaError_of_nat_def)

definition enc_bool :: "bool \<Rightarrow> string" where
  "enc_bool x = enc_nat ((\<lambda>b. if b then 1 else 0) x)"

definition dec_bool :: "string \<Rightarrow> bool \<times> string" where
  "dec_bool = dec_map (\<lambda>n. n = 1) dec_nat"

lemma wire_bool: "wire_ok enc_bool dec_bool"
  unfolding enc_bool_def [abs_def] dec_bool_def by (rule wire_map [OF wire_nat]) simp

definition enc_RequestType :: "RequestType \<Rightarrow> string" where
  "enc_RequestType x = enc_nat (nat_of_RequestType x)"

definition dec_RequestType :: "string \<Rightarrow> RequestType \<times> string" where
  "dec_RequestType = dec_map RequestType_of_nat dec_nat"

lemma wire_RequestType: "wire_ok enc_RequestType dec_RequestType"
  unfolding enc_RequestType_def [abs_def] dec_RequestType_def by (rule wire_map [OF wire_nat]) simp

definition enc_LatticeType :: "LatticeType \<Rightarrow> string" where
  "enc_LatticeType x = enc_nat (nat_of_LatticeType x)"

definition dec_LatticeType :: "string \<Rightarrow> LatticeType \<times> string" where
  "dec_LatticeType = dec_map LatticeType_of_nat dec_nat"

lemma wire_LatticeType: "wire_ok enc_LatticeType dec_LatticeType"
  unfolding enc_LatticeType_def [abs_def] dec_LatticeType_def by (rule wire_map [OF wire_nat]) simp

definition enc_AnnaError :: "AnnaError \<Rightarrow> string" where
  "enc_AnnaError x = enc_nat (nat_of_AnnaError x)"

definition dec_AnnaError :: "string \<Rightarrow> AnnaError \<times> string" where
  "dec_AnnaError = dec_map AnnaError_of_nat dec_nat"

lemma wire_AnnaError: "wire_ok enc_AnnaError dec_AnnaError"
  unfolding enc_AnnaError_def [abs_def] dec_AnnaError_def by (rule wire_map [OF wire_nat]) simp

definition Tier_of_nat :: "nat \<Rightarrow> Tier" where
  "Tier_of_nat n =
     (if n = 1 then MEMORY else if n = 2 then DISK else if n = 3 then ROUTING else TIER_UNSPECIFIED)"

lemma Tier_of_nat [simp]: "Tier_of_nat (Tier_number t) = t"
  by (cases t) (simp_all add: Tier_of_nat_def)

definition enc_Tier :: "Tier \<Rightarrow> string" where
  "enc_Tier x = enc_nat (Tier_number x)"

definition dec_Tier :: "string \<Rightarrow> Tier \<times> string" where
  "dec_Tier = dec_map Tier_of_nat dec_nat"

lemma wire_Tier: "wire_ok enc_Tier dec_Tier"
  unfolding enc_Tier_def [abs_def] dec_Tier_def by (rule wire_map [OF wire_nat]) simp

section \<open>Messages\<close>

definition enc_KeyTuple :: "KeyTuple \<Rightarrow> string" where
  "enc_KeyTuple x =
     (enc_pair enc_str (enc_pair enc_LatticeType (enc_pair enc_AnnaError (enc_pair enc_str (enc_pair enc_word enc_bool)))))
       (kt_key x, kt_lattice_type x, kt_error x, kt_payload x, kt_address_cache_size x, kt_invalidate x)"

definition dec_KeyTuple :: "string \<Rightarrow> KeyTuple \<times> string" where
  "dec_KeyTuple = dec_map
     (\<lambda>(v0, v1, v2, v3, v4, v5). \<lparr>kt_key = v0, kt_lattice_type = v1, kt_error = v2, kt_payload = v3, kt_address_cache_size = v4, kt_invalidate = v5\<rparr>)
     (dec_pair dec_str (dec_pair dec_LatticeType (dec_pair dec_AnnaError (dec_pair dec_str (dec_pair dec_word dec_bool)))))"

lemma wire_KeyTuple: "wire_ok enc_KeyTuple dec_KeyTuple"
  unfolding enc_KeyTuple_def [abs_def] dec_KeyTuple_def
  by (rule wire_map [OF wire_pair [OF wire_str wire_pair [OF wire_LatticeType wire_pair [OF wire_AnnaError wire_pair [OF wire_str wire_pair [OF wire_word wire_bool]]]]]]) simp

definition enc_KeyRequest :: "KeyRequest \<Rightarrow> string" where
  "enc_KeyRequest x =
     (enc_pair enc_RequestType (enc_pair (enc_list enc_KeyTuple) (enc_pair enc_str enc_str)))
       (rq_type x, rq_tuples x, rq_response_address x, rq_request_id x)"

definition dec_KeyRequest :: "string \<Rightarrow> KeyRequest \<times> string" where
  "dec_KeyRequest = dec_map
     (\<lambda>(v0, v1, v2, v3). \<lparr>rq_type = v0, rq_tuples = v1, rq_response_address = v2, rq_request_id = v3\<rparr>)
     (dec_pair dec_RequestType (dec_pair (dec_list dec_KeyTuple) (dec_pair dec_str dec_str)))"

lemma wire_KeyRequest: "wire_ok enc_KeyRequest dec_KeyRequest"
  unfolding enc_KeyRequest_def [abs_def] dec_KeyRequest_def
  by (rule wire_map [OF wire_pair [OF wire_RequestType wire_pair [OF wire_list [OF wire_KeyTuple] wire_pair [OF wire_str wire_str]]]]) simp

definition enc_KeyResponse :: "KeyResponse \<Rightarrow> string" where
  "enc_KeyResponse x =
     (enc_pair enc_RequestType (enc_pair (enc_list enc_KeyTuple) (enc_pair enc_str enc_AnnaError)))
       (rs_type x, rs_tuples x, rs_response_id x, rs_error x)"

definition dec_KeyResponse :: "string \<Rightarrow> KeyResponse \<times> string" where
  "dec_KeyResponse = dec_map
     (\<lambda>(v0, v1, v2, v3). \<lparr>rs_type = v0, rs_tuples = v1, rs_response_id = v2, rs_error = v3\<rparr>)
     (dec_pair dec_RequestType (dec_pair (dec_list dec_KeyTuple) (dec_pair dec_str dec_AnnaError)))"

lemma wire_KeyResponse: "wire_ok enc_KeyResponse dec_KeyResponse"
  unfolding enc_KeyResponse_def [abs_def] dec_KeyResponse_def
  by (rule wire_map [OF wire_pair [OF wire_RequestType wire_pair [OF wire_list [OF wire_KeyTuple] wire_pair [OF wire_str wire_AnnaError]]]]) simp

definition enc_KeyAddressRequest :: "KeyAddressRequest \<Rightarrow> string" where
  "enc_KeyAddressRequest x =
     (enc_pair enc_str (enc_pair (enc_list enc_str) enc_str))
       (aq_response_address x, aq_keys x, aq_request_id x)"

definition dec_KeyAddressRequest :: "string \<Rightarrow> KeyAddressRequest \<times> string" where
  "dec_KeyAddressRequest = dec_map
     (\<lambda>(v0, v1, v2). \<lparr>aq_response_address = v0, aq_keys = v1, aq_request_id = v2\<rparr>)
     (dec_pair dec_str (dec_pair (dec_list dec_str) dec_str))"

lemma wire_KeyAddressRequest: "wire_ok enc_KeyAddressRequest dec_KeyAddressRequest"
  unfolding enc_KeyAddressRequest_def [abs_def] dec_KeyAddressRequest_def
  by (rule wire_map [OF wire_pair [OF wire_str wire_pair [OF wire_list [OF wire_str] wire_str]]]) simp

definition enc_KeyAddress :: "KeyAddress \<Rightarrow> string" where
  "enc_KeyAddress x =
     (enc_pair enc_str (enc_list enc_str))
       (ka_key x, ka_ips x)"

definition dec_KeyAddress :: "string \<Rightarrow> KeyAddress \<times> string" where
  "dec_KeyAddress = dec_map
     (\<lambda>(v0, v1). \<lparr>ka_key = v0, ka_ips = v1\<rparr>)
     (dec_pair dec_str (dec_list dec_str))"

lemma wire_KeyAddress: "wire_ok enc_KeyAddress dec_KeyAddress"
  unfolding enc_KeyAddress_def [abs_def] dec_KeyAddress_def
  by (rule wire_map [OF wire_pair [OF wire_str wire_list [OF wire_str]]]) simp

definition enc_KeyAddressResponse :: "KeyAddressResponse \<Rightarrow> string" where
  "enc_KeyAddressResponse x =
     (enc_pair (enc_list enc_KeyAddress) (enc_pair enc_AnnaError enc_str))
       (ar_addresses x, ar_error x, ar_response_id x)"

definition dec_KeyAddressResponse :: "string \<Rightarrow> KeyAddressResponse \<times> string" where
  "dec_KeyAddressResponse = dec_map
     (\<lambda>(v0, v1, v2). \<lparr>ar_addresses = v0, ar_error = v1, ar_response_id = v2\<rparr>)
     (dec_pair (dec_list dec_KeyAddress) (dec_pair dec_AnnaError dec_str))"

lemma wire_KeyAddressResponse: "wire_ok enc_KeyAddressResponse dec_KeyAddressResponse"
  unfolding enc_KeyAddressResponse_def [abs_def] dec_KeyAddressResponse_def
  by (rule wire_map [OF wire_pair [OF wire_list [OF wire_KeyAddress] wire_pair [OF wire_AnnaError wire_str]]]) simp

definition enc_LWWValue :: "LWWValue \<Rightarrow> string" where
  "enc_LWWValue x =
     (enc_pair enc_word enc_str)
       (lwwv_timestamp x, lwwv_value x)"

definition dec_LWWValue :: "string \<Rightarrow> LWWValue \<times> string" where
  "dec_LWWValue = dec_map
     (\<lambda>(v0, v1). \<lparr>lwwv_timestamp = v0, lwwv_value = v1\<rparr>)
     (dec_pair dec_word dec_str)"

lemma wire_LWWValue: "wire_ok enc_LWWValue dec_LWWValue"
  unfolding enc_LWWValue_def [abs_def] dec_LWWValue_def
  by (rule wire_map [OF wire_pair [OF wire_word wire_str]]) simp

definition enc_SingleKeyCausalValue :: "SingleKeyCausalValue \<Rightarrow> string" where
  "enc_SingleKeyCausalValue x =
     (enc_pair (enc_list (enc_pair enc_str enc_word)) (enc_list enc_str))
       (skcv_vector_clock x, skcv_values x)"

definition dec_SingleKeyCausalValue :: "string \<Rightarrow> SingleKeyCausalValue \<times> string" where
  "dec_SingleKeyCausalValue = dec_map
     (\<lambda>(v0, v1). \<lparr>skcv_vector_clock = v0, skcv_values = v1\<rparr>)
     (dec_pair (dec_list (dec_pair dec_str dec_word)) (dec_list dec_str))"

lemma wire_SingleKeyCausalValue: "wire_ok enc_SingleKeyCausalValue dec_SingleKeyCausalValue"
  unfolding enc_SingleKeyCausalValue_def [abs_def] dec_SingleKeyCausalValue_def
  by (rule wire_map [OF wire_pair [OF wire_list [OF wire_pair [OF wire_str wire_word]] wire_list [OF wire_str]]]) simp

definition enc_KeyVersion :: "KeyVersion \<Rightarrow> string" where
  "enc_KeyVersion x =
     (enc_pair enc_str (enc_list (enc_pair enc_str enc_word)))
       (kv_key x, kv_vector_clock x)"

definition dec_KeyVersion :: "string \<Rightarrow> KeyVersion \<times> string" where
  "dec_KeyVersion = dec_map
     (\<lambda>(v0, v1). \<lparr>kv_key = v0, kv_vector_clock = v1\<rparr>)
     (dec_pair dec_str (dec_list (dec_pair dec_str dec_word)))"

lemma wire_KeyVersion: "wire_ok enc_KeyVersion dec_KeyVersion"
  unfolding enc_KeyVersion_def [abs_def] dec_KeyVersion_def
  by (rule wire_map [OF wire_pair [OF wire_str wire_list [OF wire_pair [OF wire_str wire_word]]]]) simp

definition enc_MultiKeyCausalValue :: "MultiKeyCausalValue \<Rightarrow> string" where
  "enc_MultiKeyCausalValue x =
     (enc_pair (enc_list (enc_pair enc_str enc_word)) (enc_pair (enc_list enc_KeyVersion) (enc_list enc_str)))
       (mkcv_vector_clock x, mkcv_dependencies x, mkcv_values x)"

definition dec_MultiKeyCausalValue :: "string \<Rightarrow> MultiKeyCausalValue \<times> string" where
  "dec_MultiKeyCausalValue = dec_map
     (\<lambda>(v0, v1, v2). \<lparr>mkcv_vector_clock = v0, mkcv_dependencies = v1, mkcv_values = v2\<rparr>)
     (dec_pair (dec_list (dec_pair dec_str dec_word)) (dec_pair (dec_list dec_KeyVersion) (dec_list dec_str)))"

lemma wire_MultiKeyCausalValue: "wire_ok enc_MultiKeyCausalValue dec_MultiKeyCausalValue"
  unfolding enc_MultiKeyCausalValue_def [abs_def] dec_MultiKeyCausalValue_def
  by (rule wire_map [OF wire_pair [OF wire_list [OF wire_pair [OF wire_str wire_word]] wire_pair [OF wire_list [OF wire_KeyVersion] wire_list [OF wire_str]]]]) simp

definition enc_SetValue :: "SetValue \<Rightarrow> string" where
  "enc_SetValue x =
     (enc_list enc_str)
       (setv_values x)"

definition dec_SetValue :: "string \<Rightarrow> SetValue \<times> string" where
  "dec_SetValue = dec_map
     (\<lambda>v0. \<lparr>setv_values = v0\<rparr>)
     (dec_list dec_str)"

lemma wire_SetValue: "wire_ok enc_SetValue dec_SetValue"
  unfolding enc_SetValue_def [abs_def] dec_SetValue_def
  by (rule wire_map [OF wire_list [OF wire_str]]) simp

definition enc_StringSet :: "StringSet \<Rightarrow> string" where
  "enc_StringSet x =
     (enc_list enc_str)
       (strs_keys x)"

definition dec_StringSet :: "string \<Rightarrow> StringSet \<times> string" where
  "dec_StringSet = dec_map
     (\<lambda>v0. \<lparr>strs_keys = v0\<rparr>)
     (dec_list dec_str)"

lemma wire_StringSet: "wire_ok enc_StringSet dec_StringSet"
  unfolding enc_StringSet_def [abs_def] dec_StringSet_def
  by (rule wire_map [OF wire_list [OF wire_str]]) simp

definition enc_ReplicationValue :: "ReplicationValue \<Rightarrow> string" where
  "enc_ReplicationValue x =
     (enc_pair enc_Tier enc_word)
       (rv_tier x, rv_value x)"

definition dec_ReplicationValue :: "string \<Rightarrow> ReplicationValue \<times> string" where
  "dec_ReplicationValue = dec_map
     (\<lambda>(v0, v1). \<lparr>rv_tier = v0, rv_value = v1\<rparr>)
     (dec_pair dec_Tier dec_word)"

lemma wire_ReplicationValue: "wire_ok enc_ReplicationValue dec_ReplicationValue"
  unfolding enc_ReplicationValue_def [abs_def] dec_ReplicationValue_def
  by (rule wire_map [OF wire_pair [OF wire_Tier wire_word]]) simp

definition enc_ReplicationFactor :: "ReplicationFactor \<Rightarrow> string" where
  "enc_ReplicationFactor x =
     (enc_pair enc_str (enc_pair (enc_list enc_ReplicationValue) (enc_list enc_ReplicationValue)))
       (rf_key x, rf_global x, rf_local x)"

definition dec_ReplicationFactor :: "string \<Rightarrow> ReplicationFactor \<times> string" where
  "dec_ReplicationFactor = dec_map
     (\<lambda>(v0, v1, v2). \<lparr>rf_key = v0, rf_global = v1, rf_local = v2\<rparr>)
     (dec_pair dec_str (dec_pair (dec_list dec_ReplicationValue) (dec_list dec_ReplicationValue)))"

lemma wire_ReplicationFactor: "wire_ok enc_ReplicationFactor dec_ReplicationFactor"
  unfolding enc_ReplicationFactor_def [abs_def] dec_ReplicationFactor_def
  by (rule wire_map [OF wire_pair [OF wire_str wire_pair [OF wire_list [OF wire_ReplicationValue] wire_list [OF wire_ReplicationValue]]]]) simp

definition enc_ReplicationFactorUpdate :: "ReplicationFactorUpdate \<Rightarrow> string" where
  "enc_ReplicationFactorUpdate x =
     (enc_list enc_ReplicationFactor)
       (rfu_updates x)"

definition dec_ReplicationFactorUpdate :: "string \<Rightarrow> ReplicationFactorUpdate \<times> string" where
  "dec_ReplicationFactorUpdate = dec_map
     (\<lambda>v0. \<lparr>rfu_updates = v0\<rparr>)
     (dec_list dec_ReplicationFactor)"

lemma wire_ReplicationFactorUpdate: "wire_ok enc_ReplicationFactorUpdate dec_ReplicationFactorUpdate"
  unfolding enc_ReplicationFactorUpdate_def [abs_def] dec_ReplicationFactorUpdate_def
  by (rule wire_map [OF wire_list [OF wire_ReplicationFactor]]) simp

definition enc_Server :: "Server \<Rightarrow> string" where
  "enc_Server x =
     (enc_pair enc_str enc_str)
       (srv_public_ip x, srv_private_ip x)"

definition dec_Server :: "string \<Rightarrow> Server \<times> string" where
  "dec_Server = dec_map
     (\<lambda>(v0, v1). \<lparr>srv_public_ip = v0, srv_private_ip = v1\<rparr>)
     (dec_pair dec_str dec_str)"

lemma wire_Server: "wire_ok enc_Server dec_Server"
  unfolding enc_Server_def [abs_def] dec_Server_def
  by (rule wire_map [OF wire_pair [OF wire_str wire_str]]) simp

definition enc_TierMembership :: "TierMembership \<Rightarrow> string" where
  "enc_TierMembership x =
     (enc_pair enc_Tier (enc_list enc_Server))
       (tm_tier_id x, tm_servers x)"

definition dec_TierMembership :: "string \<Rightarrow> TierMembership \<times> string" where
  "dec_TierMembership = dec_map
     (\<lambda>(v0, v1). \<lparr>tm_tier_id = v0, tm_servers = v1\<rparr>)
     (dec_pair dec_Tier (dec_list dec_Server))"

lemma wire_TierMembership: "wire_ok enc_TierMembership dec_TierMembership"
  unfolding enc_TierMembership_def [abs_def] dec_TierMembership_def
  by (rule wire_map [OF wire_pair [OF wire_Tier wire_list [OF wire_Server]]]) simp

definition enc_ClusterMembership :: "ClusterMembership \<Rightarrow> string" where
  "enc_ClusterMembership x =
     (enc_list enc_TierMembership)
       (cm_tiers x)"

definition dec_ClusterMembership :: "string \<Rightarrow> ClusterMembership \<times> string" where
  "dec_ClusterMembership = dec_map
     (\<lambda>v0. \<lparr>cm_tiers = v0\<rparr>)
     (dec_list dec_TierMembership)"

lemma wire_ClusterMembership: "wire_ok enc_ClusterMembership dec_ClusterMembership"
  unfolding enc_ClusterMembership_def [abs_def] dec_ClusterMembership_def
  by (rule wire_map [OF wire_list [OF wire_TierMembership]]) simp

definition enc_KeyCount :: "KeyCount \<Rightarrow> string" where
  "enc_KeyCount x =
     (enc_pair enc_str enc_word)
       (kc_key x, kc_access_count x)"

definition dec_KeyCount :: "string \<Rightarrow> KeyCount \<times> string" where
  "dec_KeyCount = dec_map
     (\<lambda>(v0, v1). \<lparr>kc_key = v0, kc_access_count = v1\<rparr>)
     (dec_pair dec_str dec_word)"

lemma wire_KeyCount: "wire_ok enc_KeyCount dec_KeyCount"
  unfolding enc_KeyCount_def [abs_def] dec_KeyCount_def
  by (rule wire_map [OF wire_pair [OF wire_str wire_word]]) simp

definition enc_KeyAccessData :: "KeyAccessData \<Rightarrow> string" where
  "enc_KeyAccessData x =
     (enc_list enc_KeyCount)
       (kad_keys x)"

definition dec_KeyAccessData :: "string \<Rightarrow> KeyAccessData \<times> string" where
  "dec_KeyAccessData = dec_map
     (\<lambda>v0. \<lparr>kad_keys = v0\<rparr>)
     (dec_list dec_KeyCount)"

lemma wire_KeyAccessData: "wire_ok enc_KeyAccessData dec_KeyAccessData"
  unfolding enc_KeyAccessData_def [abs_def] dec_KeyAccessData_def
  by (rule wire_map [OF wire_list [OF wire_KeyCount]]) simp

definition enc_KeySize :: "KeySize \<Rightarrow> string" where
  "enc_KeySize x =
     (enc_pair enc_str enc_word)
       (ks_key x, ks_size x)"

definition dec_KeySize :: "string \<Rightarrow> KeySize \<times> string" where
  "dec_KeySize = dec_map
     (\<lambda>(v0, v1). \<lparr>ks_key = v0, ks_size = v1\<rparr>)
     (dec_pair dec_str dec_word)"

lemma wire_KeySize: "wire_ok enc_KeySize dec_KeySize"
  unfolding enc_KeySize_def [abs_def] dec_KeySize_def
  by (rule wire_map [OF wire_pair [OF wire_str wire_word]]) simp

definition enc_KeySizeData :: "KeySizeData \<Rightarrow> string" where
  "enc_KeySizeData x =
     (enc_list enc_KeySize)
       (ksd_key_sizes x)"

definition dec_KeySizeData :: "string \<Rightarrow> KeySizeData \<times> string" where
  "dec_KeySizeData = dec_map
     (\<lambda>v0. \<lparr>ksd_key_sizes = v0\<rparr>)
     (dec_list dec_KeySize)"

lemma wire_KeySizeData: "wire_ok enc_KeySizeData dec_KeySizeData"
  unfolding enc_KeySizeData_def [abs_def] dec_KeySizeData_def
  by (rule wire_map [OF wire_list [OF wire_KeySize]]) simp

section \<open>The codec\<close>

definition wire_codec :: codec where
  "wire_codec = \<lparr>
     ser_KeyRequest = enc_KeyRequest,
     parse_KeyRequest = (\<lambda>s. (True, fst (dec_KeyRequest s))),
     ser_KeyResponse = enc_KeyResponse,
     parse_KeyResponse = (\<lambda>s. (True, fst (dec_KeyResponse s))),
     ser_KeyAddressRequest = enc_KeyAddressRequest,
     parse_KeyAddressRequest = (\<lambda>s. (True, fst (dec_KeyAddressRequest s))),
     ser_KeyAddressResponse = enc_KeyAddressResponse,
     parse_KeyAddressResponse = (\<lambda>s. (True, fst (dec_KeyAddressResponse s))),
     ser_LWWValue = enc_LWWValue,
     parse_LWWValue = (\<lambda>s. (True, fst (dec_LWWValue s))),
     ser_SetValue = enc_SetValue,
     parse_SetValue = (\<lambda>s. (True, fst (dec_SetValue s))),
     ser_SingleKeyCausalValue = enc_SingleKeyCausalValue,
     parse_SingleKeyCausalValue = (\<lambda>s. (True, fst (dec_SingleKeyCausalValue s))),
     ser_MultiKeyCausalValue = enc_MultiKeyCausalValue,
     parse_MultiKeyCausalValue = (\<lambda>s. (True, fst (dec_MultiKeyCausalValue s))),
     ser_PriorityValue = (\<lambda>_. []),
     parse_PriorityValue = (\<lambda>_. (False, empty_PriorityValue)),
     ser_StringSet = enc_StringSet,
     parse_StringSet = (\<lambda>s. (True, fst (dec_StringSet s))),
     ser_ReplicationFactor = enc_ReplicationFactor,
     parse_ReplicationFactor = (\<lambda>s. (True, fst (dec_ReplicationFactor s))),
     ser_ReplicationFactorUpdate = enc_ReplicationFactorUpdate,
     parse_ReplicationFactorUpdate = (\<lambda>s. (True, fst (dec_ReplicationFactorUpdate s))),
     ser_ClusterMembership = enc_ClusterMembership,
     parse_ClusterMembership = (\<lambda>s. (True, fst (dec_ClusterMembership s))),
     ser_ServerThreadStatistics = (\<lambda>_. []),
     parse_ServerThreadStatistics = (\<lambda>_. (False, empty_ServerThreadStatistics)),
     ser_KeyAccessData = enc_KeyAccessData,
     parse_KeyAccessData = (\<lambda>s. (True, fst (dec_KeyAccessData s))),
     ser_KeySizeData = enc_KeySizeData,
     parse_KeySizeData = (\<lambda>s. (True, fst (dec_KeySizeData s))),
     ser_UserFeedback = (\<lambda>_. []),
     parse_UserFeedback = (\<lambda>_. (False, empty_UserFeedback))\<rparr>"

lemma wire_parse: "wire_ok enc dec \<Longrightarrow> fst (dec (enc x)) = x"
  using wire_okD [of enc dec x "[]"] by simp

lemma wire_codec_laws [simp]:
  "parse_KeyRequest wire_codec (ser_KeyRequest wire_codec m0) = (True, m0)"
  "parse_KeyResponse wire_codec (ser_KeyResponse wire_codec m1) = (True, m1)"
  "parse_KeyAddressRequest wire_codec (ser_KeyAddressRequest wire_codec m2) = (True, m2)"
  "parse_KeyAddressResponse wire_codec (ser_KeyAddressResponse wire_codec m3) = (True, m3)"
  "parse_LWWValue wire_codec (ser_LWWValue wire_codec m4) = (True, m4)"
  "parse_SetValue wire_codec (ser_SetValue wire_codec m5) = (True, m5)"
  "parse_SingleKeyCausalValue wire_codec (ser_SingleKeyCausalValue wire_codec m6) = (True, m6)"
  "parse_MultiKeyCausalValue wire_codec (ser_MultiKeyCausalValue wire_codec m7) = (True, m7)"
  "parse_StringSet wire_codec (ser_StringSet wire_codec m8) = (True, m8)"
  "parse_ReplicationFactor wire_codec (ser_ReplicationFactor wire_codec m9) = (True, m9)"
  "parse_ReplicationFactorUpdate wire_codec (ser_ReplicationFactorUpdate wire_codec m10) = (True, m10)"
  "parse_ClusterMembership wire_codec (ser_ClusterMembership wire_codec m11) = (True, m11)"
  "parse_KeyAccessData wire_codec (ser_KeyAccessData wire_codec m12) = (True, m12)"
  "parse_KeySizeData wire_codec (ser_KeySizeData wire_codec m13) = (True, m13)"
  by (simp_all add: wire_codec_def wire_parse [OF wire_KeyRequest] wire_parse [OF wire_KeyResponse] wire_parse [OF wire_KeyAddressRequest] wire_parse [OF wire_KeyAddressResponse] wire_parse [OF wire_LWWValue] wire_parse [OF wire_SetValue] wire_parse [OF wire_SingleKeyCausalValue] wire_parse [OF wire_MultiKeyCausalValue] wire_parse [OF wire_StringSet] wire_parse [OF wire_ReplicationFactor] wire_parse [OF wire_ReplicationFactorUpdate] wire_parse [OF wire_ClusterMembership] wire_parse [OF wire_KeyAccessData] wire_parse [OF wire_KeySizeData])

end
