(* ===== verification/Anna_Common.thy ===== *)
theory Anna_Common
  imports Anna_Causal Anna_Wire
begin

text \<open>
  The shared helpers of \<^verbatim>\<open>common/include/common.hpp\<close>: logical timestamps made of the clock and a
  thread id, the keys under which per-key user metadata is stored, and the conversions between
  lattices and their protocol-buffer encodings. The lemmas show that the timestamp loop ends for
  realistic thread ids and that timestamps order first by time and then by thread, that the user
  metadata key can be inverted, and that every encoding is read back as the same lattice value.
\<close>

section \<open>Metadata keys of users\<close>

datatype UserMetadataType = cache_ip

definition kMetadataIdentifier :: string where
  "kMetadataIdentifier = ''ANNA_METADATA''"

definition kMetadataDelimiterChar :: char where
  "kMetadataDelimiterChar = CHR ''|''"

definition kMetadataDelimiter :: string where
  "kMetadataDelimiter = [kMetadataDelimiterChar]"

definition kMetadataTypeCacheIP :: string where
  "kMetadataTypeCacheIP = ''cache_ip''"

text \<open>
  \<^verbatim>\<open>std::string::find\<close> of a single character from a position; \<^const>\<open>None\<close> is \<^verbatim>\<open>npos\<close>. Adding one to
  \<^verbatim>\<open>npos\<close> wraps around to position 0.
\<close>

definition str_find :: "char \<Rightarrow> nat \<Rightarrow> string \<Rightarrow> nat option" where
  "str_find c pos s =
     (let i = pos + length (takeWhile (\<lambda>x. x \<noteq> c) (drop pos s))
      in if i < length s then Some i else None)"

definition after :: "nat option \<Rightarrow> nat" where
  "after i = (case i of None \<Rightarrow> 0 | Some n \<Rightarrow> n + 1)"

definition substr_to :: "nat \<Rightarrow> nat option \<Rightarrow> string \<Rightarrow> string" where
  "substr_to start stop s =
     (case stop of None \<Rightarrow> drop start s | Some n \<Rightarrow> take (n - start) (drop start s))"

definition get_user_metadata_key :: "string \<Rightarrow> UserMetadataType \<Rightarrow> Key" where
  "get_user_metadata_key data_key type =
     (if type = cache_ip
      then kMetadataIdentifier @ kMetadataDelimiter @ kMetadataTypeCacheIP @ kMetadataDelimiter @
        data_key
      else [])"

definition get_key_from_user_metadata :: "Key \<Rightarrow> Key" where
  "get_key_from_user_metadata metadata_key =
     (let n_id = str_find kMetadataDelimiterChar 0 metadata_key;
          n_type = str_find kMetadataDelimiterChar (after n_id) metadata_key;
          metadata_type = substr_to (after n_id) n_type metadata_key
      in if metadata_type = kMetadataTypeCacheIP then drop (after n_type) metadata_key else [])"

section \<open>Timestamps\<close>

partial_function (option) pow_loop :: "u32 \<Rightarrow> u32 \<Rightarrow> u32 option" where
  "pow_loop tid pow = (if tid \<ge> pow then pow_loop tid (pow * 10) else Some pow)"

definition generate_timestamp :: "u32 \<Rightarrow> u64 \<Rightarrow> u64 res" where
  "generate_timestamp tid time =
     (case pow_loop tid 10 of
        None \<Rightarrow> Inl Diverges
      | Some pow \<Rightarrow> Inr (time * ucast pow + ucast tid))"

section \<open>Encoding and decoding of lattices\<close>

definition serialize_lww :: "codec \<Rightarrow> string TimestampValuePair \<Rightarrow> string" where
  "serialize_lww C l = ser_LWWValue C \<lparr>lwwv_timestamp = tvp_timestamp l, lwwv_value = tvp_value l\<rparr>"

definition serialize_timestamped :: "codec \<Rightarrow> u64 \<Rightarrow> string \<Rightarrow> string" where
  "serialize_timestamped C timestamp value =
     ser_LWWValue C \<lparr>lwwv_timestamp = timestamp, lwwv_value = value\<rparr>"

definition serialize_set :: "codec \<Rightarrow> string list \<Rightarrow> string" where
  "serialize_set C l = ser_SetValue C \<lparr>setv_values = l\<rparr>"

definition serialize_ordered_set :: "codec \<Rightarrow> string list \<Rightarrow> string" where
  "serialize_ordered_set C l = ser_SetValue C \<lparr>setv_values = l\<rparr>"

definition proto_map :: "('k, 'v) omap \<Rightarrow> ('k, 'v) omap" where
  "proto_map m = fold (\<lambda>(k, v). AList.update k v) m []"

definition serialize_causal :: "codec \<Rightarrow> string list VectorClockValuePair \<Rightarrow> string" where
  "serialize_causal C l = ser_SingleKeyCausalValue C
     \<lparr>skcv_vector_clock = proto_map (vcp_vector_clock l), skcv_values = vcp_value l\<rparr>"

definition serialize_multi_key_causal :: "codec \<Rightarrow> string list MultiKeyCausalPayload \<Rightarrow> string" where
  "serialize_multi_key_causal C l = ser_MultiKeyCausalValue C
     \<lparr>mkcv_vector_clock = proto_map (mkp_vector_clock l),
      mkcv_dependencies =
        map (\<lambda>(k, vc). \<lparr>kv_key = k, kv_vector_clock = proto_map vc\<rparr>) (mkp_dependencies l),
      mkcv_values = mkp_value l\<rparr>"

definition serialize_priority :: "codec \<Rightarrow> (real, string) PriorityValuePair \<Rightarrow> string" where
  "serialize_priority C l =
     ser_PriorityValue C \<lparr>priov_priority = pvp_priority l, priov_value = pvp_value l\<rparr>"

definition deserialize_lww :: "codec \<Rightarrow> string \<Rightarrow> string TimestampValuePair" where
  "deserialize_lww C serialized =
     (let lww = snd (parse_LWWValue C serialized)
      in \<lparr>tvp_timestamp = lwwv_timestamp lww, tvp_value = lwwv_value lww\<rparr>)"

definition deserialize_set :: "codec \<Rightarrow> string \<Rightarrow> string list" where
  "deserialize_set C serialized =
     fold List.insert (setv_values (snd (parse_SetValue C serialized))) []"

definition deserialize_ordered_set :: "codec \<Rightarrow> string \<Rightarrow> string list" where
  "deserialize_ordered_set C serialized =
     fold insort_insert (setv_values (snd (parse_SetValue C serialized))) []"

definition deserialize_causal :: "codec \<Rightarrow> string \<Rightarrow> SingleKeyCausalValue" where
  "deserialize_causal C serialized = snd (parse_SingleKeyCausalValue C serialized)"

definition deserialize_multi_key_causal :: "codec \<Rightarrow> string \<Rightarrow> MultiKeyCausalValue" where
  "deserialize_multi_key_causal C serialized = snd (parse_MultiKeyCausalValue C serialized)"

definition deserialize_priority :: "codec \<Rightarrow> string \<Rightarrow> (real, string) PriorityValuePair" where
  "deserialize_priority C serialized =
     (let pv = snd (parse_PriorityValue C serialized)
      in \<lparr>pvp_priority = priov_priority pv, pvp_value = priov_value pv\<rparr>)"

definition to_vector_clock :: "(string, u32) omap \<Rightarrow> VectorClock" where
  "to_vector_clock es = fold (\<lambda>(k, v). map_insert max_do_merge k v) es []"

definition to_vector_clock_value_pair ::
    "SingleKeyCausalValue \<Rightarrow> string list VectorClockValuePair" where
  "to_vector_clock_value_pair cv =
     \<lparr>vcp_vector_clock = to_vector_clock (skcv_vector_clock cv),
      vcp_value = foldl set_insert [] (skcv_values cv)\<rparr>"

definition to_multi_key_causal_payload ::
    "MultiKeyCausalValue \<Rightarrow> string list MultiKeyCausalPayload" where
  "to_multi_key_causal_payload mkcv =
     \<lparr>mkp_vector_clock = to_vector_clock (mkcv_vector_clock mkcv),
      mkp_dependencies =
        fold (\<lambda>dep. map_insert vc_merge (kv_key dep) (to_vector_clock (kv_vector_clock dep)))
          (mkcv_dependencies mkcv) [],
      mkp_value = foldl set_insert [] (mkcv_values mkcv)\<rparr>"

section \<open>User metadata keys are invertible\<close>

lemma takeWhile_until: "c \<notin> set a \<Longrightarrow> takeWhile (\<lambda>x. x \<noteq> c) (a @ c # b) = a"
  by (induction a) auto

lemma str_find_skip:
  "c \<notin> set a \<Longrightarrow> str_find c (length p) (p @ a @ c # b) = Some (length p + length a)"
  by (simp add: str_find_def takeWhile_until)

lemma str_find_first: "c \<notin> set a \<Longrightarrow> str_find c 0 (a @ c # b) = Some (length a)"
  using str_find_skip [of c a "[]" b] by simp

lemma str_find_second:
  "c \<notin> set a \<Longrightarrow> str_find c (Suc (length p)) (p @ c # a @ c # b) = Some (Suc (length p) + length a)"
  using str_find_skip [of c a "p @ [c]" b] by simp

lemmas metadata_defs = kMetadataIdentifier_def kMetadataDelimiterChar_def kMetadataDelimiter_def
  kMetadataTypeCacheIP_def

lemma get_key_from_user_metadata_key:
  "get_key_from_user_metadata (get_user_metadata_key k cache_ip) = k"
proof -
  have 1: "CHR ''|'' \<notin> set ''ANNA_METADATA''" and 2: "CHR ''|'' \<notin> set ''cache_ip''"
    by simp_all
  have key: "get_user_metadata_key k cache_ip =
      ''ANNA_METADATA'' @ CHR ''|'' # ''cache_ip'' @ CHR ''|'' # k"
    by (simp add: get_user_metadata_key_def metadata_defs)
  note find = str_find_first [OF 1, of "''cache_ip'' @ CHR ''|'' # k"]
    str_find_second [OF 2, of "''ANNA_METADATA''" k]
  show ?thesis
    using find
    by (simp add: key get_key_from_user_metadata_def metadata_defs after_def substr_to_def Let_def)
qed

section \<open>Timestamps\<close>

lemma unat_pow10: "k \<le> 9 \<Longrightarrow> unat (10 ^ k :: u32) = 10 ^ k"
proof -
  assume "k \<le> 9"
  then have "(10::nat) ^ k \<le> 10 ^ 9"
    by (rule power_increasing) simp
  then have "(10::nat) ^ k < 2 ^ 32"
    by simp
  moreover have "(10 ^ k :: u32) = of_nat (10 ^ k)"
    by simp
  ultimately show ?thesis
    by (simp only: unat_of_nat) simp
qed

lemma pow_loop_result:
  assumes "unat tid < 10 ^ m" "m \<le> 9" "k \<le> m"
  shows "\<exists>d. k \<le> d \<and> d \<le> m \<and> pow_loop tid (10 ^ k) = Some (10 ^ d) \<and> unat tid < 10 ^ d
    \<and> (k < d \<longrightarrow> 10 ^ (d - 1) \<le> unat tid)"
  using assms(3)
proof (induction rule: inc_induct)
  case base
  then show ?case
    using assms by (intro exI [of _ m])
      (simp add: pow_loop.simps [of tid "10 ^ m"] word_le_nat_alt unat_pow10)
next
  case (step n)
  show ?case
  proof (cases "unat tid < 10 ^ n")
    case True
    then show ?thesis
      using step assms by (intro exI [of _ n])
        (simp add: pow_loop.simps [of tid "10 ^ n"] word_le_nat_alt unat_pow10)
  next
    case False
    obtain d where d: "Suc n \<le> d" "d \<le> m" "pow_loop tid (10 ^ Suc n) = Some (10 ^ d)"
      "unat tid < 10 ^ d" "Suc n < d \<longrightarrow> 10 ^ (d - 1) \<le> unat tid"
      using step.IH by blast
    have "pow_loop tid (10 ^ n) = pow_loop tid (10 ^ Suc n)"
      using False step assms
      by (simp add: pow_loop.simps [of tid "10 ^ n"] word_le_nat_alt unat_pow10 mult.commute)
    moreover have "10 ^ (d - 1) \<le> unat tid"
      using d False by (cases "d = Suc n") auto
    ultimately show ?thesis
      using d by (intro exI [of _ d]) simp
  qed
qed

lemma unat_ucast_u64 [simp]: "unat (ucast (w :: u32) :: u64) = unat w"
proof -
  have "unat w < 2 ^ 32"
    using unsigned_less [of w, where 'a = nat] by simp
  then show ?thesis
    by (simp add: unsigned_ucast_eq take_bit_nat_eq_self)
qed

lemma length_nat_to_string:
  "n < 10 ^ Suc d \<Longrightarrow> d = 0 \<or> 10 ^ d \<le> n \<Longrightarrow> length (nat_to_string n) = Suc d"
proof (induction d arbitrary: n)
  case 0
  then show ?case
    by (simp add: nat_to_string.simps [of n])
next
  case (Suc d)
  have "(1::nat) \<le> 10 ^ d"
    by simp
  with Suc.prems have "\<not> n < 10"
    unfolding power_Suc by linarith
  moreover from Suc.prems have "n div 10 < 10 ^ Suc d" "10 ^ d \<le> n div 10"
    by (auto simp: less_mult_imp_div_less less_eq_div_iff_mult_less_eq mult.commute)
  ultimately show ?case
    using Suc.IH [of "n div 10"] by (simp add: nat_to_string.simps [of n])
qed

lemma generate_timestamp_value:
  assumes "unat tid < 10 ^ 6" "unat time < 2 ^ 44"
  shows "\<exists>ts. generate_timestamp tid time = Inr ts
    \<and> unat ts = unat time * 10 ^ length (to_string tid) + unat tid
    \<and> unat tid < 10 ^ length (to_string tid)"
proof -
  obtain d where d: "1 \<le> d" "d \<le> 6" "pow_loop tid 10 = Some (10 ^ d)" "unat tid < 10 ^ d"
    "1 < d \<longrightarrow> 10 ^ (d - 1) \<le> unat tid"
    using pow_loop_result [of tid 6 1] assms(1) by auto
  have len: "length (to_string tid) = d"
    using d length_nat_to_string [of "unat tid" "d - 1"]
    by (cases "d = 1") (auto simp: to_string_def)
  have "(10::nat) ^ d \<le> 10 ^ 6"
    using d(2) by (rule power_increasing) simp
  then have le: "unat time * 10 ^ d + unat tid < 2 ^ 64"
    using assms mult_le_mono [of "unat time" "2 ^ 44 - 1" "10 ^ d" "10 ^ 6"] by simp
  have ucast: "unat (ucast (10 ^ d :: u32) :: u64) = 10 ^ d" "unat (ucast tid :: u64) = unat tid"
    using d(2) unat_pow10 [of d] by simp_all
  let ?ts = "time * ucast (10 ^ d :: u32) + ucast tid :: u64"
  have "unat (time * ucast (10 ^ d :: u32) :: u64) = unat time * 10 ^ d"
    using le ucast by (subst unat_mult_lem [THEN iffD1]) simp_all
  then have "unat ?ts = unat time * 10 ^ d + unat tid"
    using le ucast by (subst unat_add_lem [THEN iffD1]) simp_all
  then show ?thesis
    using d len by (simp add: generate_timestamp_def)
qed

text \<open>
  Timestamps of threads whose ids print with the same number of digits are generated without
  overflow and are ordered first by the time and then by the thread id; in particular two of
  them agree only when they come from the same thread in the same millisecond. The bounds allow
  a million threads and clocks up to the year 2527.
\<close>

theorem generate_timestamp_order:
  assumes "unat tid < 10 ^ 6" "unat tid' < 10 ^ 6"
    and "length (to_string tid) = length (to_string tid')"
    and "unat time < 2 ^ 44" "unat time' < 2 ^ 44"
  shows "\<exists>ts ts'. generate_timestamp tid time = Inr ts \<and> generate_timestamp tid' time' = Inr ts'
    \<and> (ts < ts' \<longleftrightarrow> time < time' \<or> time = time' \<and> tid < tid')"
proof -
  let ?p = "10 ^ length (to_string tid) :: nat"
  obtain ts where ts: "generate_timestamp tid time = Inr ts"
      "unat ts = unat time * ?p + unat tid" "unat tid < ?p"
    using generate_timestamp_value [OF assms(1,4)] by blast
  obtain ts' where ts': "generate_timestamp tid' time' = Inr ts'"
      "unat ts' = unat time' * ?p + unat tid'" "unat tid' < ?p"
    using generate_timestamp_value [OF assms(2,5)] assms(3) by auto
  have *: "a < b \<Longrightarrow> i < q \<Longrightarrow> a * q + i < b * q + j" for a b i j q :: nat
    using mult_le_mono1 [of "Suc a" b q] by simp
  have "unat ts < unat ts' \<longleftrightarrow> unat time < unat time' \<or> unat time = unat time' \<and> unat tid < unat tid'"
    using ts(2,3) ts'(2,3) * [of "unat time" "unat time'" "unat tid" ?p "unat tid'"]
      * [of "unat time'" "unat time" "unat tid'" ?p "unat tid"]
    by (cases "unat time" "unat time'" rule: linorder_cases) auto
  then show ?thesis
    using ts(1) ts'(1) by (auto simp: word_less_nat_alt word_unat_eq_iff)
qed

theorem generate_timestamp_order_witness:
  "\<exists>ts ts'. generate_timestamp 12 1700000000000 = Inr ts \<and> generate_timestamp 37 1700000000000 = Inr ts'
    \<and> ts < ts'"
  using generate_timestamp_order [of 12 37 1700000000000 1700000000000]
  by (auto simp: to_string_def nat_to_string.simps)

section \<open>Encodings are read back\<close>

lemma map_of_proto_map: "om_wf m \<Longrightarrow> map_of (proto_map m) = map_of m"
proof -
  have "om_wf m \<Longrightarrow> map_of (fold (\<lambda>(k, v). AList.update k v) m acc) = map_of acc ++ map_of m" for acc
    by (induction m arbitrary: acc)
      (auto simp: om_wf_def update_conv' map_add_upd_left dom_map_of_conv_image_fst)
  then show "om_wf m \<Longrightarrow> ?thesis"
    by (simp add: proto_map_def)
qed

lemma om_wf_proto_map [intro]: "om_wf (proto_map m)"
proof -
  have "om_wf acc \<Longrightarrow> om_wf (fold (\<lambda>(k, v). AList.update k v) m acc)" for acc
    by (induction m arbitrary: acc) auto
  then show ?thesis
    by (simp add: proto_map_def)
qed

lemma to_vector_clock_eq: "to_vector_clock es = vc_merge [] es"
  by (simp add: to_vector_clock_def vc_merge_def map_do_merge_def map_insert_def [abs_def])

lemma map_of_to_vector_clock: "om_wf es \<Longrightarrow> map_of (to_vector_clock es) = map_of es"
  by (rule ext) (simp add: to_vector_clock_eq map_of_vc_merge split: option.split)

lemma om_wf_to_vector_clock [intro]: "om_wf (to_vector_clock es)"
  by (simp add: to_vector_clock_eq om_wf_vc_merge)

lemma set_foldl_set_insert [simp]: "set (foldl set_insert acc xs) = set acc \<union> set xs"
  by (induction xs arbitrary: acc) (auto simp: set_insert_def)

lemma distinct_foldl_set_insert [intro]: "distinct acc \<Longrightarrow> distinct (foldl set_insert acc xs)"
  by (induction xs arbitrary: acc) (auto simp: set_insert_def)

lemma deserialize_lww_serialize:
  assumes "\<And>m. parse_LWWValue C (ser_LWWValue C m) = (True, m)"
  shows "deserialize_lww C (serialize_lww C l) = l"
  by (simp add: deserialize_lww_def serialize_lww_def assms)

lemma deserialize_set_serialize:
  assumes "\<And>m. parse_SetValue C (ser_SetValue C m) = (True, m)"
  shows "set (deserialize_set C (serialize_set C l)) = set l"
  by (simp add: deserialize_set_def serialize_set_def assms)

lemma deserialize_ordered_set_serialize:
  assumes "\<And>m. parse_SetValue C (ser_SetValue C m) = (True, m)"
    and "sorted l" "distinct l"
  shows "deserialize_ordered_set C (serialize_ordered_set C l) = l"
  using assms(2,3) sorted_distinct_fold_insort_insert [of "[]" l]
  by (intro sorted_distinct_set_unique)
    (simp_all add: deserialize_ordered_set_def serialize_ordered_set_def assms(1))

lemma causal_roundtrip:
  assumes "\<And>m. parse_SingleKeyCausalValue C (ser_SingleKeyCausalValue C m) = (True, m)"
    and "sk_inv l"
  shows "sk_view (to_vector_clock_value_pair (deserialize_causal C (serialize_causal C l))) = sk_view l"
  using assms(2)
  by (simp add: sk_view_def sk_inv_def to_vector_clock_value_pair_def deserialize_causal_def
      serialize_causal_def assms(1) map_of_to_vector_clock om_wf_proto_map map_of_proto_map)

definition mk_inv :: "'a list MultiKeyCausalPayload \<Rightarrow> bool" where
  "mk_inv a \<longleftrightarrow> om_wf (mkp_vector_clock a) \<and> om_wf (mkp_dependencies a)
     \<and> list_all (\<lambda>(k, vc). om_wf vc) (mkp_dependencies a) \<and> distinct (mkp_value a)"

definition mk_view ::
    "'a list MultiKeyCausalPayload \<Rightarrow> (string \<rightharpoonup> u32) \<times> (Key \<rightharpoonup> string \<rightharpoonup> u32) \<times> 'a set" where
  "mk_view a =
     (map_of (mkp_vector_clock a), map_view map_of (mkp_dependencies a), set (mkp_value a))"

lemma fold_dependencies:
  assumes "om_wf (map (\<lambda>(k, vc). (k, to_vector_clock (proto_map vc))) deps)"
  shows "map_of (fold (\<lambda>dep. map_insert vc_merge (kv_key dep) (to_vector_clock (kv_vector_clock dep)))
      (map (\<lambda>(k, vc). \<lparr>kv_key = k, kv_vector_clock = proto_map vc\<rparr>) deps) []) =
    map_of (map (\<lambda>(k, vc). (k, to_vector_clock (proto_map vc))) deps)"
proof -
  let ?deps = "map (\<lambda>(k, vc). (k, to_vector_clock (proto_map vc))) deps"
  have "fold (\<lambda>dep. map_insert vc_merge (kv_key dep) (to_vector_clock (kv_vector_clock dep)))
      (map (\<lambda>(k, vc). \<lparr>kv_key = k, kv_vector_clock = proto_map vc\<rparr>) deps) acc =
    map_do_merge vc_merge acc ?deps" for acc
    by (induction deps arbitrary: acc) (auto simp: map_do_merge_def map_insert_def)
  then show ?thesis
    using map_of_map_do_merge [OF assms, of vc_merge "[]"] by (auto split: option.splits)
qed

lemma map_of_decoded_dependencies:
  assumes "list_all (\<lambda>(k, vc). om_wf vc) deps"
  shows "map_view map_of (map (\<lambda>(k, vc). (k, to_vector_clock (proto_map vc))) deps) =
    map_view map_of deps"
proof
  fix k
  show "map_view map_of (map (\<lambda>(k, vc). (k, to_vector_clock (proto_map vc))) deps) k =
      map_view map_of deps k"
    using assms
    by (induction deps)
      (auto simp: map_view_def map_of_to_vector_clock om_wf_proto_map map_of_proto_map)
qed

text \<open>
  A multi-key causal value is read back from its encoding: vector clock, dependencies with
  their clocks, and the set of values are those that were serialised, although the decoder
  rebuilds every map by merging.
\<close>

theorem multi_key_causal_roundtrip:
  assumes parse_ser: "\<And>m. parse_MultiKeyCausalValue C (ser_MultiKeyCausalValue C m) = (True, m)"
    and "mk_inv l"
  shows "mk_view (to_multi_key_causal_payload
      (deserialize_multi_key_causal C (serialize_multi_key_causal C l))) = mk_view l"
proof -
  have fst: "map fst (map (\<lambda>(k, vc). (k, to_vector_clock (proto_map vc))) (mkp_dependencies l)) =
      map fst (mkp_dependencies l)"
    by auto
  have wf: "om_wf (map (\<lambda>(k, vc). (k, to_vector_clock (proto_map vc))) (mkp_dependencies l))"
    using assms(2) unfolding mk_inv_def om_wf_def fst by simp
  show ?thesis
    using assms(2) fold_dependencies [OF wf] map_of_decoded_dependencies [of "mkp_dependencies l"]
    by (simp add: mk_view_def mk_inv_def to_multi_key_causal_payload_def map_view_def
        deserialize_multi_key_causal_def serialize_multi_key_causal_def parse_ser
        map_of_to_vector_clock om_wf_proto_map map_of_proto_map)
qed

theorem multi_key_causal_roundtrip_witness:
  "mk_view (to_multi_key_causal_payload (deserialize_multi_key_causal wire_codec
     (serialize_multi_key_causal wire_codec
       \<lparr>mkp_vector_clock = [(''c1'', 3), (''c2'', 1)],
        mkp_dependencies = [(''k'', [(''c1'', 2)])], mkp_value = [''a'', ''b'']\<rparr>))) =
   mk_view \<lparr>mkp_vector_clock = [(''c1'', 3), (''c2'', 1)],
     mkp_dependencies = [(''k'', [(''c1'', 2)])], mkp_value = [''a'', ''b'']\<rparr>"
  by (rule multi_key_causal_roundtrip) (simp_all add: mk_inv_def om_wf_def)

end
