(* ===== verification/Anna_KVStore.thy ===== *)
theory Anna_KVStore
  imports Anna_Common
begin

text \<open>
  The in-memory storage of a server thread: \<^verbatim>\<open>KVStore\<close> (\<^verbatim>\<open>include/kvs/base_kv_store.hpp\<close>), a map
  from keys to lattices, and the six memory serializers of \<^verbatim>\<open>include/kvs/server_utils.hpp\<close> that
  translate encoded payloads to lattice operations on it. The record \<open>serializer\<close> is the abstract
  class \<^verbatim>\<open>Serializer\<close> over a store type, so that the request handlers can be stated for any store.

  The lemmas show what every store operation does to the value of each key, that a store of
  mergeable lattices reaches the same values from every order and repetition of the same puts,
  and that a get returns what the puts have merged.
\<close>

section \<open>\<^verbatim>\<open>KVStore\<close>\<close>

definition kvs_get ::
    "'v \<Rightarrow> (Key, 'v) omap \<Rightarrow> Key \<Rightarrow> AnnaError \<Rightarrow> 'v \<times> AnnaError \<times> (Key, 'v) omap" where
  "kvs_get dflt db k error =
     (let error = (if \<not> map_contains db k then KEY_DNE else error);
          (v, db) = map_at dflt db k
      in (v, error, db))"

definition kvs_put ::
    "('v \<Rightarrow> 'v \<Rightarrow> 'v) \<Rightarrow> 'v \<Rightarrow> (Key, 'v) omap \<Rightarrow> Key \<Rightarrow> 'v \<Rightarrow> (Key, 'v) omap" where
  "kvs_put merge dflt db k v = om_modify dflt k (\<lambda>w. merge w v) db"

definition kvs_size :: "('v \<Rightarrow> u32) \<Rightarrow> 'v \<Rightarrow> (Key, 'v) omap \<Rightarrow> Key \<Rightarrow> u32 \<times> (Key, 'v) omap" where
  "kvs_size size_of dflt db k = (let (v, db) = map_at dflt db k in (size_of v, db))"

definition kvs_remove :: "(Key, 'v) omap \<Rightarrow> Key \<Rightarrow> (Key, 'v) omap" where
  "kvs_remove db k = map_remove k db"

section \<open>Serializers\<close>

record 'st serializer =
  sz_get :: "'st \<Rightarrow> Key \<Rightarrow> AnnaError \<Rightarrow> string \<times> AnnaError \<times> 'st"
  sz_put :: "'st \<Rightarrow> Key \<Rightarrow> string \<Rightarrow> u32 \<times> 'st"
  sz_remove :: "'st \<Rightarrow> Key \<Rightarrow> 'st"

type_synonym MemoryLWWKVS = "(Key, string TimestampValuePair) omap"
type_synonym MemorySetKVS = "(Key, string list) omap"
type_synonym MemoryOrderedSetKVS = "(Key, string list) omap"
type_synonym MemorySingleKeyCausalKVS = "(Key, string list VectorClockValuePair) omap"
type_synonym MemoryMultiKeyCausalKVS = "(Key, string list MultiKeyCausalPayload) omap"
type_synonym MemoryPriorityKVS = "(Key, (real, string) PriorityValuePair) omap"

definition MemoryLWWSerializer :: "codec \<Rightarrow> MemoryLWWKVS serializer" where
  "MemoryLWWSerializer C = \<lparr>
     sz_get = (\<lambda>kvs key error.
       let (val, error, kvs) = kvs_get lww_bot kvs key error;
           error = (if tvp_value val = [] then KEY_DNE else error)
       in (serialize_lww C val, error, kvs)),
     sz_put = (\<lambda>kvs key serialized.
       let val = deserialize_lww C serialized;
           kvs = kvs_put lww_do_merge lww_bot kvs key val
       in kvs_size lww_size lww_bot kvs key),
     sz_remove = kvs_remove\<rparr>"

definition MemorySetSerializer :: "codec \<Rightarrow> MemorySetKVS serializer" where
  "MemorySetSerializer C = \<lparr>
     sz_get = (\<lambda>kvs key error.
       let (val, error, kvs) = kvs_get [] kvs key error;
           error = (if set_size val = 0 then KEY_DNE else error)
       in (serialize_set C val, error, kvs)),
     sz_put = (\<lambda>kvs key serialized.
       let sl = deserialize_set C serialized;
           kvs = kvs_put set_do_merge [] kvs key sl
       in kvs_size set_size [] kvs key),
     sz_remove = kvs_remove\<rparr>"

definition MemoryOrderedSetSerializer :: "codec \<Rightarrow> MemoryOrderedSetKVS serializer" where
  "MemoryOrderedSetSerializer C = \<lparr>
     sz_get = (\<lambda>kvs key error.
       let (val, error, kvs) = kvs_get [] kvs key error
       in (serialize_ordered_set C val, error, kvs)),
     sz_put = (\<lambda>kvs key serialized.
       let sl = deserialize_ordered_set C serialized;
           kvs = kvs_put ordered_set_do_merge [] kvs key sl
       in kvs_size set_size [] kvs key),
     sz_remove = kvs_remove\<rparr>"

definition MemorySingleKeyCausalSerializer :: "codec \<Rightarrow> MemorySingleKeyCausalKVS serializer" where
  "MemorySingleKeyCausalSerializer C = \<lparr>
     sz_get = (\<lambda>kvs key error.
       let (val, error, kvs) = kvs_get sk_bot kvs key error;
           error = (if set_size (vcp_value val) = 0 then KEY_DNE else error)
       in (serialize_causal C val, error, kvs)),
     sz_put = (\<lambda>kvs key serialized.
       let causal_value = deserialize_causal C serialized;
           p = to_vector_clock_value_pair causal_value;
           kvs = kvs_put (sk_do_merge set_do_merge) sk_bot kvs key p
       in kvs_size sk_size sk_bot kvs key),
     sz_remove = kvs_remove\<rparr>"

definition MemoryMultiKeyCausalSerializer :: "codec \<Rightarrow> MemoryMultiKeyCausalKVS serializer" where
  "MemoryMultiKeyCausalSerializer C = \<lparr>
     sz_get = (\<lambda>kvs key error.
       let (val, error, kvs) = kvs_get mk_bot kvs key error;
           error = (if set_size (mkp_value val) = 0 then KEY_DNE else error)
       in (serialize_multi_key_causal C val, error, kvs)),
     sz_put = (\<lambda>kvs key serialized.
       let multi_key_causal_value = deserialize_multi_key_causal C serialized;
           p = to_multi_key_causal_payload multi_key_causal_value;
           kvs = kvs_put (mk_do_merge set_do_merge) mk_bot kvs key p
       in kvs_size mk_size mk_bot kvs key),
     sz_remove = kvs_remove\<rparr>"

definition MemoryPrioritySerializer :: "codec \<Rightarrow> MemoryPriorityKVS serializer" where
  "MemoryPrioritySerializer C = \<lparr>
     sz_get = (\<lambda>kvs key error.
       let (val, error, kvs) = kvs_get priority_bot kvs key error;
           error = (if pvp_value val = [] then KEY_DNE else error)
       in (serialize_priority C val, error, kvs)),
     sz_put = (\<lambda>kvs key serialized.
       let val = deserialize_priority C serialized;
           kvs = kvs_put (priority_do_merge (<)) priority_bot kvs key val
       in kvs_size priority_size priority_bot kvs key),
     sz_remove = kvs_remove\<rparr>"

section \<open>The memory store of a server thread\<close>

record mem_store =
  ms_lww :: MemoryLWWKVS
  ms_set :: MemorySetKVS
  ms_ordered_set :: MemoryOrderedSetKVS
  ms_sk_causal :: MemorySingleKeyCausalKVS
  ms_mk_causal :: MemoryMultiKeyCausalKVS
  ms_priority :: MemoryPriorityKVS

definition empty_mem_store :: mem_store where
  "empty_mem_store = \<lparr>ms_lww = [], ms_set = [], ms_ordered_set = [], ms_sk_causal = [],
     ms_mk_causal = [], ms_priority = []\<rparr>"

definition on_part :: "('st \<Rightarrow> 'p) \<Rightarrow> ('p \<Rightarrow> 'st \<Rightarrow> 'st) \<Rightarrow> 'p serializer \<Rightarrow> 'st serializer" where
  "on_part part put_part sz = \<lparr>
     sz_get = (\<lambda>s key error. let (r, e, p) = sz_get sz (part s) key error in (r, e, put_part p s)),
     sz_put = (\<lambda>s key x. let (n, p) = sz_put sz (part s) key x in (n, put_part p s)),
     sz_remove = (\<lambda>s key. put_part (sz_remove sz (part s) key) s)\<rparr>"

type_synonym 'st SerializerMap = "LatticeType \<Rightarrow> 'st serializer option"

definition memory_serializers :: "codec \<Rightarrow> mem_store SerializerMap" where
  "memory_serializers C type = (case type of
     LWW \<Rightarrow> Some (on_part ms_lww (\<lambda>p s. s\<lparr>ms_lww := p\<rparr>) (MemoryLWWSerializer C))
   | SET \<Rightarrow> Some (on_part ms_set (\<lambda>p s. s\<lparr>ms_set := p\<rparr>) (MemorySetSerializer C))
   | ORDERED_SET \<Rightarrow>
       Some (on_part ms_ordered_set (\<lambda>p s. s\<lparr>ms_ordered_set := p\<rparr>) (MemoryOrderedSetSerializer C))
   | SINGLE_CAUSAL \<Rightarrow>
       Some (on_part ms_sk_causal (\<lambda>p s. s\<lparr>ms_sk_causal := p\<rparr>) (MemorySingleKeyCausalSerializer C))
   | MULTI_CAUSAL \<Rightarrow>
       Some (on_part ms_mk_causal (\<lambda>p s. s\<lparr>ms_mk_causal := p\<rparr>) (MemoryMultiKeyCausalSerializer C))
   | PRIORITY \<Rightarrow>
       Some (on_part ms_priority (\<lambda>p s. s\<lparr>ms_priority := p\<rparr>) (MemoryPrioritySerializer C))
   | NONE \<Rightarrow> None)"

section \<open>What the store operations do\<close>

lemma kvs_get_simp:
  "kvs_get dflt db k e = (om_at dflt db k, if k \<in> dom (map_of db) then e else KEY_DNE, om_touch dflt k db)"
  by (simp add: kvs_get_def map_at_def map_contains_iff)

lemma kvs_size_simp: "kvs_size f dflt db k = (f (om_at dflt db k), om_touch dflt k db)"
  by (simp add: kvs_size_def map_at_def)

lemma om_at_kvs_put [simp]:
  "om_at dflt (kvs_put mrg dflt db k v) k' =
     (if k' = k then mrg (om_at dflt db k) v else om_at dflt db k')"
  by (simp add: kvs_put_def)

lemma om_at_kvs_remove [simp]:
  "om_at dflt (kvs_remove db k) k' = (if k' = k then dflt else om_at dflt db k')"
  by (simp add: kvs_remove_def om_at_def)

definition sz_puts :: "'st serializer \<Rightarrow> 'st \<Rightarrow> (Key \<times> string) list \<Rightarrow> 'st" where
  "sz_puts sz s us = foldl (\<lambda>s (k, p). snd (sz_put sz s k p)) s us"

lemma sz_puts_simps [simp]:
  "sz_puts sz s [] = s"
  "sz_puts sz s ((k, p) # us) = sz_puts sz (snd (sz_put sz s k p)) us"
  by (simp_all add: sz_puts_def)

definition updates_of :: "Key \<Rightarrow> (Key \<times> string) list \<Rightarrow> string list" where
  "updates_of k us = map snd (filter (\<lambda>u. fst u = k) us)"

lemma updates_of_simps [simp]:
  "updates_of k [] = []"
  "updates_of k ((k', p) # us) = (if k' = k then p # updates_of k us else updates_of k us)"
  by (simp_all add: updates_of_def)

lemma set_updates_of [simp]: "set (updates_of k us) = {p. (k, p) \<in> set us}"
  by (force simp: updates_of_def)

section \<open>The contract of a serializer\<close>

text \<open>
  A serializer over a store holds a lattice value for every key: a put merges the decoded payload
  into it, a get changes nothing, a remove resets it to the default.
\<close>

locale lattice_store = mergeable inv view compat mrg
  for inv :: "'a \<Rightarrow> bool" and view :: "'a \<Rightarrow> 'b" and compat and mrg +
  fixes sz :: "'st serializer"
    and ok :: "'st \<Rightarrow> bool"
    and val :: "'st \<Rightarrow> Key \<Rightarrow> 'a"
    and dec :: "string \<Rightarrow> 'a"
    and dflt :: 'a
  assumes inv_val: "ok s \<Longrightarrow> inv (val s k)"
    and inv_dec: "inv (dec p)"
    and put_ok: "ok s \<Longrightarrow> ok (snd (sz_put sz s k p))"
    and put_val: "ok s \<Longrightarrow> val (snd (sz_put sz s k p)) = (val s)(k := mrg (val s k) (dec p))"
    and get_ok: "ok s \<Longrightarrow> ok (snd (snd (sz_get sz s k e)))"
    and get_val: "ok s \<Longrightarrow> val (snd (snd (sz_get sz s k e))) = val s"
    and remove_ok: "ok s \<Longrightarrow> ok (sz_remove sz s k)"
    and remove_val: "ok s \<Longrightarrow> val (sz_remove sz s k) = (val s)(k := dflt)"
begin

lemma puts_ok: "ok s \<Longrightarrow> ok (sz_puts sz s us)"
  by (induction us arbitrary: s) (auto simp: put_ok)

lemma puts_val: "ok s \<Longrightarrow> val (sz_puts sz s us) k = foldl mrg (val s k) (map dec (updates_of k us))"
  by (induction us arbitrary: s) (auto simp: put_ok put_val)

lemma store_convergence:
  assumes "ok s" "set us = set vs"
    and "\<And>k p q. (k, p) \<in> set us \<Longrightarrow> (k, q) \<in> set us \<Longrightarrow> compat (dec p) (dec q)"
  shows "view (val (sz_puts sz s us) k) = view (val (sz_puts sz s vs) k)"
  unfolding puts_val [OF assms(1)]
  using assms by (intro convergence) (auto simp: inv_val inv_dec list_all_iff)

text \<open>A replica that receives another replica's value has received the updates behind it.\<close>

lemma store_gossip:
  assumes "ok s" "dec payload = val (sz_puts sz s vs) k"
    and "\<And>p q. (k, p) \<in> set us \<Longrightarrow> (k, q) \<in> set us \<Longrightarrow> compat (dec p) (dec q)"
    and "\<And>p. (k, p) \<in> set us \<Longrightarrow> compat (dec p) (val s k) \<and> compat (val s k) (dec p)"
    and "compat (val s k) (val s k)"
  shows "view (val (snd (sz_put sz (sz_puts sz s us) k payload)) k) = view (val (sz_puts sz s (us @ vs)) k)"
proof -
  have "val (snd (sz_put sz (sz_puts sz s us) k payload)) k =
      mrg (val (sz_puts sz s us) k) (val (sz_puts sz s vs) k)"
    using assms by (simp add: put_val puts_ok)
  also have "view \<dots> = view (foldl mrg (val s k) (map dec (updates_of k us) @ map dec (updates_of k vs)))"
    unfolding puts_val [OF assms(1)]
    using assms by (intro merge_replica) (auto simp: inv_val inv_dec list_all_iff)
  finally show ?thesis
    using assms(1) by (simp add: puts_val updates_of_def)
qed

end

context lattice_store
begin

lemma part_store:
  assumes "\<And>p s. part (put_part p s) = p"
  shows "lattice_store inv view compat mrg (on_part part put_part sz) (\<lambda>s. ok (part s))
    (\<lambda>s. val (part s)) dec dflt"
  using assms
  by unfold_locales
    (auto simp: on_part_def split_beta inv_val inv_dec put_ok put_val get_ok get_val
      remove_ok remove_val)

end

context mergeable
begin

lemma map_inv_at: "inv dflt \<Longrightarrow> map_inv inv m \<Longrightarrow> inv (om_at dflt m k)"
  by (cases "map_of m k") (auto simp: map_inv_def om_at_def)

lemma map_inv_touch: "inv dflt \<Longrightarrow> map_inv inv m \<Longrightarrow> map_inv inv (om_touch dflt k m)"
  using map_inv_at [of dflt m k] by (auto simp: map_inv_def map_of_touch split: if_splits)

lemma map_inv_kvs_put:
  "inv dflt \<Longrightarrow> inv v \<Longrightarrow> map_inv inv m \<Longrightarrow> map_inv inv (kvs_put mrg dflt m k v)"
  using map_inv_at [of dflt m k]
  by (auto simp: map_inv_def kvs_put_def inv_mrg split: if_splits)

lemma map_inv_kvs_remove: "map_inv inv m \<Longrightarrow> map_inv inv (kvs_remove m k)"
  by (auto simp: map_inv_def kvs_remove_def)

text \<open>Every serializer that merges into a \<^verbatim>\<open>KVStore\<close> of mergeable lattices meets the contract.\<close>

lemma kvs_store:
  assumes "inv dflt" "\<And>p. inv (dec p)"
    and "\<And>s k p. snd (sz_put sz s k p) = om_touch dflt k (kvs_put mrg dflt s k (dec p))"
    and "\<And>s k e. snd (snd (sz_get sz s k e)) = om_touch dflt k s"
    and "sz_remove sz = kvs_remove"
  shows "lattice_store inv view compat mrg sz (map_inv inv) (om_at dflt) dec dflt"
  using assms
  by unfold_locales
    (auto simp: map_inv_at map_inv_touch map_inv_kvs_put map_inv_kvs_remove)

end

section \<open>The memory serializers meet the contract\<close>

lemmas sz_simps = kvs_get_simp kvs_size_simp split_beta Let_def

interpretation lww_store: lattice_store
  "\<lambda>_. True" id lww_compat lww_do_merge
  "on_part ms_lww (\<lambda>p s. s\<lparr>ms_lww := p\<rparr>) (MemoryLWWSerializer C)"
  "\<lambda>s. map_inv (\<lambda>_. True) (ms_lww s)" "\<lambda>s. om_at lww_bot (ms_lww s)" "deserialize_lww C" lww_bot
  for C
  by (rule lattice_store.part_store, rule lww_lattice.kvs_store)
    (simp_all add: MemoryLWWSerializer_def sz_simps)

interpretation set_store: lattice_store
  distinct set "\<lambda>_ _. True" set_do_merge
  "on_part ms_set (\<lambda>p s. s\<lparr>ms_set := p\<rparr>) (MemorySetSerializer C)"
  "\<lambda>s. map_inv distinct (ms_set s)" "\<lambda>s. om_at [] (ms_set s)" "deserialize_set C" "[]"
  for C
  by (rule lattice_store.part_store, rule set_lattice.kvs_store)
    (simp_all add: MemorySetSerializer_def sz_simps deserialize_set_def distinct_fold_insert)

interpretation ordered_set_store: lattice_store
  "\<lambda>a. sorted a \<and> distinct a" id "\<lambda>_ _. True" ordered_set_do_merge
  "on_part ms_ordered_set (\<lambda>p s. s\<lparr>ms_ordered_set := p\<rparr>) (MemoryOrderedSetSerializer C)"
  "\<lambda>s. map_inv (\<lambda>a. sorted a \<and> distinct a) (ms_ordered_set s)"
  "\<lambda>s. om_at [] (ms_ordered_set s)" "deserialize_ordered_set C" "[]"
  for C
  by (rule lattice_store.part_store, rule ordered_set_lattice.kvs_store)
    (simp_all add: MemoryOrderedSetSerializer_def sz_simps deserialize_ordered_set_def
      sorted_distinct_fold_insort_insert)

interpretation priority_store: lattice_store
  "\<lambda>_. True" id priority_compat "priority_do_merge (<)"
  "on_part ms_priority (\<lambda>p s. s\<lparr>ms_priority := p\<rparr>) (MemoryPrioritySerializer C)"
  "\<lambda>s. map_inv (\<lambda>_. True) (ms_priority s)" "\<lambda>s. om_at priority_bot (ms_priority s)"
  "deserialize_priority C" priority_bot
  for C
  by (rule lattice_store.part_store, rule priority_lattice.kvs_store)
    (simp_all add: MemoryPrioritySerializer_def sz_simps)

section \<open>Replicas of a memory store\<close>

definition reply :: "string \<times> AnnaError \<times> 'st \<Rightarrow> string \<times> AnnaError" where
  "reply r = (fst r, fst (snd r))"

lemma lww_reply:
  "memory_serializers C LWW = Some sz \<Longrightarrow>
   reply (sz_get sz s k e) =
     (let v = om_at lww_bot (ms_lww s) k
      in (serialize_lww C v, if tvp_value v = [] then KEY_DNE else e))"
  by (auto simp: memory_serializers_def on_part_def MemoryLWWSerializer_def sz_simps reply_def
      om_at_def lww_bot_def split: option.splits)

lemma set_reply:
  "memory_serializers C SET = Some sz \<Longrightarrow>
   reply (sz_get sz s k e) =
     (let v = om_at [] (ms_set s) k
      in (serialize_set C v, if set_size v = 0 then KEY_DNE else e))"
  by (auto simp: memory_serializers_def on_part_def MemorySetSerializer_def sz_simps reply_def
      om_at_def set_size_def split: option.splits)

text \<open>
  C39. Two memory replicas that start alike and receive the same last-writer-wins updates, in any
  order and with any repetitions, answer every read alike, provided that no two different updates
  of a key carry the same timestamp.
\<close>

theorem lww_replicas_converge:
  assumes sz: "memory_serializers C LWW = Some sz"
    and "om_wf (ms_lww s)" "set us = set vs"
    and no_ties: "\<And>k p q. (k, p) \<in> set us \<Longrightarrow> (k, q) \<in> set us \<Longrightarrow>
      lww_compat (deserialize_lww C p) (deserialize_lww C q)"
  shows "reply (sz_get sz (sz_puts sz s us) k e) = reply (sz_get sz (sz_puts sz s vs) k e)"
proof -
  have sz_eq: "sz = on_part ms_lww (\<lambda>p s. s\<lparr>ms_lww := p\<rparr>) (MemoryLWWSerializer C)"
    using sz by (simp add: memory_serializers_def)
  have "om_at lww_bot (ms_lww (sz_puts sz s us)) k = om_at lww_bot (ms_lww (sz_puts sz s vs)) k"
    using lww_store.store_convergence [of s us vs C k] assms(2-4)
    by (simp add: sz_eq map_inv_def)
  then show ?thesis
    by (simp add: lww_reply [OF sz])
qed

theorem lww_replicas_converge_witness:
  "let a = serialize_timestamped wire_codec 1 ''a''; b = serialize_timestamped wire_codec 2 ''b'';
       sz = the (memory_serializers wire_codec LWW)
   in reply (sz_get sz (sz_puts sz empty_mem_store [(''k'', a), (''k'', b)]) ''k'' NO_ERROR) =
      reply (sz_get sz (sz_puts sz empty_mem_store [(''k'', b), (''k'', a), (''k'', b)]) ''k'' NO_ERROR)"
  unfolding Let_def
  by (rule lww_replicas_converge [of wire_codec])
    (auto simp: memory_serializers_def empty_mem_store_def serialize_timestamped_def
      deserialize_lww_def lww_compat_def)

text \<open>
  Gossip brings a replica up to date: a last-writer-wins replica that stores the payload read
  from another replica answers reads of the key as if it had itself received the updates of both.
\<close>

theorem lww_gossip_delivers:
  assumes sz: "memory_serializers C LWW = Some sz"
    and parse_ser: "\<And>m. parse_LWWValue C (ser_LWWValue C m) = (True, m)"
    and "om_wf (ms_lww s)" "k \<notin> dom (map_of (ms_lww s))"
    and no_ties: "\<And>p q. (k, p) \<in> set us \<Longrightarrow> (k, q) \<in> set us \<Longrightarrow>
      lww_compat (deserialize_lww C p) (deserialize_lww C q)"
    and positive: "\<And>p. (k, p) \<in> set us \<Longrightarrow> tvp_timestamp (deserialize_lww C p) > 0"
    and payload: "payload = fst (sz_get sz (sz_puts sz s vs) k e)"
  shows "reply (sz_get sz (snd (sz_put sz (sz_puts sz s us) k payload)) k e') =
    reply (sz_get sz (sz_puts sz s (us @ vs)) k e')"
proof -
  have sz_eq: "sz = on_part ms_lww (\<lambda>p s. s\<lparr>ms_lww := p\<rparr>) (MemoryLWWSerializer C)"
    using sz by (simp add: memory_serializers_def)
  have bot: "om_at lww_bot (ms_lww s) k = lww_bot"
    using assms(4) by (simp add: om_at_def domIff)
  have "deserialize_lww C payload = om_at lww_bot (ms_lww (sz_puts sz s vs)) k"
    using lww_reply [OF sz, of "sz_puts sz s vs" k e] payload
    by (simp add: reply_def Let_def deserialize_lww_serialize parse_ser)
  moreover have "lww_compat (deserialize_lww C p) lww_bot \<and> lww_compat lww_bot (deserialize_lww C p)"
    if "(k, p) \<in> set us" for p
    using positive [OF that] by (simp add: lww_compat_def lww_bot_def)
  ultimately have "om_at lww_bot (ms_lww (snd (sz_put sz (sz_puts sz s us) k payload))) k =
      om_at lww_bot (ms_lww (sz_puts sz s (us @ vs))) k"
    using lww_store.store_gossip [of s C payload vs k us] assms(3) no_ties bot
    by (simp add: sz_eq map_inv_def) (simp add: lww_compat_def)
  then show ?thesis
    by (simp add: lww_reply [OF sz])
qed

theorem lww_gossip_delivers_witness:
  "let a = serialize_timestamped wire_codec 1 ''a''; b = serialize_timestamped wire_codec 2 ''b'';
       sz = the (memory_serializers wire_codec LWW);
       payload = fst (sz_get sz (sz_puts sz empty_mem_store [(''k'', b)]) ''k'' NO_ERROR)
   in reply (sz_get sz (snd (sz_put sz (sz_puts sz empty_mem_store [(''k'', a)]) ''k'' payload))
          ''k'' NO_ERROR) =
      reply (sz_get sz (sz_puts sz empty_mem_store ([(''k'', a)] @ [(''k'', b)])) ''k'' NO_ERROR)"
  unfolding Let_def
  by (rule lww_gossip_delivers [of wire_codec, OF _ _ _ _ _ _ refl])
    (auto simp: memory_serializers_def empty_mem_store_def serialize_timestamped_def
      deserialize_lww_def lww_compat_def)

text \<open>
  Two memory replicas that start alike and receive the same set updates, in any order and
  with any repetitions, answer every read with the same error and the same set of elements.
\<close>

theorem set_replicas_converge:
  assumes sz: "memory_serializers C SET = Some sz"
    and parse_ser: "\<And>m. parse_SetValue C (ser_SetValue C m) = (True, m)"
    and inv: "map_inv distinct (ms_set s)" and "set us = set vs"
  shows "let r = reply (sz_get sz (sz_puts sz s us) k e); r' = reply (sz_get sz (sz_puts sz s vs) k e)
    in snd r = snd r' \<and> set (deserialize_set C (fst r)) = set (deserialize_set C (fst r'))"
proof -
  have sz_eq: "sz = on_part ms_set (\<lambda>p s. s\<lparr>ms_set := p\<rparr>) (MemorySetSerializer C)"
    using sz by (simp add: memory_serializers_def)
  let ?v = "om_at [] (ms_set (sz_puts sz s us)) k" and ?w = "om_at [] (ms_set (sz_puts sz s vs)) k"
  have "set ?v = set ?w"
    using set_store.store_convergence [of s us vs C k] inv assms(4) by (simp add: sz_eq)
  moreover have "distinct ?v" "distinct ?w"
    using set_store.inv_val [OF set_store.puts_ok [OF inv]] by (simp_all add: sz_eq)
  ultimately have "set_size ?v = set_size ?w"
    unfolding set_size_def by (metis distinct_card)
  then show ?thesis
    using \<open>set ?v = set ?w\<close>
    by (simp add: set_reply [OF sz] Let_def deserialize_set_serialize parse_ser)
qed

theorem set_replicas_converge_witness:
  "let a = serialize_set wire_codec [''x'', ''y'']; b = serialize_set wire_codec [''z''];
       sz = the (memory_serializers wire_codec SET);
       r = reply (sz_get sz (sz_puts sz empty_mem_store [(''k'', a), (''k'', b)]) ''k'' NO_ERROR);
       r' = reply (sz_get sz (sz_puts sz empty_mem_store [(''k'', b), (''k'', a), (''k'', b)]) ''k'' NO_ERROR)
   in snd r = snd r' \<and> set (deserialize_set wire_codec (fst r)) = set (deserialize_set wire_codec (fst r'))"
  using set_replicas_converge [of wire_codec "the (memory_serializers wire_codec SET)" empty_mem_store
      "[(''k'', serialize_set wire_codec [''x'', ''y'']), (''k'', serialize_set wire_codec [''z''])]"
      "[(''k'', serialize_set wire_codec [''z'']), (''k'', serialize_set wire_codec [''x'', ''y'']),
        (''k'', serialize_set wire_codec [''z''])]" "''k''" NO_ERROR]
  by (simp add: Let_def memory_serializers_def empty_mem_store_def map_inv_def insert_commute)

text \<open>
  A read of a missing key leaves a default entry behind. Every serializer but the ordered-set one
  also tests the value for emptiness, so only there does a second read of the missing key succeed.
\<close>

lemma ordered_set_second_read_succeeds:
  assumes "memory_serializers C ORDERED_SET = Some sz" "k \<notin> dom (map_of (ms_ordered_set s))"
  shows "fst (snd (sz_get sz s k NO_ERROR)) = KEY_DNE
    \<and> fst (snd (sz_get sz (snd (snd (sz_get sz s k NO_ERROR))) k NO_ERROR)) = NO_ERROR"
  using assms
  by (auto simp: memory_serializers_def on_part_def MemoryOrderedSetSerializer_def sz_simps map_of_touch)

text \<open>
  The default priority is the largest \<^verbatim>\<open>int\<close>. A first put with at least that priority is dropped.
\<close>

lemma priority_put_dropped:
  assumes "memory_serializers C PRIORITY = Some sz" "k \<notin> dom (map_of (ms_priority s))"
    and "pvp_priority (deserialize_priority C p) \<ge> 2147483647"
  shows "om_at priority_bot (ms_priority (snd (sz_put sz s k p))) k = priority_bot"
proof -
  have "om_at priority_bot (ms_priority s) k = priority_bot"
    using assms(2) by (simp add: om_at_def domIff)
  then show ?thesis
    using assms(1,3)
    by (auto simp: memory_serializers_def on_part_def MemoryPrioritySerializer_def sz_simps
        priority_do_merge_def priority_bot_def)
qed

section \<open>The interface of a storage backend\<close>

text \<open>
  What the server relies on: a write makes the key held under its type and keeps what is held, a
  read of a held key leaves the store alone, and no read or removal of another key makes a held
  key disappear.
\<close>

locale kv_backend =
  fixes backend :: "'st SerializerMap"
    and holds :: "LatticeType \<Rightarrow> 'st \<Rightarrow> Key \<Rightarrow> bool"
  assumes get_pure: "backend t = Some sz \<Longrightarrow> holds t st k \<Longrightarrow> snd (snd (sz_get sz st k e)) = st"
    and get_keeps: "backend t = Some sz \<Longrightarrow> holds t' st k' \<Longrightarrow> holds t' (snd (snd (sz_get sz st k e))) k'"
    and put_holds: "backend t = Some sz \<Longrightarrow> holds t (snd (sz_put sz st k x)) k"
    and put_keeps: "backend t = Some sz \<Longrightarrow> holds t' st k' \<Longrightarrow> holds t' (snd (sz_put sz st k x)) k'"
    and remove_keeps: "backend t = Some sz \<Longrightarrow> holds t' st k' \<Longrightarrow> k' \<noteq> k
      \<Longrightarrow> holds t' (sz_remove sz st k) k'"

definition om_has :: "('k, 'v) omap \<Rightarrow> 'k \<Rightarrow> bool" where
  "om_has m k \<longleftrightarrow> map_of m k \<noteq> None"

definition mem_holds :: "LatticeType \<Rightarrow> mem_store \<Rightarrow> Key \<Rightarrow> bool" where
  "mem_holds t st k = (case t of
     LWW \<Rightarrow> om_has (ms_lww st) k
   | SET \<Rightarrow> om_has (ms_set st) k
   | ORDERED_SET \<Rightarrow> om_has (ms_ordered_set st) k
   | SINGLE_CAUSAL \<Rightarrow> om_has (ms_sk_causal st) k
   | MULTI_CAUSAL \<Rightarrow> om_has (ms_mk_causal st) k
   | PRIORITY \<Rightarrow> om_has (ms_priority st) k
   | NONE \<Rightarrow> False)"

lemmas memory_serializer_defs = memory_serializers_def MemoryLWWSerializer_def MemorySetSerializer_def
  MemoryOrderedSetSerializer_def MemorySingleKeyCausalSerializer_def MemoryMultiKeyCausalSerializer_def
  MemoryPrioritySerializer_def

lemma om_touch_present: "om_has m k \<Longrightarrow> om_touch d k m = m"
  by (auto simp: om_has_def om_touch_def)

lemma om_has_touch: "om_has (om_touch d k m) k' \<longleftrightarrow> k' = k \<or> om_has m k'"
  by (auto simp: om_has_def om_touch_def map_add_def split: option.splits)

lemma om_has_kvs_put: "om_has (kvs_put mrg d db k v) k' \<longleftrightarrow> k' = k \<or> om_has db k'"
  by (simp add: om_has_def kvs_put_def)

lemma om_has_kvs_remove: "om_has (kvs_remove db k) k' \<longleftrightarrow> k' \<noteq> k \<and> om_has db k'"
  by (auto simp: om_has_def kvs_remove_def map_remove_def map_contains_iff delete_conv')

lemmas backend_simps = memory_serializer_defs on_part_def mem_holds_def kvs_get_simp kvs_size_simp
  om_touch_present om_has_touch om_has_kvs_put om_has_kvs_remove Let_def

interpretation mem_backend: kv_backend "memory_serializers C" mem_holds for C
proof (unfold_locales, goal_cases)
  case (1 t sz st k e)
  then show ?case by (cases t) (auto simp: backend_simps)
next
  case (2 t sz t' st k' k e)
  then show ?case by (cases t; cases t') (auto simp: backend_simps)
next
  case (3 t sz st k x)
  then show ?case by (cases t) (auto simp: backend_simps)
next
  case (4 t sz t' st k' k x)
  then show ?case by (cases t; cases t') (auto simp: backend_simps)
next
  case (5 t sz t' st k' k)
  then show ?case by (cases t; cases t') (auto simp: backend_simps)
qed

end
