(* ===== verification/Anna_Threads.thy ===== *)
theory Anna_Threads
  imports Anna_Prelude
begin

text \<open>
  The thread descriptors of \<^verbatim>\<open>common/include/threads.hpp\<close> and \<^verbatim>\<open>include/kvs_threads.hpp\<close>: the
  identities of server, routing, monitoring, cache, user and benchmark threads and the ZeroMQ
  addresses they bind and connect to. A \<^verbatim>\<open>ServerThread\<close> is compared by its \<^verbatim>\<open>id()\<close>, the private
  address and the thread number; the lemmas show that this identity is injective, that addresses
  of one kind determine the thread, and that the listening ports of one node are disjoint for up
  to fifty worker threads.
\<close>

section \<open>Ports\<close>

definition kKeyAddressPort :: u32 where
  "kKeyAddressPort = 6450"

definition kUserResponsePort :: u32 where
  "kUserResponsePort = 6800"

definition kUserKeyAddressPort :: u32 where
  "kUserKeyAddressPort = 6850"

definition kCacheUpdatePort :: u32 where
  "kCacheUpdatePort = 7150"

definition kNodeJoinPort :: u32 where
  "kNodeJoinPort = 6000"

definition kNodeDepartPort :: u32 where
  "kNodeDepartPort = 6050"

definition kSelfDepartPort :: u32 where
  "kSelfDepartPort = 6100"

definition kServerReplicationResponsePort :: u32 where
  "kServerReplicationResponsePort = 6150"

definition kKeyRequestPort :: u32 where
  "kKeyRequestPort = 6200"

definition kGossipPort :: u32 where
  "kGossipPort = 6250"

definition kServerReplicationChangePort :: u32 where
  "kServerReplicationChangePort = 6300"

definition kCacheIpResponsePort :: u32 where
  "kCacheIpResponsePort = 7050"

definition kManagementNodeResponsePort :: u32 where
  "kManagementNodeResponsePort = 7100"

definition kSeedPort :: u32 where
  "kSeedPort = 6350"

definition kRoutingNotifyPort :: u32 where
  "kRoutingNotifyPort = 6400"

definition kRoutingReplicationResponsePort :: u32 where
  "kRoutingReplicationResponsePort = 6500"

definition kRoutingReplicationChangePort :: u32 where
  "kRoutingReplicationChangePort = 6550"

definition kMonitoringNotifyPort :: u32 where
  "kMonitoringNotifyPort = 6600"

definition kMonitoringResponsePort :: u32 where
  "kMonitoringResponsePort = 6650"

definition kDepartDonePort :: u32 where
  "kDepartDonePort = 6700"

definition kFeedbackReportPort :: u32 where
  "kFeedbackReportPort = 6750"

definition kBenchmarkCommandPort :: u32 where
  "kBenchmarkCommandPort = 6900"

definition kKopsRestartCountPort :: u32 where
  "kKopsRestartCountPort = 7000"

definition kKopsFuncNodesPort :: u32 where
  "kKopsFuncNodesPort = 7002"

definition kBindBase :: string where
  "kBindBase = ''tcp://*:''"

definition tcp_base :: "Address \<Rightarrow> Address" where
  "tcp_base ip = ''tcp://'' @ ip @ '':''"

section \<open>Server threads\<close>

text \<open>
  The three-argument constructor leaves \<^verbatim>\<open>virtual_num_\<close> uninitialised, which is \<^const>\<open>None\<close>
  here. Only threads made by the four-argument constructor are hashed onto a ring.
\<close>

record ServerThread =
  st_public_ip :: Address
  st_private_ip :: Address
  st_tid :: u32
  st_virtual_num :: "u32 option"

definition server_thread :: "Address \<Rightarrow> Address \<Rightarrow> u32 \<Rightarrow> ServerThread" where
  "server_thread public_ip private_ip tid =
     \<lparr>st_public_ip = public_ip, st_private_ip = private_ip, st_tid = tid, st_virtual_num = None\<rparr>"

definition server_thread_v :: "Address \<Rightarrow> Address \<Rightarrow> u32 \<Rightarrow> u32 \<Rightarrow> ServerThread" where
  "server_thread_v public_ip private_ip tid virtual_num =
     \<lparr>st_public_ip = public_ip, st_private_ip = private_ip, st_tid = tid,
      st_virtual_num = Some virtual_num\<rparr>"

definition st_id :: "ServerThread \<Rightarrow> string" where
  "st_id st = st_private_ip st @ CHR '':'' # to_string (st_tid st)"

definition st_virtual_id :: "ServerThread \<Rightarrow> string" where
  "st_virtual_id st = st_private_ip st @ CHR '':'' # to_string (st_tid st) @ CHR ''_'' #
     (case st_virtual_num st of None \<Rightarrow> [] | Some n \<Rightarrow> to_string n)"

definition st_eq :: "ServerThread \<Rightarrow> ServerThread \<Rightarrow> bool" where
  "st_eq l r \<longleftrightarrow> st_id l = st_id r"

definition st_mem :: "ServerThread \<Rightarrow> ServerThread list \<Rightarrow> bool" where
  "st_mem st threads \<longleftrightarrow> list_ex (\<lambda>t. st_eq t st) threads"

definition st_set_insert :: "ServerThread \<Rightarrow> ServerThread list \<Rightarrow> ServerThread list" where
  "st_set_insert st threads = (if st_mem st threads then threads else threads @ [st])"

definition st_set_erase :: "ServerThread \<Rightarrow> ServerThread list \<Rightarrow> ServerThread list" where
  "st_set_erase st threads = filter (\<lambda>t. \<not> st_eq t st) threads"

definition node_join_connect_address :: "ServerThread \<Rightarrow> Address" where
  "node_join_connect_address st = tcp_base (st_private_ip st) @ to_string (st_tid st + kNodeJoinPort)"

definition node_join_bind_address :: "ServerThread \<Rightarrow> Address" where
  "node_join_bind_address st = kBindBase @ to_string (st_tid st + kNodeJoinPort)"

definition node_depart_connect_address :: "ServerThread \<Rightarrow> Address" where
  "node_depart_connect_address st = tcp_base (st_private_ip st) @ to_string (st_tid st + kNodeDepartPort)"

definition node_depart_bind_address :: "ServerThread \<Rightarrow> Address" where
  "node_depart_bind_address st = kBindBase @ to_string (st_tid st + kNodeDepartPort)"

definition self_depart_connect_address :: "ServerThread \<Rightarrow> Address" where
  "self_depart_connect_address st = tcp_base (st_private_ip st) @ to_string (st_tid st + kSelfDepartPort)"

definition self_depart_bind_address :: "ServerThread \<Rightarrow> Address" where
  "self_depart_bind_address st = kBindBase @ to_string (st_tid st + kSelfDepartPort)"

definition key_request_connect_address :: "ServerThread \<Rightarrow> Address" where
  "key_request_connect_address st = tcp_base (st_public_ip st) @ to_string (st_tid st + kKeyRequestPort)"

definition key_request_bind_address :: "ServerThread \<Rightarrow> Address" where
  "key_request_bind_address st = kBindBase @ to_string (st_tid st + kKeyRequestPort)"

definition replication_response_connect_address :: "ServerThread \<Rightarrow> Address" where
  "replication_response_connect_address st = tcp_base (st_private_ip st) @ to_string (st_tid st + kServerReplicationResponsePort)"

definition replication_response_bind_address :: "ServerThread \<Rightarrow> Address" where
  "replication_response_bind_address st = kBindBase @ to_string (st_tid st + kServerReplicationResponsePort)"

definition cache_ip_response_connect_address :: "ServerThread \<Rightarrow> Address" where
  "cache_ip_response_connect_address st = tcp_base (st_private_ip st) @ to_string (st_tid st + kCacheIpResponsePort)"

definition cache_ip_response_bind_address :: "ServerThread \<Rightarrow> Address" where
  "cache_ip_response_bind_address st = kBindBase @ to_string (st_tid st + kCacheIpResponsePort)"

definition management_node_response_connect_address :: "ServerThread \<Rightarrow> Address" where
  "management_node_response_connect_address st = tcp_base (st_private_ip st) @ to_string (st_tid st + kManagementNodeResponsePort)"

definition management_node_response_bind_address :: "ServerThread \<Rightarrow> Address" where
  "management_node_response_bind_address st = kBindBase @ to_string (st_tid st + kManagementNodeResponsePort)"

definition gossip_connect_address :: "ServerThread \<Rightarrow> Address" where
  "gossip_connect_address st = tcp_base (st_private_ip st) @ to_string (st_tid st + kGossipPort)"

definition gossip_bind_address :: "ServerThread \<Rightarrow> Address" where
  "gossip_bind_address st = kBindBase @ to_string (st_tid st + kGossipPort)"

definition replication_change_connect_address :: "ServerThread \<Rightarrow> Address" where
  "replication_change_connect_address st = tcp_base (st_private_ip st) @ to_string (st_tid st + kServerReplicationChangePort)"

definition replication_change_bind_address :: "ServerThread \<Rightarrow> Address" where
  "replication_change_bind_address st = kBindBase @ to_string (st_tid st + kServerReplicationChangePort)"

section \<open>Routing threads\<close>

record RoutingThread =
  rt_ip :: Address
  rt_tid :: u32

definition rt_seed_connect_address :: "RoutingThread \<Rightarrow> Address" where
  "rt_seed_connect_address t = tcp_base (rt_ip t) @ to_string (rt_tid t + kSeedPort)"

definition rt_seed_bind_address :: "RoutingThread \<Rightarrow> Address" where
  "rt_seed_bind_address t = kBindBase @ to_string (rt_tid t + kSeedPort)"

definition rt_notify_connect_address :: "RoutingThread \<Rightarrow> Address" where
  "rt_notify_connect_address t = tcp_base (rt_ip t) @ to_string (rt_tid t + kRoutingNotifyPort)"

definition rt_notify_bind_address :: "RoutingThread \<Rightarrow> Address" where
  "rt_notify_bind_address t = kBindBase @ to_string (rt_tid t + kRoutingNotifyPort)"

definition rt_key_address_connect_address :: "RoutingThread \<Rightarrow> Address" where
  "rt_key_address_connect_address t = tcp_base (rt_ip t) @ to_string (rt_tid t + kKeyAddressPort)"

definition rt_key_address_bind_address :: "RoutingThread \<Rightarrow> Address" where
  "rt_key_address_bind_address t = kBindBase @ to_string (rt_tid t + kKeyAddressPort)"

definition rt_replication_response_connect_address :: "RoutingThread \<Rightarrow> Address" where
  "rt_replication_response_connect_address t = tcp_base (rt_ip t) @ to_string (rt_tid t + kRoutingReplicationResponsePort)"

definition rt_replication_response_bind_address :: "RoutingThread \<Rightarrow> Address" where
  "rt_replication_response_bind_address t = kBindBase @ to_string (rt_tid t + kRoutingReplicationResponsePort)"

definition rt_replication_change_connect_address :: "RoutingThread \<Rightarrow> Address" where
  "rt_replication_change_connect_address t = tcp_base (rt_ip t) @ to_string (rt_tid t + kRoutingReplicationChangePort)"

definition rt_replication_change_bind_address :: "RoutingThread \<Rightarrow> Address" where
  "rt_replication_change_bind_address t = kBindBase @ to_string (rt_tid t + kRoutingReplicationChangePort)"

section \<open>Monitoring threads\<close>

record MonitoringThread =
  mt_ip :: Address

definition mt_notify_connect_address :: "MonitoringThread \<Rightarrow> Address" where
  "mt_notify_connect_address t = tcp_base (mt_ip t) @ to_string (kMonitoringNotifyPort)"

definition mt_notify_bind_address :: "MonitoringThread \<Rightarrow> Address" where
  "mt_notify_bind_address t = kBindBase @ to_string (kMonitoringNotifyPort)"

definition mt_response_connect_address :: "MonitoringThread \<Rightarrow> Address" where
  "mt_response_connect_address t = tcp_base (mt_ip t) @ to_string (kMonitoringResponsePort)"

definition mt_response_bind_address :: "MonitoringThread \<Rightarrow> Address" where
  "mt_response_bind_address t = kBindBase @ to_string (kMonitoringResponsePort)"

definition mt_depart_done_connect_address :: "MonitoringThread \<Rightarrow> Address" where
  "mt_depart_done_connect_address t = tcp_base (mt_ip t) @ to_string (kDepartDonePort)"

definition mt_depart_done_bind_address :: "MonitoringThread \<Rightarrow> Address" where
  "mt_depart_done_bind_address t = kBindBase @ to_string (kDepartDonePort)"

definition mt_feedback_report_connect_address :: "MonitoringThread \<Rightarrow> Address" where
  "mt_feedback_report_connect_address t = tcp_base (mt_ip t) @ to_string (kFeedbackReportPort)"

definition mt_feedback_report_bind_address :: "MonitoringThread \<Rightarrow> Address" where
  "mt_feedback_report_bind_address t = kBindBase @ to_string (kFeedbackReportPort)"

section \<open>Cache, client and benchmark threads\<close>

record CacheThread =
  ct_ip :: Address
  ct_tid :: u32

definition ct_cache_get_address :: "CacheThread \<Rightarrow> Address" where
  "ct_cache_get_address t = ''ipc:///requests/get''"

definition ct_cache_put_address :: "CacheThread \<Rightarrow> Address" where
  "ct_cache_put_address t = ''ipc:///requests/put''"

definition ct_cache_update_connect_address :: "CacheThread \<Rightarrow> Address" where
  "ct_cache_update_connect_address t = tcp_base (ct_ip t) @ to_string (ct_tid t + kCacheUpdatePort)"

definition ct_cache_update_bind_address :: "CacheThread \<Rightarrow> Address" where
  "ct_cache_update_bind_address t = kBindBase @ to_string (ct_tid t + kCacheUpdatePort)"

record UserRoutingThread =
  urt_ip :: Address
  urt_tid :: u32

definition urt_key_address_connect_address :: "UserRoutingThread \<Rightarrow> Address" where
  "urt_key_address_connect_address t = tcp_base (urt_ip t) @ to_string (urt_tid t + kKeyAddressPort)"

definition urt_key_address_bind_address :: "UserRoutingThread \<Rightarrow> Address" where
  "urt_key_address_bind_address t = kBindBase @ to_string (urt_tid t + kKeyAddressPort)"

record UserThread =
  ut_ip :: Address
  ut_tid :: u32

definition ut_response_connect_address :: "UserThread \<Rightarrow> Address" where
  "ut_response_connect_address t = tcp_base (ut_ip t) @ to_string (ut_tid t + kUserResponsePort)"

definition ut_response_bind_address :: "UserThread \<Rightarrow> Address" where
  "ut_response_bind_address t = kBindBase @ to_string (ut_tid t + kUserResponsePort)"

definition ut_key_address_connect_address :: "UserThread \<Rightarrow> Address" where
  "ut_key_address_connect_address t = tcp_base (ut_ip t) @ to_string (ut_tid t + kUserKeyAddressPort)"

definition ut_key_address_bind_address :: "UserThread \<Rightarrow> Address" where
  "ut_key_address_bind_address t = kBindBase @ to_string (ut_tid t + kUserKeyAddressPort)"

record BenchmarkThread =
  bt_ip :: Address
  bt_tid :: u32

definition benchmark_command_address :: "BenchmarkThread \<Rightarrow> Address" where
  "benchmark_command_address t = tcp_base (bt_ip t) @ to_string (bt_tid t + kBenchmarkCommandPort)"

definition get_join_count_req_address :: "string \<Rightarrow> Address" where
  "get_join_count_req_address management_ip = tcp_base management_ip @ to_string kKopsRestartCountPort"

definition get_func_nodes_req_address :: "string \<Rightarrow> Address" where
  "get_func_nodes_req_address management_ip = tcp_base management_ip @ to_string kKopsFuncNodesPort"

text \<open>The addresses one worker thread binds before it enters the event loop of \<^verbatim>\<open>server.cpp\<close>.\<close>

definition server_bind_addresses :: "ServerThread \<Rightarrow> Address list" where
  "server_bind_addresses wt =
     [node_join_bind_address wt, node_depart_bind_address wt, self_depart_bind_address wt,
      key_request_bind_address wt, gossip_bind_address wt, replication_response_bind_address wt,
      replication_change_bind_address wt, cache_ip_response_bind_address wt,
      management_node_response_bind_address wt]"

text \<open>All the addresses a node with \<open>n\<close> worker threads binds.\<close>

definition node_bind_addresses :: "nat \<Rightarrow> Address \<Rightarrow> Address \<Rightarrow> Address list" where
  "node_bind_addresses n public_ip private_ip =
     concat (map (\<lambda>tid. server_bind_addresses (server_thread public_ip private_ip (of_nat tid))) [0..<n])"

section \<open>Identity\<close>

lemma colon_not_in_to_string [simp]: "CHR '':'' \<notin> set (to_string a)"
  by (rule to_string_no_char) (simp add: is_digit_def)

lemma underscore_not_in_to_string [simp]: "CHR ''_'' \<notin> set (to_string a)"
  by (rule to_string_no_char) (simp add: is_digit_def)

lemma st_id_inj:
  "st_id l = st_id r \<longleftrightarrow> st_private_ip l = st_private_ip r \<and> st_tid l = st_tid r"
  by (simp add: st_id_def delim_inj to_string_inj)

lemma st_eq_iff: "st_eq l r \<longleftrightarrow> st_private_ip l = st_private_ip r \<and> st_tid l = st_tid r"
  by (simp add: st_eq_def st_id_inj)

lemma st_eq_refl [simp]: "st_eq st st"
  by (simp add: st_eq_def)

lemma st_eq_sym: "st_eq a b \<longleftrightarrow> st_eq b a"
  by (auto simp: st_eq_def)

lemma st_mem_iff: "st_mem st threads \<longleftrightarrow> (\<exists>t\<in>set threads. st_eq t st)"
  by (simp add: st_mem_def list_ex_iff)

lemma st_mem_ids: "st_mem st threads \<longleftrightarrow> st_id st \<in> st_id ` set threads"
  unfolding st_mem_iff st_eq_def by (metis imageE image_eqI)

lemma ids_st_set_insert [simp]:
  "st_id ` set (st_set_insert st threads) = insert (st_id st) (st_id ` set threads)"
  by (auto simp: st_set_insert_def st_mem_ids)

lemma distinct_st_set_insert [intro]:
  "distinct (map st_id threads) \<Longrightarrow> distinct (map st_id (st_set_insert st threads))"
  by (auto simp: st_set_insert_def st_mem_ids)

lemma ids_st_set_erase [simp]:
  "st_id ` set (st_set_erase st threads) = st_id ` set threads - {st_id st}"
  by (auto simp: st_set_erase_def st_eq_def)

lemma distinct_st_set_erase [intro]:
  "distinct (map st_id threads) \<Longrightarrow> distinct (map st_id (st_set_erase st threads))"
  by (simp add: st_set_erase_def distinct_map_filter)

lemma st_virtual_id_inj:
  "st_virtual_id (server_thread_v pa a s m) = st_virtual_id (server_thread_v pb b t n) \<longleftrightarrow>
     a = b \<and> s = t \<and> m = n"
proof -
  have "\<And>x y. (a @ CHR '':'' # x) @ CHR ''_'' # to_string m = (b @ CHR '':'' # y) @ CHR ''_'' # to_string n
      \<longleftrightarrow> a @ CHR '':'' # x = b @ CHR '':'' # y \<and> to_string m = to_string n"
    by (rule delim_inj) simp_all
  then show ?thesis
    by (simp add: st_virtual_id_def server_thread_v_def delim_inj to_string_inj)
qed

section \<open>Addresses\<close>

lemma tcp_base_inj:
  "tcp_base a @ to_string m = tcp_base b @ to_string n \<longleftrightarrow> a = b \<and> m = n"
  by (simp add: tcp_base_def delim_inj to_string_inj)

lemma gossip_connect_address_inj:
  "gossip_connect_address l = gossip_connect_address r \<longleftrightarrow> st_eq l r"
  by (simp add: gossip_connect_address_def tcp_base_inj st_eq_iff)

lemma node_join_connect_address_inj:
  "node_join_connect_address l = node_join_connect_address r \<longleftrightarrow> st_eq l r"
  by (simp add: node_join_connect_address_def tcp_base_inj st_eq_iff)

section \<open>Listening ports\<close>

lemmas port_defs = kNodeJoinPort_def kNodeDepartPort_def kSelfDepartPort_def kKeyRequestPort_def
  kGossipPort_def kServerReplicationResponsePort_def kServerReplicationChangePort_def
  kCacheIpResponsePort_def kManagementNodeResponsePort_def

lemmas bind_defs = node_join_bind_address_def node_depart_bind_address_def
  self_depart_bind_address_def key_request_bind_address_def gossip_bind_address_def
  replication_response_bind_address_def replication_change_bind_address_def
  cache_ip_response_bind_address_def management_node_response_bind_address_def

definition server_ports :: "nat list" where
  "server_ports = [6000, 6050, 6100, 6200, 6250, 6150, 6300, 7050, 7100]"

lemma server_bind_addresses_ports:
  "server_bind_addresses (server_thread public_ip private_ip (of_nat t)) =
     map (\<lambda>p. kBindBase @ to_string (of_nat (t + p) :: u32)) server_ports"
  by (simp add: server_bind_addresses_def bind_defs port_defs server_thread_def server_ports_def)

lemma node_bind_addresses_ports:
  "node_bind_addresses n public_ip private_ip =
     map (\<lambda>(t, p). kBindBase @ to_string (of_nat (t + p) :: u32)) (List.product [0..<n] server_ports)"
  by (simp add: node_bind_addresses_def server_bind_addresses_ports product_concat_map map_concat
      comp_def)

lemma to_string_port_inj:
  "a < 2 ^ 32 \<Longrightarrow> b < 2 ^ 32 \<Longrightarrow> to_string (of_nat a :: u32) = to_string (of_nat b :: u32) \<longleftrightarrow> a = b"
  by (simp add: to_string_inj word_unat_eq_iff unat_of_nat)

lemma server_port_offsets:
  "p \<in> set server_ports \<Longrightarrow> q \<in> set server_ports \<Longrightarrow> s < 50 \<Longrightarrow> t < 50 \<Longrightarrow>
     s + p = t + q \<Longrightarrow> s = t \<and> p = q"
  by (auto simp: server_ports_def)

lemma server_ports_small: "p \<in> set server_ports \<Longrightarrow> p \<le> 7100"
  by (auto simp: server_ports_def)

text \<open>
  A node that runs at most fifty worker threads binds no listening address twice: the nine
  services of every thread use pairwise different ports.
\<close>

theorem node_ports_disjoint:
  assumes "n \<le> 50"
  shows "distinct (node_bind_addresses n public_ip private_ip)"
proof -
  have "inj_on (\<lambda>(t, p). kBindBase @ to_string (of_nat (t + p) :: u32))
          (set (List.product [0..<n] server_ports))"
  proof (rule inj_onI, clarsimp)
    fix s p t q
    assume st: "s < n" "t < n" and pq: "p \<in> set server_ports" "q \<in> set server_ports"
      and eq: "to_string (of_nat s + of_nat p :: u32) = to_string (of_nat t + of_nat q :: u32)"
    have "s + p < 2 ^ 32" "t + q < 2 ^ 32"
      using assms st server_ports_small [OF pq(1)] server_ports_small [OF pq(2)] by auto
    then have "s + p = t + q"
      using eq to_string_port_inj [of "s + p" "t + q"] by simp
    then show "s = t \<and> p = q"
      using server_port_offsets [OF pq, of s t] assms st by simp
  qed
  moreover have "distinct (List.product [0..<n] server_ports)"
    by (rule distinct_product) (simp_all add: server_ports_def)
  ultimately show ?thesis
    by (simp add: node_bind_addresses_ports distinct_map)
qed

theorem node_ports_disjoint_witness:
  "distinct (node_bind_addresses 4 ''10.0.0.1'' ''192.168.0.1'')"
  by (rule node_ports_disjoint) simp

end
