(* ===== verification/Anna_Metadata.thy ===== *)
theory Anna_Metadata
  imports Anna_Common Anna_Threads
begin

text \<open>
  The metadata of \<^verbatim>\<open>include/metadata.hpp\<close> and the run-time constants of
  \<^verbatim>\<open>include/kvs_common.hpp\<close>: replication factors of keys, properties of stored keys, per-tier
  configuration, and the names under which metadata is itself stored in the key-value store.

  The record \<open>env\<close> collects what a process is configured with and what it calls outside the
  repository: the run-time constants, the hash function of strings, the pseudo-random generators
  and the protocol-buffer codec.

  The lemmas show that metadata keys are recognised as such, that the key inside a replication
  key is recovered, that different keys and threads have different metadata keys, and that the
  fields of a statistics key are recovered by splitting it.
\<close>

section \<open>Data\<close>

definition kMetadataTypeReplication :: string where
  "kMetadataTypeReplication = ''replication''"

record KeyReplication =
  global_replication :: "(Tier, u32) omap"
  local_replication :: "(Tier, u32) omap"

definition empty_KeyReplication :: KeyReplication where
  "empty_KeyReplication = \<lparr>global_replication = [], local_replication = []\<rparr>"

record KeyProperty =
  kp_size :: u32
  kp_type :: LatticeType

definition empty_KeyProperty :: KeyProperty where
  "empty_KeyProperty = \<lparr>kp_size = 0, kp_type = NONE\<rparr>"

definition KeyReplication_eq :: "KeyReplication \<Rightarrow> KeyReplication \<Rightarrow> bool" where
  "KeyReplication_eq lhs rhs \<longleftrightarrow>
     list_all (\<lambda>(tier, n). map_of (global_replication rhs) tier = Some n) (global_replication lhs)
   \<and> list_all (\<lambda>(tier, n). map_of (local_replication rhs) tier = Some n) (local_replication lhs)"

record TierMetadata =
  tmd_id :: Tier
  tmd_thread_number :: u32
  tmd_default_replication :: u32
  tmd_node_capacity :: u64

definition default_TierMetadata :: TierMetadata where
  "default_TierMetadata = \<lparr>tmd_id = MEMORY, tmd_thread_number = 1, tmd_default_replication = 1,
     tmd_node_capacity = 0\<rparr>"

section \<open>Constants and environment\<close>

definition kMetadataReplicationFactor :: u32 where
  "kMetadataReplicationFactor = 1"

definition kVirtualThreadNum :: u32 where
  "kVirtualThreadNum = 3000"

definition kAllTiers :: "Tier list" where
  "kAllTiers = [MEMORY, DISK]"

text \<open>
  \<open>env_rand_r\<close> maps a seed to the number \<^verbatim>\<open>rand_r\<close> returns and the seed it leaves; \<open>env_rand\<close> is
  \<^verbatim>\<open>rand\<close> on its hidden state.
\<close>

record env =
  env_hash :: "string \<Rightarrow> u64"
  env_rand_r :: "u32 \<Rightarrow> nat \<times> u32"
  env_rand :: "u32 \<Rightarrow> nat \<times> u32"
  env_codec :: codec
  kTierMetadata :: "(Tier, TierMetadata) omap"
  kDefaultLocalReplication :: u32
  kSelfTier :: Tier
  kSelfTierIdVector :: "Tier list"
  kThreadNum :: u32

section \<open>Metadata keys\<close>

definition is_metadata :: "Key \<Rightarrow> bool res" where
  "is_metadata key = rbind (vec_at (split key CHR ''|'') 0) (\<lambda>v. Inr (v = kMetadataIdentifier))"

datatype MetadataType = replication | server_stats | key_access | key_size

definition get_metadata_key :: "ServerThread \<Rightarrow> Tier \<Rightarrow> u32 \<Rightarrow> MetadataType \<Rightarrow> Key" where
  "get_metadata_key st tier_id thread_num type =
     (let with_type = (\<lambda>metadata_type.
            kMetadataIdentifier @ kMetadataDelimiter @ metadata_type @ kMetadataDelimiter @
            st_public_ip st @ kMetadataDelimiter @ st_private_ip st @ kMetadataDelimiter @
            to_string thread_num @ kMetadataDelimiter @ Tier_Name tier_id)
      in case type of
           server_stats \<Rightarrow> with_type ''stats''
         | key_access \<Rightarrow> with_type ''access''
         | key_size \<Rightarrow> with_type ''size''
         | replication \<Rightarrow> [])"

definition get_replication_key :: "string \<Rightarrow> MetadataType \<Rightarrow> Key" where
  "get_replication_key data_key type =
     (if type = replication
      then kMetadataIdentifier @ kMetadataDelimiter @ kMetadataTypeReplication @
        kMetadataDelimiter @ data_key
      else [])"

definition get_key_from_metadata :: "Key \<Rightarrow> Key" where
  "get_key_from_metadata metadata_key =
     (let n_id = str_find kMetadataDelimiterChar 0 metadata_key;
          n_type = str_find kMetadataDelimiterChar (after n_id) metadata_key;
          metadata_type = substr_to (after n_id) n_type metadata_key
      in if metadata_type = kMetadataTypeReplication then drop (after n_type) metadata_key else [])"

definition split_metadata_key :: "Key \<Rightarrow> string list" where
  "split_metadata_key key = split key kMetadataDelimiterChar"

section \<open>Replication defaults\<close>

definition set_global_replication :: "Tier \<Rightarrow> u32 \<Rightarrow> KeyReplication \<Rightarrow> KeyReplication" where
  "set_global_replication tier n r = r\<lparr>global_replication := AList.update tier n (global_replication r)\<rparr>"

definition set_local_replication :: "Tier \<Rightarrow> u32 \<Rightarrow> KeyReplication \<Rightarrow> KeyReplication" where
  "set_local_replication tier n r = r\<lparr>local_replication := AList.update tier n (local_replication r)\<rparr>"

definition warmup_key :: "nat \<Rightarrow> Key" where
  "warmup_key i = replicate (8 - length (nat_to_string i)) CHR ''0'' @ nat_to_string i"

definition warmup_key_replication_map_to_defaults ::
    "u32 \<Rightarrow> u32 \<Rightarrow> u32 \<Rightarrow> (Key, KeyReplication) omap \<Rightarrow> (Key, KeyReplication) omap" where
  "warmup_key_replication_map_to_defaults global_memory global_ebs default_local m =
     fold (\<lambda>i. om_modify empty_KeyReplication (warmup_key i)
         (\<lambda>r. set_local_replication DISK default_local (set_local_replication MEMORY default_local
            (set_global_replication DISK global_ebs (set_global_replication MEMORY global_memory r)))))
       [1..<1000001] m"

definition init_replication ::
    "env \<Rightarrow> (Key, KeyReplication) omap \<Rightarrow> Key \<Rightarrow> (Key, KeyReplication) omap" where
  "init_replication E key_replication_map key =
     fold (\<lambda>tier. om_modify empty_KeyReplication key
         (\<lambda>r. set_local_replication tier (kDefaultLocalReplication E)
            (set_global_replication tier
              (tmd_default_replication (om_at default_TierMetadata (kTierMetadata E) tier)) r)))
       kAllTiers key_replication_map"

section \<open>Metadata keys are recognised and inverted\<close>

lemmas metadata_key_defs = metadata_defs kMetadataTypeReplication_def

lemma is_metadata_prefix: "is_metadata (''ANNA_METADATA|'' @ rest) = Inr True"
  using split_item [of "CHR ''|''" "''ANNA_METADATA''" rest]
  by (simp add: is_metadata_def kMetadataIdentifier_def)

lemma is_metadata_empty: "is_metadata [] = Inl OutOfRange"
  by (simp add: is_metadata_def)

lemma is_metadata_total: "key \<noteq> [] \<Longrightarrow> \<exists>b. is_metadata key = Inr b"
  using split_nonempty [of key "CHR ''|''"]
  by (cases "split key CHR ''|''") (auto simp: is_metadata_def)

lemma get_replication_key_eq:
  "get_replication_key key replication = ''ANNA_METADATA'' @ CHR ''|'' # ''replication'' @ CHR ''|'' # key"
  by (simp add: get_replication_key_def metadata_key_defs)

lemma is_metadata_replication_key: "is_metadata (get_replication_key key replication) = Inr True"
  using is_metadata_prefix [of "''replication'' @ CHR ''|'' # key"] by (simp add: get_replication_key_eq)

lemma key_of_replication_key: "get_key_from_metadata (get_replication_key key replication) = key"
proof -
  have 1: "CHR ''|'' \<notin> set ''ANNA_METADATA''" and 2: "CHR ''|'' \<notin> set ''replication''"
    by simp_all
  note find = str_find_first [OF 1, of "''replication'' @ CHR ''|'' # key"]
    str_find_second [OF 2, of "''ANNA_METADATA''" key]
  then show ?thesis
    by (simp add: get_replication_key_eq get_key_from_metadata_def metadata_key_defs after_def substr_to_def Let_def)
qed

text \<open>
  The name under which a key's replication factors are stored is recognised as metadata and
  gives the key back, whatever characters the key contains; so different keys have different names.
\<close>

theorem replication_key_roundtrip:
  "is_metadata (get_replication_key key replication) = Inr True
   \<and> get_key_from_metadata (get_replication_key key replication) = key
   \<and> (get_replication_key key replication = get_replication_key key' replication \<longleftrightarrow> key = key')"
  by (simp add: is_metadata_replication_key key_of_replication_key) (simp add: get_replication_key_eq)

text \<open>
  The name of a thread's statistics splits into its six fields, so that the monitor recovers
  from it which thread of which node and tier reported, provided that addresses contain
  no delimiter.
\<close>

theorem statistics_key_fields:
  assumes "type \<noteq> replication"
    and "CHR ''|'' \<notin> set (st_public_ip st)" "CHR ''|'' \<notin> set (st_private_ip st)"
  shows "\<exists>t. t \<in> {''stats'', ''access'', ''size''}
    \<and> split_metadata_key (get_metadata_key st tier n type) =
      [''ANNA_METADATA'', t, st_public_ip st, st_private_ip st, to_string n, Tier_Name tier]
    \<and> is_metadata (get_metadata_key st tier n type) = Inr True"
proof -
  let ?t = "case type of server_stats \<Rightarrow> ''stats'' | key_access \<Rightarrow> ''access'' | _ \<Rightarrow> ''size''"
  have t: "?t \<in> {''stats'', ''access'', ''size''}" "CHR ''|'' \<notin> set ?t"
    by (cases type; simp)+
  have n: "CHR ''|'' \<notin> set (to_string n)"
    by (rule to_string_no_char) (simp add: is_digit_def)
  have tier: "CHR ''|'' \<notin> set (Tier_Name tier)" "Tier_Name tier \<noteq> []"
    by (cases tier; simp)+
  have key: "get_metadata_key st tier n type =
      ''ANNA_METADATA'' @ CHR ''|'' # ?t @ CHR ''|'' # st_public_ip st @ CHR ''|'' #
      st_private_ip st @ CHR ''|'' # to_string n @ CHR ''|'' # Tier_Name tier"
    using assms(1) by (cases type) (simp_all add: get_metadata_key_def metadata_key_defs)
  have 1: "CHR ''|'' \<notin> set ''ANNA_METADATA''"
    by simp
  have "split_metadata_key (get_metadata_key st tier n type) =
      [''ANNA_METADATA'', ?t, st_public_ip st, st_private_ip st, to_string n, Tier_Name tier]"
    unfolding key split_metadata_key_def kMetadataDelimiterChar_def
    by (simp only: split_item [OF 1] split_item [OF t(2)] split_item [OF assms(2)]
        split_item [OF assms(3)] split_item [OF n] split_last [OF tier])
  moreover have "is_metadata (get_metadata_key st tier n type) = Inr True"
    unfolding key using is_metadata_prefix by simp
  ultimately show ?thesis
    using t(1) by blast
qed

theorem statistics_key_fields_witness:
  "\<exists>t. t \<in> {''stats'', ''access'', ''size''}
    \<and> split_metadata_key (get_metadata_key (server_thread ''1.2.3.4'' ''10.0.0.1'' 3) DISK 3 key_access) =
      [''ANNA_METADATA'', t, ''1.2.3.4'', ''10.0.0.1'', to_string (3 :: u32), ''DISK'']"
  using statistics_key_fields [of key_access "server_thread ''1.2.3.4'' ''10.0.0.1'' 3" DISK 3]
  by (auto simp: server_thread_def)

lemma init_replication_factors:
  "map_of (init_replication E m key) key \<noteq> None"
  "t \<in> {MEMORY, DISK} \<Longrightarrow>
    map_of (global_replication (om_at empty_KeyReplication (init_replication E m key) key)) t =
      Some (tmd_default_replication (om_at default_TierMetadata (kTierMetadata E) t))"
  "t \<in> {MEMORY, DISK} \<Longrightarrow>
    map_of (local_replication (om_at empty_KeyReplication (init_replication E m key) key)) t =
      Some (kDefaultLocalReplication E)"
  by (auto simp: init_replication_def kAllTiers_def set_global_replication_def
      set_local_replication_def update_conv')

lemma init_replication_other: "key' \<noteq> key \<Longrightarrow> map_of (init_replication E m key) key' = map_of m key'"
  by (simp add: init_replication_def kAllTiers_def)

end
