(* ===== verification/Anna_HashRing.thy ===== *)
theory Anna_HashRing
  imports Anna_Metadata
begin

text \<open>
  The consistent hash rings: \<^verbatim>\<open>ConsistentHashMap\<close>, the global and local hashers, and \<^verbatim>\<open>HashRing\<close>
  with its virtual nodes, unique servers and join counts. A \<^verbatim>\<open>std::map\<close> from hashes to nodes is a
  list of pairs sorted by hash; its iterators are indices, with the length of the list as
  \<^verbatim>\<open>end()\<close>.

  The lemmas show that the well-formedness of a ring is kept by joins and departures, what walking
  the ring from the position of a key visits, and that a join leaves the relative order of the
  servers already there unchanged for every key.
\<close>

section \<open>Hashers\<close>

definition GlobalHasher :: "(string \<Rightarrow> u64) \<Rightarrow> ServerThread \<Rightarrow> u32" where
  "GlobalHasher H th = ucast (H (''GLOBAL'' @ st_virtual_id th))"

definition GlobalHasher_key :: "(string \<Rightarrow> u64) \<Rightarrow> Key \<Rightarrow> u32" where
  "GlobalHasher_key H key = ucast (H (''GLOBAL'' @ key))"

definition LocalHasher :: "(string \<Rightarrow> u64) \<Rightarrow> ServerThread \<Rightarrow> u64" where
  "LocalHasher H th =
     H (to_string (st_tid th) @ ''_'' @ (case st_virtual_num th of None \<Rightarrow> [] | Some n \<Rightarrow> to_string n))"

definition LocalHasher_key :: "(string \<Rightarrow> u64) \<Rightarrow> Key \<Rightarrow> u64" where
  "LocalHasher_key H key = H key"

section \<open>\<^verbatim>\<open>ConsistentHashMap\<close>\<close>

type_synonym ('h, 'n) nodes = "('h \<times> 'n) list"

definition chm_insert :: "('n \<Rightarrow> 'h::linorder) \<Rightarrow> 'n \<Rightarrow> ('h, 'n) nodes \<Rightarrow> ('h, 'n) nodes" where
  "chm_insert hasher node nodes =
     (let hash = hasher node
      in case map_of nodes hash of
           Some _ \<Rightarrow> nodes
         | None \<Rightarrow> insort_key fst (hash, node) nodes)"

definition chm_erase :: "('n \<Rightarrow> 'h) \<Rightarrow> 'n \<Rightarrow> ('h, 'n) nodes \<Rightarrow> ('h, 'n) nodes" where
  "chm_erase hasher node nodes = AList.delete (hasher node) nodes"

definition lower_bound :: "'h::linorder \<Rightarrow> ('h, 'n) nodes \<Rightarrow> nat" where
  "lower_bound hash nodes = length (takeWhile (\<lambda>(h, _). h < hash) nodes)"

definition chm_find :: "'h::linorder \<Rightarrow> ('h, 'n) nodes \<Rightarrow> nat" where
  "chm_find hash nodes =
     (if nodes = [] then length nodes
      else let it = lower_bound hash nodes
           in if it = length nodes then 0 else it)"

definition chm_size :: "('h, 'n) nodes \<Rightarrow> nat" where
  "chm_size nodes = length nodes"

definition chm_empty :: "('h, 'n) nodes \<Rightarrow> bool" where
  "chm_empty nodes \<longleftrightarrow> nodes = []"

section \<open>\<^verbatim>\<open>HashRing\<close>\<close>

record 'h HashRing =
  hr_nodes :: "('h, ServerThread) nodes"
  hr_unique_servers :: "ServerThread list"
  hr_server_join_count :: "(string, int) omap"

definition empty_HashRing :: "'h HashRing" where
  "empty_HashRing = \<lparr>hr_nodes = [], hr_unique_servers = [], hr_server_join_count = []\<rparr>"

definition virtual_threads :: "Address \<Rightarrow> Address \<Rightarrow> u32 \<Rightarrow> ServerThread list" where
  "virtual_threads public_ip private_ip tid =
     map (\<lambda>n. server_thread_v public_ip private_ip tid (of_nat n)) [0..<unat kVirtualThreadNum]"

definition hr_insert ::
    "(ServerThread \<Rightarrow> 'h::linorder) \<Rightarrow> Address \<Rightarrow> Address \<Rightarrow> int \<Rightarrow> u32 \<Rightarrow> 'h HashRing
      \<Rightarrow> bool \<times> 'h HashRing" where
  "hr_insert hasher public_ip private_ip join_count tid ring =
     (let new_thread = server_thread_v public_ip private_ip tid 0
      in if st_mem new_thread (hr_unique_servers ring)
         then (if om_at 0 (hr_server_join_count ring) private_ip < join_count
               then (True, ring\<lparr>hr_server_join_count :=
                      AList.update private_ip join_count (hr_server_join_count ring)\<rparr>)
               else (False, ring\<lparr>hr_server_join_count :=
                      om_touch 0 private_ip (hr_server_join_count ring)\<rparr>))
         else (True, ring\<lparr>
           hr_unique_servers := st_set_insert new_thread (hr_unique_servers ring),
           hr_server_join_count := AList.update private_ip join_count (hr_server_join_count ring),
           hr_nodes := fold (chm_insert hasher) (virtual_threads public_ip private_ip tid)
             (hr_nodes ring)\<rparr>))"

definition hr_remove ::
    "(ServerThread \<Rightarrow> 'h) \<Rightarrow> Address \<Rightarrow> Address \<Rightarrow> u32 \<Rightarrow> 'h HashRing \<Rightarrow> 'h HashRing" where
  "hr_remove hasher public_ip private_ip tid ring = ring\<lparr>
     hr_nodes := fold (chm_erase hasher) (virtual_threads public_ip private_ip tid) (hr_nodes ring),
     hr_unique_servers := st_set_erase (server_thread_v public_ip private_ip tid 0)
       (hr_unique_servers ring),
     hr_server_join_count := AList.delete private_ip (hr_server_join_count ring)\<rparr>"

type_synonym GlobalHashRing = "u32 HashRing"
type_synonym LocalHashRing = "u64 HashRing"
type_synonym GlobalRingMap = "(Tier, GlobalHashRing) omap"
type_synonym LocalRingMap = "(Tier, LocalHashRing) omap"

section \<open>Walking a ring\<close>

text \<open>
  The loop shared by \<^verbatim>\<open>responsible_global\<close> and \<^verbatim>\<open>responsible_local\<close>: collect nodes from position
  \<open>pos\<close> on, skipping those already collected, until \<open>rep\<close> of them are found.
\<close>

partial_function (option) ring_loop ::
    "('a \<Rightarrow> 'a \<Rightarrow> bool) \<Rightarrow> 'a list \<Rightarrow> u32 \<Rightarrow> nat \<Rightarrow> u32 \<Rightarrow> 'a list \<Rightarrow> 'a list option" where
  "ring_loop same ring rep pos i found =
     (if i < rep
      then let node = ring ! pos;
               (found, i) = (if list_ex (\<lambda>x. same x node) found then (found, i)
                             else (found @ [node], i + 1));
               pos = (if pos + 1 = length ring then 0 else pos + 1)
           in ring_loop same ring rep pos i found
      else Some found)"

definition run_ring_loop :: "('a \<Rightarrow> 'a \<Rightarrow> bool) \<Rightarrow> 'a list \<Rightarrow> u32 \<Rightarrow> nat \<Rightarrow> 'a list res" where
  "run_ring_loop same ring rep pos =
     (case ring_loop same ring rep pos 0 [] of None \<Rightarrow> Inl Diverges | Some found \<Rightarrow> Inr found)"

definition responsible_global ::
    "(string \<Rightarrow> u64) \<Rightarrow> Key \<Rightarrow> u32 \<Rightarrow> GlobalHashRing \<Rightarrow> ServerThread list res" where
  "responsible_global H key global_rep ring =
     (let pos = chm_find (GlobalHasher_key H key) (hr_nodes ring)
      in if pos \<noteq> length (hr_nodes ring)
         then run_ring_loop st_eq (map snd (hr_nodes ring)) global_rep pos
         else Inr [])"

definition responsible_local ::
    "(string \<Rightarrow> u64) \<Rightarrow> Key \<Rightarrow> u32 \<Rightarrow> LocalHashRing \<Rightarrow> u32 list res" where
  "responsible_local H key local_rep ring =
     (let pos = chm_find (LocalHasher_key H key) (hr_nodes ring)
      in if pos \<noteq> length (hr_nodes ring)
         then run_ring_loop (=) (map (\<lambda>(h, th). st_tid th) (hr_nodes ring)) local_rep pos
         else Inr [])"

section \<open>What the walk collects\<close>

definition scan :: "('a \<Rightarrow> 'a \<Rightarrow> bool) \<Rightarrow> 'a list \<Rightarrow> 'a list \<Rightarrow> 'a list" where
  "scan same = foldl (\<lambda>found x. if list_ex (\<lambda>y. same y x) found then found else found @ [x])"

lemma scan_simps [simp]:
  "scan same found [] = found"
  "scan same found (x # xs) =
     (if list_ex (\<lambda>y. same y x) found then scan same found xs else scan same (found @ [x]) xs)"
  by (simp_all add: scan_def)

lemma scan_append [simp]: "scan same found (xs @ ys) = scan same (scan same found xs) ys"
  by (simp add: scan_def)

lemma scan_extends: "\<exists>more. scan same found xs = found @ more"
proof (induction xs arbitrary: found)
  case (Cons x xs)
  show ?case
    using Cons [of found] Cons [of "found @ [x]"] by auto
qed simp

lemma take_scan: "n \<le> length found \<Longrightarrow> take n (scan same found xs) = take n found"
  using scan_extends [of same found xs] by auto

lemma ring_loop_found:
  assumes "ring \<noteq> []" "pos < length ring"
    and "\<forall>j < length xs. xs ! j = ring ! ((pos + j) mod length ring)"
    and "length found \<le> unat rep" "unat rep \<le> length (scan same found xs)"
  shows "ring_loop same ring rep pos (of_nat (length found)) found =
    Some (take (unat rep) (scan same found xs))"
  using assms(2-)
proof (induction xs arbitrary: pos found)
  case Nil
  then have "of_nat (length found) = rep"
    by (intro of_nat_eq_word) simp
  with Nil show ?case
    by (simp add: ring_loop.simps [of _ _ rep])
next
  case (Cons x xs)
  show ?case
  proof (cases "length found = unat rep")
    case True
    then have "of_nat (length found) = rep"
      by (rule of_nat_eq_word)
    then show ?thesis
      using True take_scan [of "unat rep" found same "x # xs"]
      by (simp add: ring_loop.simps [of _ _ rep])
  next
    case False
    have small: "unat (of_nat (length found) :: u32) = length found"
      using Cons.prems(3) by (rule unat_of_nat_le)
    have less: "(of_nat (length found) :: u32) < rep"
      using False Cons.prems(3) small by (simp add: word_less_nat_alt)
    let ?pos = "if pos + 1 = length ring then 0 else pos + 1"
    let ?found = "if list_ex (\<lambda>y. same y x) found then found else found @ [x]"
    have x: "x = ring ! pos"
      using Cons.prems(1,2) by (auto dest: spec [of _ 0])
    have pos: "?pos < length ring" "?pos = (pos + 1) mod length ring"
      using assms(1) Cons.prems(1) by auto
    have "xs ! j = ring ! ((?pos + j) mod length ring)" if "j < length xs" for j
      using Cons.prems(2) [rule_format, of "Suc j"] that pos(2) by (simp add: mod_simps)
    then have "ring_loop same ring rep ?pos (of_nat (length ?found)) ?found =
        Some (take (unat rep) (scan same ?found xs))"
      using Cons.prems False pos(1) by (intro Cons.IH) auto
    moreover have "ring_loop same ring rep pos (of_nat (length found)) found =
        ring_loop same ring rep ?pos (of_nat (length ?found)) ?found"
      using less by (subst ring_loop.simps) (simp add: x [symmetric] add.commute)
    ultimately show ?thesis
      by auto
  qed
qed

text \<open>The walk distinguishes nodes by an identity \<open>f\<close>: the thread id for servers, the tid locally.\<close>

lemma scan_distinct:
  "distinct (map f found) \<Longrightarrow> distinct (map f (scan (\<lambda>x y. f x = f y) found xs))"
proof (induction xs arbitrary: found)
  case (Cons x xs)
  show ?case
  proof (cases "list_ex (\<lambda>y. f y = f x) found")
    case False
    then have "distinct (map f (found @ [x]))"
      using Cons.prems by (force simp: list_ex_iff)
    from Cons.IH [OF this] False show ?thesis
      by simp
  qed (simp add: Cons)
qed simp

lemma scan_image: "f ` set (scan (\<lambda>x y. f x = f y) found xs) = f ` (set found \<union> set xs)"
proof (induction xs arbitrary: found)
  case (Cons x xs)
  have "f x \<in> f ` set found" if "list_ex (\<lambda>y. f y = f x) found"
    using that by (auto simp: list_ex_iff intro: rev_image_eqI)
  with Cons show ?case
    by auto
qed simp

lemma length_scan: "length (scan (\<lambda>x y. f x = f y) [] xs) = card (f ` set xs)"
proof -
  have "length (scan (\<lambda>x y. f x = f y) [] xs) = card (f ` set (scan (\<lambda>x y. f x = f y) [] xs))"
    using scan_distinct [of f "[]" xs] distinct_card by fastforce
  then show ?thesis
    by (simp add: scan_image)
qed

lemma ring_loop_sound:
  fixes f :: "'a \<Rightarrow> 'b"
  assumes "ring_loop (\<lambda>x y. f x = f y) ring rep pos i found = Some result"
    and "pos < length ring" "i = of_nat (length found)" "length found \<le> unat rep"
    and "distinct (map f found)"
  shows "length result = unat rep \<and> distinct (map f result) \<and> set result \<subseteq> set found \<union> set ring"
proof -
  let ?P = "\<lambda>same ring rep pos i found result.
    same = (\<lambda>x y. f x = f y) \<longrightarrow> pos < length ring \<longrightarrow> i = of_nat (length found) \<longrightarrow>
    length found \<le> unat rep \<longrightarrow> distinct (map f found) \<longrightarrow>
    length result = unat rep \<and> distinct (map f result) \<and> set result \<subseteq> set found \<union> set ring"
  have "?P (\<lambda>x y. f x = f y) ring rep pos i found result"
  proof (rule ring_loop.raw_induct [OF _ assms(1), where P = ?P], intro impI)
    fix loop and same :: "'a \<Rightarrow> 'a \<Rightarrow> bool" and ring and rep :: u32 and pos i found result
    assume IH: "\<And>same ring rep pos i found result.
        loop same ring rep pos i found = Some result \<Longrightarrow> ?P same ring rep pos i found result"
      and run: "(if i < rep
        then let node = ring ! pos;
                 (found, i) = (if list_ex (\<lambda>x. same x node) found then (found, i)
                               else (found @ [node], i + 1));
                 pos = (if pos + 1 = length ring then 0 else pos + 1)
             in loop same ring rep pos i found
        else Some found) = Some result"
      and same: "same = (\<lambda>x y. f x = f y)" and pos: "pos < length ring"
      and i: "i = of_nat (length found)" and le: "length found \<le> unat rep"
      and dist: "distinct (map f found)"
    have small: "unat i = length found"
      unfolding i using le by (rule unat_of_nat_le)
    show "length result = unat rep \<and> distinct (map f result) \<and> set result \<subseteq> set found \<union> set ring"
    proof (cases "i < rep")
      case False
      with run le small dist show ?thesis
        by (auto simp: word_less_nat_alt)
    next
      case True
      let ?node = "ring ! pos" and ?pos = "if pos + 1 = length ring then 0 else pos + 1"
      have node: "?node \<in> set ring" and pos': "?pos < length ring"
        using pos by auto
      have less: "length found < unat rep"
        using True small by (simp add: word_less_nat_alt)
      show ?thesis
      proof (cases "list_ex (\<lambda>x. same x ?node) found")
        case seen: True
        with run True have "loop same ring rep ?pos i found = Some result"
          by simp
        from IH [OF this] show ?thesis
          using same pos' i le dist by simp
      next
        case False
        with run True have "loop same ring rep ?pos (i + 1) (found @ [?node]) = Some result"
          by simp
        from IH [OF this] show ?thesis
          using same pos' i less dist False node by (auto simp: list_ex_iff add.commute)
      qed
    qed
  qed
  then show ?thesis
    using assms by simp
qed

lemma run_ring_loop_spec:
  fixes f :: "'a \<Rightarrow> 'b"
  assumes "pos < length ring"
  shows "run_ring_loop (\<lambda>x y. f x = f y) ring rep pos =
    (if unat rep \<le> card (f ` set ring)
     then Inr (take (unat rep) (scan (\<lambda>x y. f x = f y) [] (rotate pos ring)))
     else Inl Diverges)"
proof (cases "unat rep \<le> card (f ` set ring)")
  case True
  show ?thesis
    using ring_loop_found [of ring pos "rotate pos ring" "[]" rep "\<lambda>x y. f x = f y"] assms True
    by (cases "ring = []") (auto simp: run_ring_loop_def nth_rotate length_scan)
next
  case False
  have "ring_loop (\<lambda>x y. f x = f y) ring rep pos 0 [] = None"
  proof (rule ccontr)
    assume "ring_loop (\<lambda>x y. f x = f y) ring rep pos 0 [] \<noteq> None"
    then obtain result where "ring_loop (\<lambda>x y. f x = f y) ring rep pos 0 [] = Some result"
      by auto
    from ring_loop_sound [OF this assms] have result: "length result = unat rep"
        "distinct (map f result)" "set result \<subseteq> set ring"
      by auto
    have "unat rep = card (f ` set result)"
      using result(1) distinct_card [OF result(2)] by simp
    also have "\<dots> \<le> card (f ` set ring)"
      using result(3) by (intro card_mono) auto
    finally show False
      using False by simp
  qed
  then show ?thesis
    using False by (simp add: run_ring_loop_def)
qed

section \<open>The order in which a key meets the servers\<close>

definition clockwise :: "'h::linorder \<Rightarrow> ('h, 'n) nodes \<Rightarrow> 'n list" where
  "clockwise hash nodes =
     map snd (filter (\<lambda>n. \<not> fst n < hash) nodes @ filter (\<lambda>n. fst n < hash) nodes)"

definition nodes_ok :: "('h::linorder, 'n) nodes \<Rightarrow> bool" where
  "nodes_ok nodes \<longleftrightarrow> sorted (map fst nodes) \<and> distinct (map fst nodes)"

lemma takeWhile_sorted:
  "sorted (map fst nodes) \<Longrightarrow> takeWhile (\<lambda>(h, _). h < hash) nodes = filter (\<lambda>n. fst n < hash) nodes"
  by (induction nodes) (auto intro!: filter_False [symmetric])

lemma dropWhile_sorted:
  "sorted (map fst nodes) \<Longrightarrow> dropWhile (\<lambda>(h, _). h < hash) nodes = filter (\<lambda>n. \<not> fst n < hash) nodes"
  by (induction nodes) (auto intro!: filter_True [symmetric])

lemma chm_find_less: "nodes \<noteq> [] \<Longrightarrow> chm_find hash nodes < length nodes"
  using length_takeWhile_le [of "\<lambda>(h, _). h < hash" nodes]
  by (auto simp: chm_find_def lower_bound_def Let_def)

lemma chm_find_end: "chm_find hash nodes = length nodes \<longleftrightarrow> nodes = []"
  using chm_find_less [of nodes hash] by (auto simp: chm_find_def)

lemma rotate_chm_find:
  assumes "sorted (map fst nodes)"
  shows "map snd (rotate (chm_find hash nodes) nodes) = clockwise hash nodes"
proof (cases "nodes = []")
  case False
  let ?P = "\<lambda>(h, _). h < hash"
  have le: "lower_bound hash nodes \<le> length nodes"
    by (simp add: lower_bound_def length_takeWhile_le)
  have "rotate (chm_find hash nodes) nodes = rotate (lower_bound hash nodes) nodes"
    using False by (auto simp: chm_find_def Let_def)
  also have "\<dots> = drop (lower_bound hash nodes) nodes @ take (lower_bound hash nodes) nodes"
    using le by (cases "lower_bound hash nodes = length nodes") (auto simp: rotate_drop_take)
  also have "\<dots> = dropWhile ?P nodes @ takeWhile ?P nodes"
    by (simp add: lower_bound_def dropWhile_eq_drop [symmetric] takeWhile_eq_take [symmetric])
  finally show ?thesis
    by (simp add: clockwise_def takeWhile_sorted [OF assms] dropWhile_sorted [OF assms])
qed (simp add: clockwise_def)

lemma set_clockwise [simp]: "set (clockwise hash nodes) = snd ` set nodes"
  by (auto simp: clockwise_def)

definition preference :: "(string \<Rightarrow> u64) \<Rightarrow> Key \<Rightarrow> GlobalHashRing \<Rightarrow> ServerThread list" where
  "preference H key ring = scan st_eq [] (clockwise (GlobalHasher_key H key) (hr_nodes ring))"

definition local_preference :: "(string \<Rightarrow> u64) \<Rightarrow> Key \<Rightarrow> LocalHashRing \<Rightarrow> u32 list" where
  "local_preference H key ring =
     scan (=) [] (map st_tid (clockwise (LocalHasher_key H key) (hr_nodes ring)))"

lemma st_eq_fun: "st_eq = (\<lambda>x y. st_id x = st_id y)"
  by (simp add: st_eq_def [abs_def])

lemma length_preference: "length (preference H key ring) = card (st_id ` snd ` set (hr_nodes ring))"
  by (simp add: preference_def st_eq_fun length_scan)

lemma length_local_preference:
  "length (local_preference H key ring) = card (st_tid ` snd ` set (hr_nodes ring))"
  using length_scan [of id "map st_tid (clockwise (LocalHasher_key H key) (hr_nodes ring))"]
  by (simp add: local_preference_def)

lemma responsible_global_eq:
  assumes "sorted (map fst (hr_nodes ring))"
  shows "responsible_global H key rep ring =
    (if hr_nodes ring = [] then Inr []
     else if unat rep \<le> length (preference H key ring)
     then Inr (take (unat rep) (preference H key ring))
     else Inl Diverges)"
proof (cases "hr_nodes ring = []")
  case False
  let ?pos = "chm_find (GlobalHasher_key H key) (hr_nodes ring)"
  have "rotate ?pos (map snd (hr_nodes ring)) = clockwise (GlobalHasher_key H key) (hr_nodes ring)"
    using rotate_chm_find [OF assms] by (simp add: rotate_map)
  then show ?thesis
    using False chm_find_less [OF False, of "GlobalHasher_key H key"]
      run_ring_loop_spec [of ?pos "map snd (hr_nodes ring)" st_id rep]
    by (simp add: responsible_global_def Let_def chm_find_end st_eq_fun preference_def
        length_scan image_image)
qed (simp add: responsible_global_def chm_find_def)

lemma responsible_local_eq:
  assumes "sorted (map fst (hr_nodes ring))"
  shows "responsible_local H key rep ring =
    (if hr_nodes ring = [] then Inr []
     else if unat rep \<le> length (local_preference H key ring)
     then Inr (take (unat rep) (local_preference H key ring))
     else Inl Diverges)"
proof (cases "hr_nodes ring = []")
  case False
  let ?pos = "chm_find (LocalHasher_key H key) (hr_nodes ring)"
  let ?tids = "map (\<lambda>(h, th). st_tid th) (hr_nodes ring)"
  have tids: "?tids = map st_tid (map snd (hr_nodes ring))"
    by auto
  have "rotate ?pos ?tids = map st_tid (clockwise (LocalHasher_key H key) (hr_nodes ring))"
    using rotate_chm_find [OF assms, of "LocalHasher_key H key"] unfolding tids rotate_map by simp
  moreover have "run_ring_loop (=) ?tids rep ?pos =
    (if unat rep \<le> card (set ?tids)
     then Inr (take (unat rep) (scan (=) [] (rotate ?pos ?tids))) else Inl Diverges)"
    using run_ring_loop_spec [of ?pos ?tids id rep]
      chm_find_less [OF False, of "LocalHasher_key H key"] by simp
  ultimately show ?thesis
    using False
    by (simp add: responsible_local_def Let_def chm_find_end local_preference_def [symmetric]
        length_local_preference image_image split_beta)
qed (simp add: responsible_local_def chm_find_def)

section \<open>The invariant of a ring\<close>

definition hr_inv :: "(ServerThread \<Rightarrow> 'h::linorder) \<Rightarrow> 'h HashRing \<Rightarrow> bool" where
  "hr_inv hasher ring \<longleftrightarrow>
     nodes_ok (hr_nodes ring) \<and> distinct (map st_id (hr_unique_servers ring))
   \<and> om_wf (hr_server_join_count ring)
   \<and> list_all (\<lambda>(h, st). h = hasher st \<and> st_mem st (hr_unique_servers ring)
        \<and> st_virtual_num st \<in> Some ` {v. v < kVirtualThreadNum}) (hr_nodes ring)"

text \<open>A hasher looks only at the private address, the tid and the virtual number of a thread.\<close>

definition hasher_ok :: "(ServerThread \<Rightarrow> 'h) \<Rightarrow> bool" where
  "hasher_ok hasher \<longleftrightarrow>
     (\<forall>a b. st_eq a b \<longrightarrow> st_virtual_num a = st_virtual_num b \<longrightarrow> hasher a = hasher b)"

lemma hasher_ok_global [simp]: "hasher_ok (GlobalHasher H)"
  by (auto simp: hasher_ok_def GlobalHasher_def st_virtual_id_def st_eq_iff)

lemma hasher_ok_local [simp]: "hasher_ok (LocalHasher H)"
  by (auto simp: hasher_ok_def LocalHasher_def st_eq_iff)

lemma nodes_ok_Nil [simp]: "nodes_ok []"
  by (simp add: nodes_ok_def)

lemma nodes_ok_chm_insert [intro]: "nodes_ok nodes \<Longrightarrow> nodes_ok (chm_insert hasher node nodes)"
  by (auto simp: nodes_ok_def chm_insert_def Let_def sorted_insort_key distinct_insort_key
      map_of_eq_None_iff split: option.split)

lemma nodes_ok_chm_erase [intro]: "nodes_ok nodes \<Longrightarrow> nodes_ok (chm_erase hasher node nodes)"
  unfolding nodes_ok_def chm_erase_def AList.delete_eq
  by (auto intro: sorted_filter distinct_map_filter)

lemma set_chm_insert:
  "set (chm_insert hasher node nodes) \<subseteq> insert (hasher node, node) (set nodes)"
  "set nodes \<subseteq> set (chm_insert hasher node nodes)"
  by (auto simp: chm_insert_def Let_def set_insort_key split: option.split)

lemma set_fold_chm_insert:
  "set (fold (chm_insert hasher) vs nodes) \<subseteq> (\<lambda>v. (hasher v, v)) ` set vs \<union> set nodes"
  "set nodes \<subseteq> set (fold (chm_insert hasher) vs nodes)"
  using set_chm_insert by (induction vs arbitrary: nodes; fastforce)+

lemma set_fold_chm_erase:
  "set (fold (chm_erase hasher) vs nodes) = {n \<in> set nodes. fst n \<notin> hasher ` set vs}"
  by (induction vs arbitrary: nodes) (auto simp: chm_erase_def AList.delete_eq)

lemma nodes_ok_fold_insert [intro]: "nodes_ok nodes \<Longrightarrow> nodes_ok (fold (chm_insert hasher) vs nodes)"
  by (induction vs arbitrary: nodes) auto

lemma nodes_ok_fold_erase [intro]: "nodes_ok nodes \<Longrightarrow> nodes_ok (fold (chm_erase hasher) vs nodes)"
  by (induction vs arbitrary: nodes) auto

lemma virtual_threads_eq:
  assumes "v \<in> set (virtual_threads pub priv tid)"
  shows "st_eq v (server_thread_v pub priv tid 0) \<and> st_virtual_num v \<in> Some ` {v. v < kVirtualThreadNum}"
proof -
  obtain n where "v = server_thread_v pub priv tid (of_nat n)" "n < unat kVirtualThreadNum"
    using assms by (auto simp: virtual_threads_def)
  moreover from this(2) have "(of_nat n :: u32) < kVirtualThreadNum"
    by (simp add: word_less_nat_alt unat_of_nat_le [of n kVirtualThreadNum])
  ultimately show ?thesis
    by (simp add: st_eq_iff server_thread_v_def)
qed

lemma hash_virtual_threads:
  assumes "hasher_ok hasher" "st_eq st (server_thread_v pub priv tid 0)"
    and "st_virtual_num st \<in> Some ` {v. v < kVirtualThreadNum}"
  shows "hasher st \<in> hasher ` set (virtual_threads pub priv tid)"
proof -
  obtain v where v: "st_virtual_num st = Some v" "v < kVirtualThreadNum"
    using assms(3) by auto
  let ?v = "server_thread_v pub priv tid v"
  have "?v \<in> set (virtual_threads pub priv tid)"
    using v(2) unfolding virtual_threads_def
    by (auto simp: word_less_nat_alt intro!: rev_image_eqI [of "unat v"])
  moreover have "hasher st = hasher ?v"
    using assms(1,2) v(1) by (auto simp: hasher_ok_def st_eq_iff server_thread_v_def)
  ultimately show ?thesis
    by simp
qed

lemma hr_inv_empty [simp]: "hr_inv hasher empty_HashRing"
  by (simp add: hr_inv_def empty_HashRing_def)

lemma hr_insert_known:
  "st_mem (server_thread_v pub priv tid 0) (hr_unique_servers ring) \<Longrightarrow>
   hr_nodes (snd (hr_insert hasher pub priv n tid ring)) = hr_nodes ring
   \<and> hr_unique_servers (snd (hr_insert hasher pub priv n tid ring)) = hr_unique_servers ring"
  by (simp add: hr_insert_def Let_def)

lemma hr_insert_new:
  "\<not> st_mem (server_thread_v pub priv tid 0) (hr_unique_servers ring) \<Longrightarrow>
   hr_nodes (snd (hr_insert hasher pub priv n tid ring)) =
     fold (chm_insert hasher) (virtual_threads pub priv tid) (hr_nodes ring)
   \<and> hr_unique_servers (snd (hr_insert hasher pub priv n tid ring)) =
     hr_unique_servers ring @ [server_thread_v pub priv tid 0]"
  by (simp add: hr_insert_def Let_def st_set_insert_def)

lemma hr_inv_insert:
  assumes "hr_inv hasher ring"
  shows "hr_inv hasher (snd (hr_insert hasher pub priv n tid ring))"
proof (cases "st_mem (server_thread_v pub priv tid 0) (hr_unique_servers ring)")
  case True
  then show ?thesis
    using assms hr_insert_known [OF True]
    by (auto simp: hr_inv_def hr_insert_def Let_def)
next
  case False
  let ?N = "server_thread_v pub priv tid 0" and ?ring = "snd (hr_insert hasher pub priv n tid ring)"
  have "st_mem st (hr_unique_servers ring @ [?N])"
    if "st_mem st (hr_unique_servers ring) \<or> st_eq ?N st" for st
    using that by (auto simp: st_mem_iff)
  then have "list_all (\<lambda>(h, st). h = hasher st \<and> st_mem st (hr_unique_servers ring @ [?N])
      \<and> st_virtual_num st \<in> Some ` {v. v < kVirtualThreadNum}) (hr_nodes ?ring)"
    using assms set_fold_chm_insert(1) [of hasher "virtual_threads pub priv tid" "hr_nodes ring"]
      hr_insert_new [OF False]
    by (fastforce simp: list_all_iff hr_inv_def st_eq_sym dest: virtual_threads_eq)
  moreover have "distinct (map st_id (hr_unique_servers ring @ [?N]))"
    using assms False by (auto simp: hr_inv_def st_mem_ids)
  moreover have "om_wf (hr_server_join_count ?ring)"
    using assms False by (auto simp: hr_inv_def hr_insert_def Let_def)
  ultimately show ?thesis
    using assms hr_insert_new [OF False]
    by (auto simp: hr_inv_def)
qed

text \<open>
  A departure keeps the invariant: every virtual node of the departing server goes. A node of
  another server whose hash collides with one of them goes too.
\<close>

lemma hr_inv_remove:
  assumes "hr_inv hasher ring" "hasher_ok hasher"
  shows "hr_inv hasher (hr_remove hasher pub priv tid ring)"
proof -
  let ?N = "server_thread_v pub priv tid 0"
  have "st_mem st (st_set_erase ?N (hr_unique_servers ring))"
    if "(h, st) \<in> set (hr_nodes ring)" "h \<notin> hasher ` set (virtual_threads pub priv tid)" for h st
  proof -
    have st: "h = hasher st" "st_mem st (hr_unique_servers ring)"
        "st_virtual_num st \<in> Some ` {v. v < kVirtualThreadNum}"
      using assms(1) that(1) by (auto simp: hr_inv_def list_all_iff)
    then have "\<not> st_eq st ?N"
      using hash_virtual_threads [OF assms(2) _ st(3)] that(2) by blast
    then show ?thesis
      using st(2) by (auto simp: st_mem_iff st_set_erase_def st_eq_def)
  qed
  then show ?thesis
    using assms(1)
    by (auto simp: hr_inv_def hr_remove_def list_all_iff set_fold_chm_erase)
qed

section \<open>Which servers are responsible for a key\<close>

lemma hr_inv_sorted: "hr_inv hasher ring \<Longrightarrow> sorted (map fst (hr_nodes ring))"
  by (simp add: hr_inv_def nodes_ok_def)

lemma distinct_preference: "distinct (map st_id (preference H key ring))"
  using scan_distinct [of st_id "[]"] by (simp add: preference_def st_eq_fun)

lemma set_scan: "set (scan same found xs) \<subseteq> set found \<union> set xs"
proof (induction xs arbitrary: found)
  case (Cons x xs)
  then show ?case
    using Cons.IH [of "found @ [x]"] Cons.IH [of found] by auto
qed simp

lemma set_preference: "set (preference H key ring) \<subseteq> snd ` set (hr_nodes ring)"
  using set_scan [of st_eq "[]" "clockwise (GlobalHasher_key H key) (hr_nodes ring)"]
  by (simp add: preference_def)

text \<open>A ring of two servers on which a simple hash leaves one virtual node each, for the witnesses.\<close>

definition sample_hash :: "string \<Rightarrow> u64" where
  "sample_hash s = (if CHR ''b'' \<in> set s then 12 else if CHR ''c'' \<in> set s then 13 else 11)"

definition sample_ring :: GlobalHashRing where
  "sample_ring = \<lparr>
     hr_nodes = [(11, server_thread_v ''5.5.5.5'' ''a'' 0 0), (12, server_thread_v ''6.6.6.6'' ''bb'' 0 0)],
     hr_unique_servers = [server_thread_v ''5.5.5.5'' ''a'' 0 0, server_thread_v ''6.6.6.6'' ''bb'' 0 0],
     hr_server_join_count = [(''a'', 0), (''bb'', 0)]\<rparr>"

lemma sample_hashes:
  "GlobalHasher sample_hash \<lparr>st_public_ip = p, st_private_ip = ''a'', st_tid = t, st_virtual_num = Some v\<rparr> = 11"
  "GlobalHasher sample_hash \<lparr>st_public_ip = p, st_private_ip = ''bb'', st_tid = t, st_virtual_num = Some v\<rparr> = 12"
  using to_string_no_char [of "CHR ''b''" t] to_string_no_char [of "CHR ''b''" v]
    to_string_no_char [of "CHR ''c''" t] to_string_no_char [of "CHR ''c''" v]
  by (simp_all add: GlobalHasher_def sample_hash_def st_virtual_id_def is_digit_def)

lemma sample_ring_inv: "hr_inv (GlobalHasher sample_hash) sample_ring" "hr_nodes sample_ring \<noteq> []"
  by (simp_all add: sample_ring_def hr_inv_def nodes_ok_def om_wf_def sample_hashes st_mem_def st_eq_iff
      st_id_inj server_thread_v_def kVirtualThreadNum_def)

lemma sample_ring_ids: "card (st_id ` snd ` set (hr_nodes sample_ring)) = 2"
  by (simp add: sample_ring_def st_id_inj server_thread_v_def)

text \<open>
  C38. On a non-empty ring the search for the servers responsible for a key returns exactly when the
  replication factor is at most the number of different servers on the ring, and runs for ever
  otherwise. When it returns, it gives the first servers met clockwise from the key's position,
  as many as the replication factor, all different and all members of the ring.
\<close>

theorem responsible_global_correct:
  assumes "hr_inv (GlobalHasher H) ring" "hr_nodes ring \<noteq> []"
  shows "if unat rep \<le> card (st_id ` snd ` set (hr_nodes ring))
    then \<exists>ts. responsible_global H key rep ring = Inr ts
      \<and> ts = take (unat rep) (scan st_eq [] (clockwise (GlobalHasher_key H key) (hr_nodes ring)))
      \<and> length ts = unat rep \<and> distinct (map st_id ts)
      \<and> (\<forall>t \<in> set ts. st_mem t (hr_unique_servers ring))
    else responsible_global H key rep ring = Inl Diverges"
proof (cases "unat rep \<le> card (st_id ` snd ` set (hr_nodes ring))")
  case True
  let ?ts = "take (unat rep) (preference H key ring)"
  have "distinct (map st_id ?ts)"
    unfolding take_map [symmetric] by (rule distinct_take) (rule distinct_preference)
  moreover have "st_mem t (hr_unique_servers ring)" if "t \<in> set ?ts" for t
    using in_set_takeD [OF that] set_preference [of H key ring] assms(1)
    by (force simp: hr_inv_def list_all_iff)
  ultimately show ?thesis
    using True assms responsible_global_eq [OF hr_inv_sorted [OF assms(1)], of H key rep]
    by (auto simp: length_preference preference_def [symmetric])
next
  case False
  then show ?thesis
    using assms responsible_global_eq [OF hr_inv_sorted [OF assms(1)], of H key rep]
    by (simp add: length_preference)
qed

theorem responsible_global_correct_witness:
  "(\<exists>ts. responsible_global sample_hash ''key'' 2 sample_ring = Inr ts \<and> length ts = 2)
   \<and> responsible_global sample_hash ''key'' 3 sample_ring = Inl Diverges"
  using responsible_global_correct [OF sample_ring_inv, of 2 "''key''"]
    responsible_global_correct [OF sample_ring_inv, of 3 "''key''"]
  unfolding sample_ring_ids by auto

section \<open>Joins and departures move few keys\<close>

lemma filter_clockwise:
  "filter Q (clockwise hash nodes) = clockwise hash (filter (\<lambda>n. Q (snd n)) nodes)"
  by (simp add: clockwise_def filter_map o_def conj_commute)

lemma filter_scan:
  assumes "\<And>x y. same x y \<Longrightarrow> Q x \<longleftrightarrow> Q y"
  shows "filter Q (scan same found xs) = scan same (filter Q found) (filter Q xs)"
proof (induction xs arbitrary: found)
  case (Cons x xs)
  have "list_ex (\<lambda>y. same y x) (filter Q found) = list_ex (\<lambda>y. same y x) found" if "Q x"
    using that assms by (auto simp: list_ex_iff)
  then show ?case
    using Cons by auto
qed simp

lemma filter_preference:
  assumes "\<And>x y. st_eq x y \<Longrightarrow> Q x \<longleftrightarrow> Q y"
    and "hr_nodes ring' = filter (\<lambda>n. Q (snd n)) (hr_nodes ring)"
  shows "filter Q (preference H key ring) = preference H key ring'"
  using assms(2) filter_scan [of st_eq Q, OF assms(1)]
  by (simp add: preference_def filter_clockwise)

lemma filter_fold_chm_insert:
  assumes "\<And>v. v \<in> set vs \<Longrightarrow> \<not> Q v"
  shows "filter (\<lambda>n. Q (snd n)) (fold (chm_insert hasher) vs nodes) = filter (\<lambda>n. Q (snd n)) nodes"
  using assms
proof (induction vs arbitrary: nodes)
  case (Cons v vs)
  then have "filter (\<lambda>n. Q (snd n)) (chm_insert hasher v nodes) = filter (\<lambda>n. Q (snd n)) nodes"
    by (auto simp: chm_insert_def Let_def filter_insort_triv split: option.split)
  then show ?case
    using Cons by simp
qed simp

lemma join_preference:
  assumes "hr_inv (GlobalHasher H) ring" "\<not> st_mem (server_thread_v pub priv tid 0) (hr_unique_servers ring)"
  shows "filter (\<lambda>t. \<not> st_eq t (server_thread_v pub priv tid 0))
      (preference H key (snd (hr_insert (GlobalHasher H) pub priv n tid ring))) = preference H key ring"
proof (rule filter_preference)
  let ?N = "server_thread_v pub priv tid 0"
  have "filter (\<lambda>n. \<not> st_eq (snd n) ?N) (hr_nodes ring) = hr_nodes ring"
    using assms by (intro filter_True) (fastforce simp: hr_inv_def list_all_iff st_mem_iff st_eq_def)
  then show "hr_nodes ring = filter (\<lambda>m. \<not> st_eq (snd m) ?N)
      (hr_nodes (snd (hr_insert (GlobalHasher H) pub priv n tid ring)))"
    using hr_insert_new [OF assms(2), of "GlobalHasher H" n] virtual_threads_eq
      filter_fold_chm_insert [of "virtual_threads pub priv tid" "\<lambda>t. \<not> st_eq t ?N"
        "GlobalHasher H" "hr_nodes ring"]
    by simp
qed (auto simp: st_eq_def)

lemma filter_take:
  "filter Q (take m xs) = take (length (filter Q (take m xs))) (filter Q xs)"
  by (metis append_take_drop_id append_eq_conv_conj filter_append)

lemma length_filter_one:
  "distinct (map f xs) \<Longrightarrow> length xs \<le> length (filter (\<lambda>x. f x \<noteq> c) xs) + 1"
proof (induction xs)
  case (Cons x xs)
  show ?case
  proof (cases "f x = c")
    case True
    then have "filter (\<lambda>x. f x \<noteq> c) xs = xs"
      using Cons.prems by (intro filter_True) (fastforce simp: image_iff)
    then show ?thesis
      by simp
  qed (use Cons in simp)
qed simp

text \<open>
  C35. When a new server joins, a key's responsible servers change only by the new server coming in:
  the old servers among them keep their order and at most one of them, the last, is displaced. No
  assumption on hash collisions is needed.
\<close>

theorem join_moves_keys_only_to_new_server:
  assumes "hr_inv (GlobalHasher H) ring" "hr_nodes ring \<noteq> []"
    and new: "\<not> st_mem (server_thread_v pub priv tid 0) (hr_unique_servers ring)"
    and before: "responsible_global H key rep ring = Inr ts"
    and join: "hr_insert (GlobalHasher H) pub priv n tid ring = (joined, ring')"
  shows "joined \<and> hr_inv (GlobalHasher H) ring'
    \<and> (\<exists>ts' m. responsible_global H key rep ring' = Inr ts' \<and> length ts' = length ts
      \<and> filter (\<lambda>t. \<not> st_eq t (server_thread_v pub priv tid 0)) ts' = take m ts \<and> length ts \<le> m + 1)"
proof -
  let ?N = "server_thread_v pub priv tid 0" and ?Q = "\<lambda>t. \<not> st_eq t (server_thread_v pub priv tid 0)"
  let ?p = "preference H key ring" and ?p' = "preference H key ring'"
  have ring': "ring' = snd (hr_insert (GlobalHasher H) pub priv n tid ring)"
    by (simp add: join)
  have inv': "hr_inv (GlobalHasher H) ring'"
    unfolding ring' by (rule hr_inv_insert [OF assms(1)])
  have p: "filter ?Q ?p' = ?p"
    unfolding ring' by (rule join_preference [OF assms(1) new])
  have rep: "unat rep \<le> length ?p" "ts = take (unat rep) ?p"
    using before assms(2) responsible_global_eq [OF hr_inv_sorted [OF assms(1)], of H key rep]
    by (auto split: if_splits)
  have len: "unat rep \<le> length ?p'"
    using rep(1) p length_filter_le [of ?Q ?p'] by simp
  have "hr_nodes ring' \<noteq> []"
    using assms(2) set_fold_chm_insert(2) [of "hr_nodes ring" "GlobalHasher H" "virtual_threads pub priv tid"]
      hr_insert_new [OF new, of "GlobalHasher H" n] unfolding ring' by (metis set_empty subset_empty)
  with len have after: "responsible_global H key rep ring' = Inr (take (unat rep) ?p')"
    using responsible_global_eq [OF hr_inv_sorted [OF inv'], of H key rep] by simp
  let ?m = "length (filter ?Q (take (unat rep) ?p'))"
  have "?m \<le> unat rep"
    using length_filter_le [of ?Q "take (unat rep) ?p'"] len by simp
  then have "filter ?Q (take (unat rep) ?p') = take ?m ts"
    using filter_take [of ?Q "unat rep" ?p'] unfolding p rep(2) by (simp add: min_absorb1)
  moreover have "unat rep \<le> ?m + 1"
    using length_filter_one [of st_id "take (unat rep) ?p'" "st_id ?N"] distinct_preference [of H key ring']
      len by (simp add: st_eq_def take_map [symmetric] distinct_take)
  moreover have "joined"
    using join new by (simp add: hr_insert_def Let_def)
  ultimately show ?thesis
    using inv' after len rep by auto
qed

theorem join_moves_keys_only_to_new_server_witness:
  "let (joined, ring') = hr_insert (GlobalHasher sample_hash) ''7.7.7.7'' ''ccc'' 0 0 sample_ring
   in joined \<and> (\<exists>ts'. responsible_global sample_hash ''key'' 2 ring' = Inr ts' \<and> length ts' = 2)"
proof -
  obtain joined ring' where
    join: "hr_insert (GlobalHasher sample_hash) ''7.7.7.7'' ''ccc'' 0 0 sample_ring = (joined, ring')"
    by (cases "hr_insert (GlobalHasher sample_hash) ''7.7.7.7'' ''ccc'' 0 0 sample_ring")
  have before: "responsible_global sample_hash ''key'' 2 sample_ring =
      Inr (take 2 (preference sample_hash ''key'' sample_ring))"
    using responsible_global_eq [OF hr_inv_sorted [OF sample_ring_inv(1)], of sample_hash "''key''" 2]
      sample_ring_inv(2) by (simp add: length_preference sample_ring_ids)
  have new: "\<not> st_mem (server_thread_v ''7.7.7.7'' ''ccc'' 0 0) (hr_unique_servers sample_ring)"
    by (simp add: sample_ring_def st_mem_def st_eq_iff server_thread_v_def)
  show ?thesis
    using join_moves_keys_only_to_new_server [OF sample_ring_inv new before join]
    by (auto simp: join length_preference sample_ring_ids)
qed

lemma fold_chm_erase_eq:
  "fold (chm_erase hasher) vs nodes = filter (\<lambda>n. fst n \<notin> hasher ` set vs) nodes"
  by (induction vs arbitrary: nodes) (auto simp: chm_erase_def AList.delete_eq intro!: filter_cong)

text \<open>
  When a server departs and none of its virtual nodes shares its hash with a node of another
  server, the servers responsible for a key are those before without the departed one, in the same
  order and extended at the end as far as the ring allows.
\<close>

theorem departure_keeps_other_servers:
  assumes "hr_inv (GlobalHasher H) ring"
    and no_collision: "\<forall>(h, st) \<in> set (hr_nodes ring).
      h \<in> GlobalHasher H ` set (virtual_threads pub priv tid) \<longrightarrow> st_eq st (server_thread_v pub priv tid 0)"
    and before: "responsible_global H key rep ring = Inr ts"
    and after: "responsible_global H key rep (hr_remove (GlobalHasher H) pub priv tid ring) = Inr ts'"
  shows "hr_inv (GlobalHasher H) (hr_remove (GlobalHasher H) pub priv tid ring)
    \<and> (\<exists>more. ts' = filter (\<lambda>t. \<not> st_eq t (server_thread_v pub priv tid 0)) ts @ more \<and> length more \<le> 1)"
proof -
  let ?N = "server_thread_v pub priv tid 0" and ?Q = "\<lambda>t. \<not> st_eq t (server_thread_v pub priv tid 0)"
  let ?ring = "hr_remove (GlobalHasher H) pub priv tid ring"
  let ?p = "preference H key ring"
  have inv: "hr_inv (GlobalHasher H) ?ring"
    by (rule hr_inv_remove [OF assms(1) hasher_ok_global])
  have "st_eq st ?N \<longleftrightarrow> h \<in> GlobalHasher H ` set (virtual_threads pub priv tid)"
    if "(h, st) \<in> set (hr_nodes ring)" for h st
  proof -
    have st: "h = GlobalHasher H st" "st_virtual_num st \<in> Some ` {v. v < kVirtualThreadNum}"
      using assms(1) that by (auto simp: hr_inv_def list_all_iff)
    show ?thesis
      using no_collision that hash_virtual_threads [OF hasher_ok_global _ st(2), of pub priv tid H] st(1)
      by blast
  qed
  then have "hr_nodes ?ring = filter (\<lambda>n. ?Q (snd n)) (hr_nodes ring)"
    by (auto simp: hr_remove_def fold_chm_erase_eq intro!: filter_cong)
  then have p: "preference H key ?ring = filter ?Q ?p"
    by (intro filter_preference [symmetric]) (auto simp: st_eq_def)
  have ts: "ts = take (unat rep) ?p"
    using before responsible_global_eq [OF hr_inv_sorted [OF assms(1)], of H key rep]
    by (auto split: if_splits simp: preference_def clockwise_def)
  have ts': "ts' = take (unat rep) (filter ?Q ?p)"
    using after responsible_global_eq [OF hr_inv_sorted [OF inv], of H key rep] p
    by (auto split: if_splits simp: preference_def clockwise_def)
  let ?k = "length (filter ?Q ts)"
  have "?k \<le> unat rep"
    using length_filter_le [of ?Q ts] ts by simp
  then have "ts' = filter ?Q ts @ take (unat rep - ?k) (drop ?k (filter ?Q ?p))"
    using filter_take [of ?Q "unat rep" ?p] unfolding ts' ts
    by (metis append_take_drop_id le_add_diff_inverse take_add)
  moreover have "length (take (unat rep - ?k) (drop ?k (filter ?Q ?p))) \<le> 1"
  proof (cases "unat rep \<le> length ?p")
    case True
    then have "unat rep \<le> ?k + 1"
      using length_filter_one [of st_id ts "st_id ?N"] distinct_preference [of H key ring]
      by (simp add: ts st_eq_def take_map [symmetric] distinct_take)
    then show ?thesis
      by simp
  next
    case False
    then show ?thesis
      by (simp add: ts)
  qed
  ultimately show ?thesis
    using inv by blast
qed

theorem departure_keeps_other_servers_witness:
  "\<exists>more. responsible_global sample_hash ''key'' 1 (hr_remove (GlobalHasher sample_hash) ''5.5.5.5'' ''a'' 0 sample_ring) =
    Inr (filter (\<lambda>t. \<not> st_eq t (server_thread_v ''5.5.5.5'' ''a'' 0 0))
      (take 1 (preference sample_hash ''key'' sample_ring)) @ more)"
proof -
  have hash: "GlobalHasher sample_hash ` set (virtual_threads ''5.5.5.5'' ''a'' 0) = {11}"
    by (simp add: virtual_threads_def server_thread_v_def sample_hashes kVirtualThreadNum_def image_image
        image_constant_conv)
  have no_collision: "\<forall>(h, st) \<in> set (hr_nodes sample_ring).
      h \<in> GlobalHasher sample_hash ` set (virtual_threads ''5.5.5.5'' ''a'' 0) \<longrightarrow>
      st_eq st (server_thread_v ''5.5.5.5'' ''a'' 0 0)"
    unfolding hash by (simp add: sample_ring_def)
  have nodes: "hr_nodes (hr_remove (GlobalHasher sample_hash) ''5.5.5.5'' ''a'' 0 sample_ring) =
      [(12, server_thread_v ''6.6.6.6'' ''bb'' 0 0)]"
    unfolding hr_remove_def fold_chm_erase_eq hash by (simp add: sample_ring_def)
  have before: "responsible_global sample_hash ''key'' 1 sample_ring =
      Inr (take 1 (preference sample_hash ''key'' sample_ring))"
    using responsible_global_eq [OF hr_inv_sorted [OF sample_ring_inv(1)], of sample_hash "''key''" 1]
      sample_ring_inv(2) by (simp add: length_preference sample_ring_ids)
  have after: "\<exists>ts'. responsible_global sample_hash ''key'' 1
      (hr_remove (GlobalHasher sample_hash) ''5.5.5.5'' ''a'' 0 sample_ring) = Inr ts'"
    using responsible_global_eq [of "hr_remove (GlobalHasher sample_hash) ''5.5.5.5'' ''a'' 0 sample_ring"
        sample_hash "''key''" 1]
    by (simp add: nodes length_preference)
  then show ?thesis
    using departure_keeps_other_servers [OF sample_ring_inv(1) no_collision before] by blast
qed

end
