(* ===== verification/Anna_Responsible.thy ===== *)
theory Anna_Responsible
  imports Anna_HashRing
begin

text \<open>
  Finding the threads responsible for a key (\<^verbatim>\<open>src/hash_ring/hash_ring.cpp\<close>). The record
  \<open>ring_ctx\<close> is the part of a process's state these functions read and write: the hash rings of
  every tier, the known replication factors, the seeds of the random generators, and the messages
  sent so far in order (\<open>outbox\<close>), each with the address of the socket it was pushed to. The
  states of servers, routers and the monitor extend it.

  The operators \<^verbatim>\<open>[]\<close> of the maps insert a default entry when the key is missing; the model
  threads these entries through the state.
\<close>

section \<open>State\<close>

record ring_ctx =
  global_hash_rings :: GlobalRingMap
  local_hash_rings :: LocalRingMap
  key_replication_map :: "(Key, KeyReplication) omap"
  seed :: u32
  rand_state :: u32
  outbox :: "(Address \<times> string) list"

definition send_string :: "string \<Rightarrow> Address \<Rightarrow> 'a ring_ctx_scheme \<Rightarrow> 'a ring_ctx_scheme" where
  "send_string msg address ctx = ctx\<lparr>outbox := outbox ctx @ [(address, msg)]\<rparr>"

definition global_ring :: "Tier \<Rightarrow> 'a ring_ctx_scheme \<Rightarrow> GlobalHashRing" where
  "global_ring tier ctx = om_at empty_HashRing (global_hash_rings ctx) tier"

definition local_ring :: "Tier \<Rightarrow> 'a ring_ctx_scheme \<Rightarrow> LocalHashRing" where
  "local_ring tier ctx = om_at empty_HashRing (local_hash_rings ctx) tier"

definition touch_global_ring :: "Tier \<Rightarrow> 'a ring_ctx_scheme \<Rightarrow> 'a ring_ctx_scheme" where
  "touch_global_ring tier ctx =
     ctx\<lparr>global_hash_rings := om_touch empty_HashRing tier (global_hash_rings ctx)\<rparr>"

definition touch_local_ring :: "Tier \<Rightarrow> 'a ring_ctx_scheme \<Rightarrow> 'a ring_ctx_scheme" where
  "touch_local_ring tier ctx =
     ctx\<lparr>local_hash_rings := om_touch empty_HashRing tier (local_hash_rings ctx)\<rparr>"

definition replication_of :: "Key \<Rightarrow> 'a ring_ctx_scheme \<Rightarrow> KeyReplication" where
  "replication_of key ctx = om_at empty_KeyReplication (key_replication_map ctx) key"

definition global_rep :: "Key \<Rightarrow> Tier \<Rightarrow> 'a ring_ctx_scheme \<Rightarrow> u32" where
  "global_rep key tier ctx = om_at 0 (global_replication (replication_of key ctx)) tier"

definition local_rep :: "Key \<Rightarrow> Tier \<Rightarrow> 'a ring_ctx_scheme \<Rightarrow> u32" where
  "local_rep key tier ctx = om_at 0 (local_replication (replication_of key ctx)) tier"

definition touch_global_rep :: "Key \<Rightarrow> Tier \<Rightarrow> 'a ring_ctx_scheme \<Rightarrow> 'a ring_ctx_scheme" where
  "touch_global_rep key tier ctx = ctx\<lparr>key_replication_map :=
     om_modify empty_KeyReplication key
       (\<lambda>r. r\<lparr>global_replication := om_touch 0 tier (global_replication r)\<rparr>)
       (key_replication_map ctx)\<rparr>"

definition touch_local_rep :: "Key \<Rightarrow> Tier \<Rightarrow> 'a ring_ctx_scheme \<Rightarrow> 'a ring_ctx_scheme" where
  "touch_local_rep key tier ctx = ctx\<lparr>key_replication_map :=
     om_modify empty_KeyReplication key
       (\<lambda>r. r\<lparr>local_replication := om_touch 0 tier (local_replication r)\<rparr>)
       (key_replication_map ctx)\<rparr>"

section \<open>Operations\<close>

definition prepare_get_tuple :: "KeyRequest \<Rightarrow> Key \<Rightarrow> LatticeType \<Rightarrow> KeyRequest" where
  "prepare_get_tuple req key lattice_type = req\<lparr>rq_tuples := rq_tuples req @
     [empty_KeyTuple\<lparr>kt_key := key, kt_lattice_type := lattice_type\<rparr>]\<rparr>"

definition prepare_put_tuple :: "KeyRequest \<Rightarrow> Key \<Rightarrow> LatticeType \<Rightarrow> string \<Rightarrow> KeyRequest" where
  "prepare_put_tuple req key lattice_type payload = req\<lparr>rq_tuples := rq_tuples req @
     [empty_KeyTuple\<lparr>kt_key := key, kt_lattice_type := lattice_type, kt_payload := payload\<rparr>]\<rparr>"

definition get_responsible_threads_metadata ::
    "env \<Rightarrow> Key \<Rightarrow> GlobalHashRing \<Rightarrow> LocalHashRing \<Rightarrow> ServerThread list res" where
  "get_responsible_threads_metadata E key global_memory_hash_ring local_memory_hash_ring =
     rbind (responsible_global (env_hash E) key kMetadataReplicationFactor global_memory_hash_ring)
       (\<lambda>threads. rfold (\<lambda>thread result.
          rbind (responsible_local (env_hash E) key (kDefaultLocalReplication E) local_memory_hash_ring)
            (\<lambda>tids. Inr (result @
               map (server_thread (st_public_ip thread) (st_private_ip thread)) tids)))
          threads [])"

definition issue_replication_factor_request ::
    "env \<Rightarrow> Address \<Rightarrow> Key \<Rightarrow> GlobalHashRing \<Rightarrow> LocalHashRing \<Rightarrow> 'a ring_ctx_scheme
      \<Rightarrow> 'a ring_ctx_scheme res" where
  "issue_replication_factor_request E response_address key global_memory_hash_ring
       local_memory_hash_ring ctx =
     (let replication_key = get_replication_key key replication
      in rbind (get_responsible_threads_metadata E replication_key global_memory_hash_ring
             local_memory_hash_ring)
           (\<lambda>threads.
              if length threads = 0 then Inl DivByZero
              else
                let (n, new_seed) = env_rand_r E (seed ctx);
                    target_address = key_request_connect_address (threads ! (n mod length threads));
                    key_request = empty_KeyRequest\<lparr>rq_type := GET,
                      rq_response_address := response_address\<rparr>;
                    key_request = prepare_get_tuple key_request replication_key LWW;
                    serialized = ser_KeyRequest (env_codec E) key_request
                in Inr (send_string serialized target_address (ctx\<lparr>seed := new_seed\<rparr>))))"

definition responsible_in_tier ::
    "env \<Rightarrow> Key \<Rightarrow> Tier \<Rightarrow> ServerThread list \<times> 'a ring_ctx_scheme
      \<Rightarrow> (ServerThread list \<times> 'a ring_ctx_scheme) res" where
  "responsible_in_tier E key tier = (\<lambda>(result, ctx).
     rbind (responsible_global (env_hash E) key (global_rep key tier ctx) (global_ring tier ctx))
       (\<lambda>threads. rfold (\<lambda>thread (result, ctx).
          rbind (responsible_local (env_hash E) key (local_rep key tier ctx) (local_ring tier ctx))
            (\<lambda>tids. Inr (result @
                 map (server_thread (st_public_ip thread) (st_private_ip thread)) tids,
               touch_local_ring tier (touch_local_rep key tier ctx))))
          threads (result, touch_global_ring tier (touch_global_rep key tier ctx))))"

definition get_responsible_threads ::
    "env \<Rightarrow> Address \<Rightarrow> Key \<Rightarrow> bool \<Rightarrow> Tier list \<Rightarrow> 'a ring_ctx_scheme
      \<Rightarrow> ((ServerThread list \<times> bool) \<times> 'a ring_ctx_scheme) res" where
  "get_responsible_threads E response_address key metadata tiers ctx =
     (if metadata
      then rbind (get_responsible_threads_metadata E key (global_ring MEMORY ctx) (local_ring MEMORY ctx))
             (\<lambda>threads. Inr ((threads, True), touch_local_ring MEMORY (touch_global_ring MEMORY ctx)))
      else case map_of (key_replication_map ctx) key of
             None \<Rightarrow>
               rbind (issue_replication_factor_request E response_address key
                    (global_ring MEMORY ctx) (local_ring MEMORY ctx)
                    (touch_local_ring MEMORY (touch_global_ring MEMORY ctx)))
                 (\<lambda>ctx. Inr (([], False), ctx))
           | Some _ \<Rightarrow>
               rbind (rfold (responsible_in_tier E key) tiers ([], ctx))
                 (\<lambda>(result, ctx). Inr ((result, True), ctx)))"

definition prepare_metadata_request ::
    "env \<Rightarrow> Key \<Rightarrow> GlobalHashRing \<Rightarrow> LocalHashRing \<Rightarrow> (Address, KeyRequest) omap \<Rightarrow> Address \<Rightarrow> u32
      \<Rightarrow> RequestType \<Rightarrow> 'a ring_ctx_scheme
      \<Rightarrow> (Address \<times> (Address, KeyRequest) omap \<times> u32 \<times> 'a ring_ctx_scheme) res" where
  "prepare_metadata_request E key global_memory_hash_ring local_memory_hash_ring addr_request_map
       response_address rid type ctx =
     rbind (get_responsible_threads_metadata E key global_memory_hash_ring local_memory_hash_ring)
       (\<lambda>threads.
          if length threads \<noteq> 0
          then let (n, new_state) = env_rand E (rand_state ctx);
                   target_address = key_request_connect_address (threads ! (n mod length threads));
                   ctx = ctx\<lparr>rand_state := new_state\<rparr>
               in (case map_of addr_request_map target_address of
                     None \<Rightarrow>
                       let req_id = response_address @ '':'' @ to_string rid;
                           request = empty_KeyRequest\<lparr>rq_type := type,
                             rq_response_address := response_address, rq_request_id := req_id\<rparr>
                       in Inr (target_address, AList.update target_address request addr_request_map,
                            rid + 1, ctx)
                   | Some _ \<Rightarrow> Inr (target_address, addr_request_map, rid, ctx))
          else Inr ([], addr_request_map, rid, ctx))"

definition prepare_metadata_get_request ::
    "env \<Rightarrow> Key \<Rightarrow> GlobalHashRing \<Rightarrow> LocalHashRing \<Rightarrow> (Address, KeyRequest) omap \<Rightarrow> Address \<Rightarrow> u32
      \<Rightarrow> 'a ring_ctx_scheme \<Rightarrow> ((Address, KeyRequest) omap \<times> u32 \<times> 'a ring_ctx_scheme) res" where
  "prepare_metadata_get_request E key global_memory_hash_ring local_memory_hash_ring
       addr_request_map response_address rid ctx =
     rbind (prepare_metadata_request E key global_memory_hash_ring local_memory_hash_ring
          addr_request_map response_address rid GET ctx)
       (\<lambda>(target_address, addr_request_map, rid, ctx).
          Inr (if target_address \<noteq> []
               then om_modify empty_KeyRequest target_address (\<lambda>r. prepare_get_tuple r key LWW)
                 addr_request_map
               else addr_request_map, rid, ctx))"

definition prepare_metadata_put_request ::
    "env \<Rightarrow> u64 \<Rightarrow> Key \<Rightarrow> string \<Rightarrow> GlobalHashRing \<Rightarrow> LocalHashRing \<Rightarrow> (Address, KeyRequest) omap
      \<Rightarrow> Address \<Rightarrow> u32 \<Rightarrow> 'a ring_ctx_scheme
      \<Rightarrow> ((Address, KeyRequest) omap \<times> u32 \<times> 'a ring_ctx_scheme) res" where
  "prepare_metadata_put_request E now key value global_memory_hash_ring local_memory_hash_ring
       addr_request_map response_address rid ctx =
     rbind (prepare_metadata_request E key global_memory_hash_ring local_memory_hash_ring
          addr_request_map response_address rid PUT ctx)
       (\<lambda>(target_address, addr_request_map, rid, ctx).
          if target_address \<noteq> []
          then rbind (generate_timestamp 0 now)
                 (\<lambda>ts. Inr (om_modify empty_KeyRequest target_address
                     (\<lambda>r. prepare_put_tuple r key LWW (serialize_timestamped (env_codec E) ts value))
                     addr_request_map, rid, ctx))
          else Inr (addr_request_map, rid, ctx))"

section \<open>What the lookups leave unchanged\<close>

text \<open>
  Two states agree when they hold the same rings and replication factors, up to default entries,
  and the same remaining fields. A lookup leads to a state that agrees.
\<close>

definition ctx_agree :: "'a ring_ctx_scheme \<Rightarrow> 'a ring_ctx_scheme \<Rightarrow> bool" where
  "ctx_agree a b \<longleftrightarrow>
     (\<forall>tier. global_ring tier a = global_ring tier b) \<and> (\<forall>tier. local_ring tier a = local_ring tier b)
   \<and> (\<forall>key tier. global_rep key tier a = global_rep key tier b)
   \<and> (\<forall>key tier. local_rep key tier a = local_rep key tier b)
   \<and> dom (map_of (key_replication_map a)) = dom (map_of (key_replication_map b))
   \<and> rand_state a = rand_state b \<and> ring_ctx.more a = ring_ctx.more b"

named_theorems agree_intros \<open>steps to an agreeing state\<close>

lemma ctx_agree_refl [simp, agree_intros]: "ctx_agree a a"
  by (simp add: ctx_agree_def)

lemma ctx_agree_trans [trans]: "ctx_agree a b \<Longrightarrow> ctx_agree b c \<Longrightarrow> ctx_agree a c"
  by (simp add: ctx_agree_def)

lemma ctx_agree_touch_global_ring [agree_intros]:
  "ctx_agree a b \<Longrightarrow> ctx_agree a (touch_global_ring tier b)"
  by (auto simp: ctx_agree_def touch_global_ring_def global_ring_def local_ring_def global_rep_def
      local_rep_def replication_of_def)

lemma ctx_agree_touch_local_ring [agree_intros]:
  "ctx_agree a b \<Longrightarrow> ctx_agree a (touch_local_ring tier b)"
  by (auto simp: ctx_agree_def touch_local_ring_def global_ring_def local_ring_def global_rep_def
      local_rep_def replication_of_def)

lemma ctx_agree_touch_global_rep [agree_intros]:
  "ctx_agree a b \<Longrightarrow> key \<in> dom (map_of (key_replication_map b)) \<Longrightarrow>
     ctx_agree a (touch_global_rep key tier b)"
  by (auto simp: ctx_agree_def touch_global_rep_def global_ring_def local_ring_def global_rep_def
      local_rep_def replication_of_def split: if_splits)

lemma ctx_agree_touch_local_rep [agree_intros]:
  "ctx_agree a b \<Longrightarrow> key \<in> dom (map_of (key_replication_map b)) \<Longrightarrow>
     ctx_agree a (touch_local_rep key tier b)"
  by (auto simp: ctx_agree_def touch_local_rep_def global_ring_def local_ring_def global_rep_def
      local_rep_def replication_of_def split: if_splits)

lemma ctx_agree_send [agree_intros]: "ctx_agree a b \<Longrightarrow> ctx_agree a (send_string msg addr b)"
  by (auto simp: ctx_agree_def send_string_def global_ring_def local_ring_def global_rep_def
      local_rep_def replication_of_def)

lemma ctx_agree_seed [agree_intros]: "ctx_agree a b \<Longrightarrow> ctx_agree a (b\<lparr>seed := n\<rparr>)"
  by (auto simp: ctx_agree_def global_ring_def local_ring_def global_rep_def
      local_rep_def replication_of_def)

lemma outbox_touch [simp]:
  "outbox (touch_global_ring tier ctx) = outbox ctx"
  "outbox (touch_local_ring tier ctx) = outbox ctx"
  "outbox (touch_global_rep key tier ctx) = outbox ctx"
  "outbox (touch_local_rep key tier ctx) = outbox ctx"
  by (simp_all add: touch_global_ring_def touch_local_ring_def touch_global_rep_def touch_local_rep_def)

lemma outbox_send [simp]: "outbox (send_string msg addr ctx) = outbox ctx @ [(addr, msg)]"
  by (simp add: send_string_def)

lemma krm_touch [simp]:
  "key_replication_map (touch_global_ring tier ctx) = key_replication_map ctx"
  "key_replication_map (touch_local_ring tier ctx) = key_replication_map ctx"
  "key \<in> dom (map_of (key_replication_map (touch_global_rep key tier ctx)))"
  "key \<in> dom (map_of (key_replication_map (touch_local_rep key tier ctx)))"
  by (auto simp: touch_global_ring_def touch_local_ring_def touch_global_rep_def touch_local_rep_def)

section \<open>What the lookups return\<close>

definition threads_of :: "ServerThread list \<Rightarrow> u32 list \<Rightarrow> ServerThread list" where
  "threads_of servers tids =
     concat (map (\<lambda>t. map (server_thread (st_public_ip t) (st_private_ip t)) tids) servers)"

definition tier_threads :: "env \<Rightarrow> Key \<Rightarrow> Tier \<Rightarrow> 'a ring_ctx_scheme \<Rightarrow> ServerThread list res" where
  "tier_threads E key tier ctx =
     rbind (responsible_global (env_hash E) key (global_rep key tier ctx) (global_ring tier ctx))
       (\<lambda>servers. if servers = [] then Inr []
          else rbind (responsible_local (env_hash E) key (local_rep key tier ctx) (local_ring tier ctx))
            (\<lambda>tids. Inr (threads_of servers tids)))"

lemma ctx_agree_simps:
  assumes "ctx_agree a b"
  shows "global_rep key tier b = global_rep key tier a" "local_rep key tier b = local_rep key tier a"
    "global_ring tier b = global_ring tier a" "local_ring tier b = local_ring tier a"
  using assms by (simp_all add: ctx_agree_def)

lemma ctx_agree_dom:
  "ctx_agree a b \<Longrightarrow> key \<in> dom (map_of (key_replication_map b)) \<longleftrightarrow> key \<in> dom (map_of (key_replication_map a))"
  by (simp add: ctx_agree_def)

lemma tier_threads_agree: "ctx_agree a b \<Longrightarrow> tier_threads E key tier b = tier_threads E key tier a"
  by (simp add: tier_threads_def ctx_agree_simps cong: if_cong)

lemma local_threads_loop:
  assumes "ctx_agree ctx0 ctx" "key \<in> dom (map_of (key_replication_map ctx))"
    and "responsible_local (env_hash E) key (local_rep key tier ctx0) (local_ring tier ctx0) = Inr tids"
  shows "\<exists>ctx'. rfold (\<lambda>thread (result, ctx).
        rbind (responsible_local (env_hash E) key (local_rep key tier ctx) (local_ring tier ctx))
          (\<lambda>tids. Inr (result @ map (server_thread (st_public_ip thread) (st_private_ip thread)) tids,
             touch_local_ring tier (touch_local_rep key tier ctx))))
        servers (result, ctx) = Inr (result @ threads_of servers tids, ctx')
      \<and> ctx_agree ctx0 ctx' \<and> outbox ctx' = outbox ctx"
  using assms(1,2)
proof (induction servers arbitrary: result ctx)
  case Nil
  then show ?case
    by (auto simp: threads_of_def)
next
  case (Cons t servers)
  let ?ctx = "touch_local_ring tier (touch_local_rep key tier ctx)"
  have "ctx_agree ctx0 ?ctx" "key \<in> dom (map_of (key_replication_map ?ctx))"
    using Cons.prems by (auto intro: agree_intros)
  from Cons.IH [OF this, of "result @ map (server_thread (st_public_ip t) (st_private_ip t)) tids"]
  show ?case
    using Cons.prems assms(3) by (auto simp: ctx_agree_simps threads_of_def)
qed

lemma responsible_in_tier_Inr:
  assumes "ctx_agree ctx0 ctx" "key \<in> dom (map_of (key_replication_map ctx))"
    and "tier_threads E key tier ctx0 = Inr ts"
  shows "\<exists>ctx'. responsible_in_tier E key tier (result, ctx) = Inr (result @ ts, ctx')
    \<and> ctx_agree ctx0 ctx' \<and> outbox ctx' = outbox ctx"
proof -
  let ?ctx = "touch_global_ring tier (touch_global_rep key tier ctx)"
  obtain servers where servers:
      "responsible_global (env_hash E) key (global_rep key tier ctx) (global_ring tier ctx) = Inr servers"
    using assms(1,3) by (auto simp: tier_threads_def ctx_agree_simps res_simps)
  have agree: "ctx_agree ctx0 ?ctx" "key \<in> dom (map_of (key_replication_map ?ctx))"
    using assms(1,2) by (auto intro: agree_intros)
  show ?thesis
  proof (cases "servers = []")
    case True
    then show ?thesis
      using servers assms(1,3) agree
      by (auto simp: responsible_in_tier_def tier_threads_def ctx_agree_simps)
  next
    case False
    then obtain tids where
        "responsible_local (env_hash E) key (local_rep key tier ctx0) (local_ring tier ctx0) = Inr tids"
        "ts = threads_of servers tids"
      using servers assms(1,3) by (auto simp: tier_threads_def ctx_agree_simps res_simps)
    with local_threads_loop [OF agree this(1), of servers result] servers show ?thesis
      by (simp add: responsible_in_tier_def)
  qed
qed

lemma responsible_in_tier_Inl:
  assumes "key \<in> dom (map_of (key_replication_map ctx))" "tier_threads E key tier ctx = Inl e"
  shows "responsible_in_tier E key tier (result, ctx) = Inl e"
proof (cases "responsible_global (env_hash E) key (global_rep key tier ctx) (global_ring tier ctx)")
  case (Inl e')
  then show ?thesis
    using assms(2) by (simp add: responsible_in_tier_def tier_threads_def)
next
  case (Inr servers)
  let ?ctx = "touch_global_ring tier (touch_global_rep key tier ctx)"
  have agree: "ctx_agree ctx ?ctx"
    using assms(1) by (auto intro: agree_intros)
  obtain t ts where servers: "servers = t # ts"
    using Inr assms(2) by (cases servers) (auto simp: tier_threads_def)
  have "responsible_local (env_hash E) key (local_rep key tier ctx) (local_ring tier ctx) = Inl e"
    using Inr assms(2) servers by (auto simp: tier_threads_def rbind_def split: sum.splits)
  then show ?thesis
    using Inr servers by (simp add: responsible_in_tier_def ctx_agree_simps [OF agree])
qed

definition all_threads :: "env \<Rightarrow> Key \<Rightarrow> Tier list \<Rightarrow> 'a ring_ctx_scheme \<Rightarrow> ServerThread list res" where
  "all_threads E key tiers ctx =
     rfold (\<lambda>tier result. rbind (tier_threads E key tier ctx) (\<lambda>ts. Inr (result @ ts))) tiers []"

lemma responsible_in_tiers:
  assumes "ctx_agree ctx0 ctx" "key \<in> dom (map_of (key_replication_map ctx0))"
  shows "case rfold (\<lambda>tier result. rbind (tier_threads E key tier ctx0) (\<lambda>ts. Inr (result @ ts))) tiers result of
      Inl e \<Rightarrow> rfold (responsible_in_tier E key) tiers (result, ctx) = Inl e
    | Inr ts \<Rightarrow> \<exists>ctx'. rfold (responsible_in_tier E key) tiers (result, ctx) = Inr (ts, ctx')
        \<and> ctx_agree ctx0 ctx' \<and> outbox ctx' = outbox ctx"
  using assms
proof (induction tiers arbitrary: result ctx)
  case Nil
  then show ?case
    by simp
next
  case (Cons tier tiers)
  have key: "key \<in> dom (map_of (key_replication_map ctx))"
    using Cons.prems ctx_agree_dom by blast
  show ?case
  proof (cases "tier_threads E key tier ctx0")
    case (Inl e)
    then show ?thesis
      using responsible_in_tier_Inl [OF key, of E tier] tier_threads_agree [OF Cons.prems(1), of E key tier]
      by simp
  next
    case (Inr ts)
    from responsible_in_tier_Inr [OF Cons.prems(1) key Inr, of result]
    obtain ctx' where ctx': "responsible_in_tier E key tier (result, ctx) = Inr (result @ ts, ctx')"
        "ctx_agree ctx0 ctx'" "outbox ctx' = outbox ctx"
      by blast
    show ?thesis
      using Cons.IH [OF ctx'(2) Cons.prems(2), of "result @ ts"] Inr ctx'
      by (auto split: sum.splits)
  qed
qed

text \<open>A lookup with known replication factors only reads; one without them sends one request.\<close>

lemma get_responsible_threads_known:
  assumes "key \<in> dom (map_of (key_replication_map ctx))"
  shows "case all_threads E key tiers ctx of
      Inl e \<Rightarrow> get_responsible_threads E addr key False tiers ctx = Inl e
    | Inr ts \<Rightarrow> \<exists>ctx'. get_responsible_threads E addr key False tiers ctx = Inr ((ts, True), ctx')
        \<and> ctx_agree ctx ctx' \<and> outbox ctx' = outbox ctx"
  using responsible_in_tiers [OF ctx_agree_refl assms, of E tiers "[]"] assms
  by (auto simp: get_responsible_threads_def all_threads_def split: sum.splits)

lemma get_responsible_threads_metadata_key:
  "get_responsible_threads E addr key True tiers ctx =
     rbind (get_responsible_threads_metadata E key (global_ring MEMORY ctx) (local_ring MEMORY ctx))
       (\<lambda>ts. Inr ((ts, True), touch_local_ring MEMORY (touch_global_ring MEMORY ctx)))"
  by (simp add: get_responsible_threads_def)

lemma issue_request_agree:
  assumes "issue_replication_factor_request E addr key g l ctx = Inr ctx'"
  shows "ctx_agree ctx ctx' \<and> (\<exists>m. outbox ctx' = outbox ctx @ [m])"
  using assms
  by (auto simp: issue_replication_factor_request_def Let_def res_simps split_beta
      split: if_splits intro: agree_intros)

lemma get_responsible_threads_frame:
  assumes "get_responsible_threads E addr key metadata tiers ctx = Inr ((ts, succeed), ctx')"
  shows "ctx_agree ctx ctx' \<and> (if succeed then outbox ctx' = outbox ctx
      else ts = [] \<and> \<not> metadata \<and> key \<notin> dom (map_of (key_replication_map ctx))
        \<and> (\<exists>m. outbox ctx' = outbox ctx @ [m]))"
proof (cases metadata)
  case True
  then show ?thesis
    using assms by (auto simp: get_responsible_threads_metadata_key res_simps intro: agree_intros)
next
  case False
  show ?thesis
  proof (cases "key \<in> dom (map_of (key_replication_map ctx))")
    case True
    then show ?thesis
      using get_responsible_threads_known [OF True, of E addr tiers] assms False
      by (auto split: sum.splits)
  next
    case unknown: False
    let ?ctx = "touch_local_ring MEMORY (touch_global_ring MEMORY ctx)"
    from unknown assms False have run: "issue_replication_factor_request E addr key
        (global_ring MEMORY ctx) (local_ring MEMORY ctx) ?ctx = Inr ctx'" "ts = []" "\<not> succeed"
      by (auto simp: get_responsible_threads_def domIff res_simps)
    have "ctx_agree ctx ?ctx"
      by (intro agree_intros ctx_agree_refl)
    then show ?thesis
      using issue_request_agree [OF run(1)] run(2,3) False unknown
      by (auto intro: ctx_agree_trans)
  qed
qed

section \<open>Correctness of the lookups\<close>

definition rings_ok :: "env \<Rightarrow> 'a ring_ctx_scheme \<Rightarrow> bool" where
  "rings_ok E ctx \<longleftrightarrow>
     (\<forall>tier. hr_inv (GlobalHasher (env_hash E)) (global_ring tier ctx)
       \<and> hr_inv (LocalHasher (env_hash E)) (local_ring tier ctx))"

text \<open>
  The replication factors of a key do not exceed the servers and, in tiers where the key is stored
  at all, the threads there are.
\<close>

definition factors_ok :: "Key \<Rightarrow> Tier \<Rightarrow> 'a ring_ctx_scheme \<Rightarrow> bool" where
  "factors_ok key tier ctx \<longleftrightarrow>
     unat (global_rep key tier ctx) \<le> card (st_id ` snd ` set (hr_nodes (global_ring tier ctx)))
   \<and> (global_rep key tier ctx = 0
      \<or> unat (local_rep key tier ctx) \<le> card (st_tid ` snd ` set (hr_nodes (local_ring tier ctx))))"

lemma preference_Nil: "hr_nodes ring = [] \<Longrightarrow> preference H key ring = []"
  by (simp add: preference_def clockwise_def)

lemma local_preference_Nil: "hr_nodes ring = [] \<Longrightarrow> local_preference H key ring = []"
  by (simp add: local_preference_def clockwise_def)

lemma responsible_global_take:
  assumes "hr_inv (GlobalHasher H) ring" "unat rep \<le> card (st_id ` snd ` set (hr_nodes ring))"
  shows "responsible_global H key rep ring = Inr (take (unat rep) (preference H key ring))"
  using responsible_global_eq [OF hr_inv_sorted [OF assms(1)], of H key rep] assms(2)
  by (cases "hr_nodes ring = []") (simp_all add: length_preference preference_Nil)

lemma responsible_local_take:
  assumes "hr_inv (LocalHasher H) ring" "unat rep \<le> card (st_tid ` snd ` set (hr_nodes ring))"
  shows "responsible_local H key rep ring = Inr (take (unat rep) (local_preference H key ring))"
  using responsible_local_eq [OF hr_inv_sorted [OF assms(1)], of H key rep] assms(2)
  by (cases "hr_nodes ring = []") (simp_all add: length_local_preference local_preference_Nil)

lemma tier_threads_take:
  assumes "rings_ok E ctx" "factors_ok key tier ctx"
  shows "tier_threads E key tier ctx = Inr (threads_of
    (take (unat (global_rep key tier ctx)) (preference (env_hash E) key (global_ring tier ctx)))
    (take (unat (local_rep key tier ctx)) (local_preference (env_hash E) key (local_ring tier ctx))))"
proof -
  have "responsible_global (env_hash E) key (global_rep key tier ctx) (global_ring tier ctx) =
      Inr (take (unat (global_rep key tier ctx)) (preference (env_hash E) key (global_ring tier ctx)))"
    using assms by (intro responsible_global_take) (auto simp: rings_ok_def factors_ok_def)
  moreover have "responsible_local (env_hash E) key (local_rep key tier ctx) (local_ring tier ctx) =
      Inr (take (unat (local_rep key tier ctx)) (local_preference (env_hash E) key (local_ring tier ctx)))"
    if "global_rep key tier ctx \<noteq> 0"
    using assms that by (intro responsible_local_take) (auto simp: rings_ok_def factors_ok_def)
  ultimately show ?thesis
    by (cases "global_rep key tier ctx = 0") (simp_all add: tier_threads_def threads_of_def)
qed

lemma all_threads_take:
  assumes "rings_ok E ctx" "\<forall>tier \<in> set tiers. factors_ok key tier ctx"
  shows "all_threads E key tiers ctx = Inr (concat (map (\<lambda>tier. threads_of
    (take (unat (global_rep key tier ctx)) (preference (env_hash E) key (global_ring tier ctx)))
    (take (unat (local_rep key tier ctx)) (local_preference (env_hash E) key (local_ring tier ctx)))) tiers))"
proof -
  have "rfold (\<lambda>tier result. rbind (tier_threads E key tier ctx) (\<lambda>ts. Inr (result @ ts))) tiers acc =
    Inr (acc @ concat (map (\<lambda>tier. threads_of
      (take (unat (global_rep key tier ctx)) (preference (env_hash E) key (global_ring tier ctx)))
      (take (unat (local_rep key tier ctx)) (local_preference (env_hash E) key (local_ring tier ctx)))) tiers))"
    for acc
    using assms(2) by (induction tiers arbitrary: acc) (auto simp: tier_threads_take [OF assms(1)])
  from this [of "[]"] show ?thesis
    by (simp add: all_threads_def)
qed

text \<open>What a lookup returns depends on the rings and factors alone.\<close>

definition rings_agree :: "'a ring_ctx_scheme \<Rightarrow> 'b ring_ctx_scheme \<Rightarrow> bool" where
  "rings_agree a b \<longleftrightarrow>
     (\<forall>tier. global_ring tier a = global_ring tier b) \<and> (\<forall>tier. local_ring tier a = local_ring tier b)
   \<and> (\<forall>key tier. global_rep key tier a = global_rep key tier b)
   \<and> (\<forall>key tier. local_rep key tier a = local_rep key tier b)
   \<and> dom (map_of (key_replication_map a)) = dom (map_of (key_replication_map b))"

lemma rings_agree_refl [simp]: "rings_agree a a"
  by (simp add: rings_agree_def)

lemma rings_agree_trans [trans]: "rings_agree a b \<Longrightarrow> rings_agree b c \<Longrightarrow> rings_agree a c"
  by (simp add: rings_agree_def)

lemma rings_agree_sym: "rings_agree a b \<Longrightarrow> rings_agree b a"
  by (simp add: rings_agree_def)

lemma ctx_agree_rings: "ctx_agree a b \<Longrightarrow> rings_agree a b"
  by (simp add: ctx_agree_def rings_agree_def)

lemma rings_agree_simps:
  assumes "rings_agree a b"
  shows "global_rep key tier b = global_rep key tier a" "local_rep key tier b = local_rep key tier a"
    "global_ring tier b = global_ring tier a" "local_ring tier b = local_ring tier a"
    "key \<in> dom (map_of (key_replication_map b)) \<longleftrightarrow> key \<in> dom (map_of (key_replication_map a))"
  using assms by (simp_all add: rings_agree_def)

lemma all_threads_agree: "rings_agree a b \<Longrightarrow> all_threads E key tiers b = all_threads E key tiers a"
  by (simp add: all_threads_def tier_threads_def rings_agree_simps cong: if_cong)

definition lookup :: "env \<Rightarrow> Key \<Rightarrow> bool \<Rightarrow> Tier list \<Rightarrow> 'a ring_ctx_scheme
    \<Rightarrow> (ServerThread list \<times> bool) res" where
  "lookup E key metadata tiers ctx =
     (if metadata
      then rbind (get_responsible_threads_metadata E key (global_ring MEMORY ctx) (local_ring MEMORY ctx))
             (\<lambda>ts. Inr (ts, True))
      else if key \<in> dom (map_of (key_replication_map ctx))
      then rbind (all_threads E key tiers ctx) (\<lambda>ts. Inr (ts, True))
      else rbind (get_responsible_threads_metadata E (get_replication_key key replication)
               (global_ring MEMORY ctx) (local_ring MEMORY ctx))
             (\<lambda>ts. if ts = [] then Inl DivByZero else Inr ([], False)))"

lemma get_responsible_threads_lookup:
  "rbind (get_responsible_threads E addr key metadata tiers ctx) (\<lambda>(r, ctx'). Inr r) =
     lookup E key metadata tiers ctx"
proof (cases "metadata \<or> key \<notin> dom (map_of (key_replication_map ctx))")
  case True
  then show ?thesis
    by (auto simp: get_responsible_threads_def lookup_def issue_replication_factor_request_def
        rbind_def Let_def split_beta domIff split: sum.split)
next
  case False
  then show ?thesis
    using get_responsible_threads_known [of key ctx E addr tiers]
    by (auto simp: lookup_def rbind_def split: sum.splits)
qed

lemma lookup_agree: "rings_agree a b \<Longrightarrow> lookup E key metadata tiers b = lookup E key metadata tiers a"
  by (simp add: lookup_def rings_agree_simps all_threads_agree cong: if_cong)

text \<open>A configuration with two memory servers of one thread each, for the witnesses.\<close>

definition sample_env :: env where
  "sample_env = \<lparr>env_hash = sample_hash, env_rand_r = (\<lambda>s. (unat s, s + 1)),
     env_rand = (\<lambda>s. (unat s, s + 1)), env_codec = wire_codec,
     kTierMetadata = [(MEMORY, \<lparr>tmd_id = MEMORY, tmd_thread_number = 1, tmd_default_replication = 1,
       tmd_node_capacity = 1000\<rparr>), (DISK, \<lparr>tmd_id = DISK, tmd_thread_number = 1,
       tmd_default_replication = 0, tmd_node_capacity = 1000\<rparr>)],
     kDefaultLocalReplication = 1, kSelfTier = MEMORY, kSelfTierIdVector = [MEMORY], kThreadNum = 1\<rparr>"

definition sample_local_ring :: LocalHashRing where
  "sample_local_ring = \<lparr>hr_nodes = [(11, server_thread_v ''5.5.5.5'' ''a'' 0 0)],
     hr_unique_servers = [server_thread_v ''5.5.5.5'' ''a'' 0 0], hr_server_join_count = [(''a'', 0)]\<rparr>"

definition sample_ctx :: ring_ctx where
  "sample_ctx = \<lparr>global_hash_rings = [(MEMORY, sample_ring)],
     local_hash_rings = [(MEMORY, sample_local_ring)],
     key_replication_map =
       [(''k'', \<lparr>global_replication = [(MEMORY, 2)], local_replication = [(MEMORY, 1)]\<rparr>)],
     seed = 0, rand_state = 0, outbox = []\<rparr>"

lemma sample_local_ring_inv: "hr_inv (LocalHasher sample_hash) sample_local_ring"
  using to_string_no_char [of "CHR ''b''" "0 :: u32"] to_string_no_char [of "CHR ''c''" "0 :: u32"]
  by (simp add: sample_local_ring_def hr_inv_def nodes_ok_def om_wf_def LocalHasher_def sample_hash_def
      st_mem_def st_eq_iff server_thread_v_def kVirtualThreadNum_def is_digit_def)

lemma sample_ctx_rings:
  "global_ring tier sample_ctx = (if tier = MEMORY then sample_ring else empty_HashRing)"
  "local_ring tier sample_ctx = (if tier = MEMORY then sample_local_ring else empty_HashRing)"
  by (auto simp: sample_ctx_def global_ring_def local_ring_def om_at_def)

lemma sample_rings_ok: "rings_ok sample_env sample_ctx"
  using sample_ring_inv sample_local_ring_inv
  by (simp add: rings_ok_def sample_ctx_rings sample_env_def)

lemma sample_local_tids: "card (st_tid ` snd ` set (hr_nodes sample_local_ring)) = 1"
  by (simp add: sample_local_ring_def)

text \<open>
  C36. For a key with known replication factors that the tiers can satisfy, the lookup returns, tier
  by tier, the first servers clockwise on the tier's global ring combined with the first threads
  clockwise on its local ring, as many as the factors say. It sends nothing and changes no ring
  and no factor.
\<close>

theorem get_responsible_threads_correct:
  assumes "rings_ok E ctx" "key \<in> dom (map_of (key_replication_map ctx))"
    and "\<forall>tier \<in> set tiers. factors_ok key tier ctx"
  shows "\<exists>ctx'. get_responsible_threads E addr key False tiers ctx =
      Inr ((concat (map (\<lambda>tier. threads_of
        (take (unat (global_rep key tier ctx)) (preference (env_hash E) key (global_ring tier ctx)))
        (take (unat (local_rep key tier ctx)) (local_preference (env_hash E) key (local_ring tier ctx)))) tiers),
        True), ctx')
    \<and> ctx_agree ctx ctx' \<and> outbox ctx' = outbox ctx"
  using get_responsible_threads_known [OF assms(2), of E addr tiers] all_threads_take [OF assms(1,3)]
  by simp

theorem get_responsible_threads_correct_witness:
  "\<exists>ts ctx'. get_responsible_threads sample_env ''tcp://1.1.1.1:1'' ''k'' False [MEMORY] sample_ctx =
    Inr ((ts, True), ctx') \<and> outbox ctx' = []"
proof -
  have "factors_ok ''k'' MEMORY sample_ctx"
    unfolding factors_ok_def sample_ctx_rings
    by (simp add: sample_ring_ids [unfolded image_image] sample_local_tids [unfolded image_image] image_image)
      (simp add: global_rep_def local_rep_def replication_of_def sample_ctx_def om_at_def)
  then show ?thesis
    using get_responsible_threads_correct [OF sample_rings_ok, of "''k''" "[MEMORY]" "''tcp://1.1.1.1:1''"]
    by (auto simp: sample_ctx_def)
qed

lemma metadata_threads:
  assumes "hr_inv (GlobalHasher (env_hash E)) g" "hr_inv (LocalHasher (env_hash E)) l"
    and "unat (kDefaultLocalReplication E) \<le> card (st_tid ` snd ` set (hr_nodes l))"
  shows "get_responsible_threads_metadata E key g l = Inr (threads_of
    (take 1 (preference (env_hash E) key g))
    (take (unat (kDefaultLocalReplication E)) (local_preference (env_hash E) key l)))"
proof -
  have loop: "rfold (\<lambda>thread result. rbind (Inr tids) (\<lambda>tids. Inr (result @
      map (server_thread (st_public_ip thread) (st_private_ip thread)) tids))) servers acc =
    Inr (acc @ threads_of servers tids)" for servers tids acc
    by (induction servers arbitrary: acc) (auto simp: threads_of_def)
  have g: "responsible_global (env_hash E) key 1 g = Inr (take 1 (preference (env_hash E) key g))"
  proof (cases "hr_nodes g = []")
    case True
    then show ?thesis
      by (simp add: responsible_global_def chm_find_def preference_def clockwise_def)
  next
    case False
    then have "unat (1 :: u32) \<le> card (st_id ` snd ` set (hr_nodes g))"
      by (simp add: Suc_le_eq card_gt_0_iff)
    from responsible_global_take [OF assms(1) this, of key] show ?thesis
      by simp
  qed
  show ?thesis
    unfolding get_responsible_threads_metadata_def kMetadataReplicationFactor_def g
      responsible_local_take [OF assms(2,3)]
    using loop [of _ _ "[]"] by simp
qed

lemma length_threads_of: "length (threads_of servers tids) = length servers * length tids"
  by (induction servers) (simp_all add: threads_of_def)

text \<open>
  For a key whose replication factors are not known, the lookup asks for them: it reports no
  threads and no success and sends one GET of the key's replication metadata to a thread
  responsible for that metadata, with the caller's address for the answer. When the memory tier
  has no thread to ask, choosing one divides by zero.
\<close>

theorem unknown_key_requests_replication:
  assumes "rings_ok E ctx" "key \<notin> dom (map_of (key_replication_map ctx))"
    and "unat (kDefaultLocalReplication E) \<le> card (st_tid ` snd ` set (hr_nodes (local_ring MEMORY ctx)))"
  shows "if hr_nodes (global_ring MEMORY ctx) = [] \<or> kDefaultLocalReplication E = 0
    then get_responsible_threads E addr key False tiers ctx = Inl DivByZero
    else \<exists>ctx' ts t req. get_responsible_threads E addr key False tiers ctx = Inr (([], False), ctx')
      \<and> outbox ctx' = outbox ctx @ [(key_request_connect_address t, ser_KeyRequest (env_codec E) req)]
      \<and> get_responsible_threads_metadata E (get_replication_key key replication)
          (global_ring MEMORY ctx) (local_ring MEMORY ctx) = Inr ts \<and> t \<in> set ts
      \<and> rq_type req = GET \<and> rq_response_address req = addr
      \<and> map kt_key (rq_tuples req) = [get_replication_key key replication]
      \<and> ctx_agree ctx ctx'"
proof -
  let ?k = "get_replication_key key replication"
  let ?g = "global_ring MEMORY ctx" and ?l = "local_ring MEMORY ctx"
  let ?servers = "take 1 (preference (env_hash E) ?k ?g)"
  let ?tids = "take (unat (kDefaultLocalReplication E)) (local_preference (env_hash E) ?k ?l)"
  let ?ctx = "touch_local_ring MEMORY (touch_global_ring MEMORY ctx)"
  have threads: "get_responsible_threads_metadata E ?k ?g ?l = Inr (threads_of ?servers ?tids)"
    using assms(1,3) by (intro metadata_threads) (auto simp: rings_ok_def)
  have len: "length ?tids = unat (kDefaultLocalReplication E)"
    using assms(3) by (simp add: length_local_preference)
  have servers: "length ?servers = 0 \<longleftrightarrow> hr_nodes ?g = []"
    using length_preference [of "env_hash E" ?k ?g]
    by (auto simp: preference_Nil min_def split: if_splits)
  have empty: "length (threads_of ?servers ?tids) = 0 \<longleftrightarrow>
      hr_nodes ?g = [] \<or> kDefaultLocalReplication E = 0"
    unfolding length_threads_of len mult_eq_0_iff servers unsigned_eq_0_iff ..
  have run: "get_responsible_threads E addr key False tiers ctx =
      rbind (issue_replication_factor_request E addr key ?g ?l ?ctx) (\<lambda>ctx. Inr (([], False), ctx))"
    using assms(2) by (simp add: get_responsible_threads_def domIff)
  show ?thesis
  proof (cases "length (threads_of ?servers ?tids) = 0")
    case True
    then show ?thesis
      using empty by (simp add: run issue_replication_factor_request_def Let_def threads)
  next
    case False
    let ?t = "threads_of ?servers ?tids ! (fst (env_rand_r E (seed ctx)) mod length (threads_of ?servers ?tids))"
    have t: "?t \<in> set (threads_of ?servers ?tids)"
      using False by (intro nth_mem) simp
    let ?req = "prepare_get_tuple (empty_KeyRequest\<lparr>rq_type := GET, rq_response_address := addr\<rparr>) ?k LWW"
    let ?ctx' = "send_string (ser_KeyRequest (env_codec E) ?req) (key_request_connect_address ?t)
      (?ctx\<lparr>seed := snd (env_rand_r E (seed ctx))\<rparr>)"
    have "get_responsible_threads E addr key False tiers ctx = Inr (([], False), ?ctx')"
      using False
      by (simp add: run issue_replication_factor_request_def Let_def threads split_beta
          touch_local_ring_def touch_global_ring_def)
    moreover have "ctx_agree ctx ?ctx'"
      by (intro agree_intros)
    moreover have "outbox ?ctx' = outbox ctx @ [(key_request_connect_address ?t, ser_KeyRequest (env_codec E) ?req)]"
      by simp
    moreover have "rq_type ?req = GET \<and> rq_response_address ?req = addr \<and> map kt_key (rq_tuples ?req) = [?k]"
      by (simp add: prepare_get_tuple_def empty_KeyRequest_def)
    moreover have nonempty: "\<not> (hr_nodes ?g = [] \<or> kDefaultLocalReplication E = 0)"
      using False empty by blast
    ultimately show ?thesis
      unfolding if_not_P [OF nonempty] using threads t
      by (intro exI [of _ ?ctx'] exI [of _ "threads_of ?servers ?tids"] exI [of _ ?t] exI [of _ ?req] conjI)
        ((elim conjE)?, assumption)+
  qed
qed

theorem unknown_key_requests_replication_witness:
  "\<exists>ctx' t req. get_responsible_threads sample_env ''tcp://1.1.1.1:1'' ''new'' False [MEMORY] sample_ctx =
      Inr (([], False), ctx')
    \<and> outbox ctx' = [(key_request_connect_address t, ser_KeyRequest wire_codec req)]
    \<and> rq_response_address req = ''tcp://1.1.1.1:1''"
proof -
  have codec: "env_codec sample_env = wire_codec" and rep: "kDefaultLocalReplication sample_env = 1"
    by (simp_all add: sample_env_def)
  have nodes: "hr_nodes (global_ring MEMORY sample_ctx) \<noteq> []"
    using sample_ring_inv(2) by (simp add: sample_ctx_rings)
  have "''new'' \<notin> dom (map_of (key_replication_map sample_ctx))" "outbox sample_ctx = []"
    by (simp_all add: sample_ctx_def)
  moreover have "unat (kDefaultLocalReplication sample_env) \<le>
      card (st_tid ` snd ` set (hr_nodes (local_ring MEMORY sample_ctx)))"
    using sample_local_tids by (simp add: rep sample_ctx_rings)
  ultimately show ?thesis
    using unknown_key_requests_replication [OF sample_rings_ok, of "''new''" "''tcp://1.1.1.1:1''" "[MEMORY]"]
      nodes unfolding codec rep by auto
qed

end
