(* ===== verification/Anna_Server.thy ===== *)
theory Anna_Server
  imports Anna_KVStore Anna_Responsible
begin

text \<open>
  The state of a server thread and the helpers its handlers share (\<^verbatim>\<open>src/kvs/utils.cpp\<close>). The
  record \<open>worker\<close> holds what is fixed for a thread: its configuration, its own addresses and the
  serializers of its tier. The record \<open>server\<close> extends the lookup state by the variables that
  \<^verbatim>\<open>run\<close> in \<^verbatim>\<open>src/kvs/server.cpp\<close> declares. The store itself is a type parameter, so that the
  handlers are the same for the memory and the disk tier.

  Every reading of the clock takes the next value of \<open>w_clock\<close>; \<open>ticks\<close> counts the readings.
\<close>

section \<open>State\<close>

record PendingRequest =
  pr_type :: RequestType
  pr_lattice_type :: LatticeType
  pr_payload :: string
  pr_addr :: Address
  pr_response_id :: string

record PendingGossip =
  pg_lattice_type :: LatticeType
  pg_payload :: string

record 'st worker =
  w_env :: env
  w_clock :: "nat \<Rightarrow> int"
  wt :: ServerThread
  thread_id :: u32
  public_ip :: Address
  private_ip :: Address
  self_join_count :: int
  routing_ips :: "Address list"
  monitoring_ips :: "Address list"
  management_ip :: Address
  serializers :: "'st SerializerMap"

type_synonym AddressKeysetMap = "(Address, Key list) omap"

record 'st server = ring_ctx +
  store :: 'st
  ticks :: nat
  pending_requests :: "(Key, PendingRequest list) omap"
  pending_gossip :: "(Key, PendingGossip list) omap"
  key_access_tracker :: "(Key, int list) omap"
  stored_key_map :: "(Key, KeyProperty) omap"
  local_changeset :: "Key list"
  access_count :: u32
  join_remove_set :: "Key list"
  join_gossip_map :: AddressKeysetMap
  extant_caches :: "Address list"
  cache_ip_to_keys :: "(Address, Key list) omap"
  key_to_cache_ips :: "(Key, Address list) omap"
  rid :: u32

section \<open>Helpers\<close>

definition process_get ::
    "'st worker \<Rightarrow> Key \<Rightarrow> LatticeType \<Rightarrow> 'st server \<Rightarrow> ((string \<times> AnnaError) \<times> 'st server) res" where
  "process_get W key type s =
     (case serializers W type of
        None \<Rightarrow> Inl NullDeref
      | Some serializer \<Rightarrow>
          let (res, error, st) = sz_get serializer (store s) key NO_ERROR
          in Inr ((res, error), s\<lparr>store := st\<rparr>))"

definition process_put ::
    "'st worker \<Rightarrow> Key \<Rightarrow> LatticeType \<Rightarrow> string \<Rightarrow> 'st server \<Rightarrow> 'st server res" where
  "process_put W key lattice_type payload s =
     (case serializers W lattice_type of
        None \<Rightarrow> Inl NullDeref
      | Some serializer \<Rightarrow>
          let (n, st) = sz_put serializer (store s) key payload
          in Inr (s\<lparr>store := st, stored_key_map := om_modify empty_KeyProperty key
                (\<lambda>p. p\<lparr>kp_size := n, kp_type := lattice_type\<rparr>) (stored_key_map s)\<rparr>))"

definition gossip_key ::
    "'st worker \<Rightarrow> Address \<Rightarrow> Key \<Rightarrow> (Address, KeyRequest) omap \<times> 'st server
      \<Rightarrow> ((Address, KeyRequest) omap \<times> 'st server) res" where
  "gossip_key W address key = (\<lambda>(gossip_map, s).
     case map_of (stored_key_map s) key of
       None \<Rightarrow> Inr (gossip_map, s)
     | Some p \<Rightarrow>
         rbind (process_get W key (kp_type p) s)
           (\<lambda>((payload, error), s).
              Inr (if error = NO_ERROR
                   then om_modify empty_KeyRequest address
                     (\<lambda>r. prepare_put_tuple r key (kp_type p) payload) gossip_map
                   else gossip_map, s)))"

definition send_requests :: "env \<Rightarrow> (Address, KeyRequest) omap \<Rightarrow> 'a ring_ctx_scheme \<Rightarrow> 'a ring_ctx_scheme" where
  "send_requests E requests s =
     fold (\<lambda>(address, request). send_string (ser_KeyRequest (env_codec E) request) address) requests s"

definition send_gossip ::
    "'st worker \<Rightarrow> AddressKeysetMap \<Rightarrow> 'st server \<Rightarrow> 'st server res" where
  "send_gossip W addr_keyset_map s =
     rbind (rfold (\<lambda>(address, keys) (gossip_map, s).
          rfold (gossip_key W address) keys
            (om_modify empty_KeyRequest address (\<lambda>r. r\<lparr>rq_type := PUT\<rparr>) gossip_map, s))
          addr_keyset_map ([], s))
       (\<lambda>(gossip_map, s). Inr (send_requests (w_env W) gossip_map s))"

definition is_primary_replica ::
    "'st worker \<Rightarrow> Key \<Rightarrow> ServerThread \<Rightarrow> 'st server \<Rightarrow> bool \<times> 'st server" where
  "is_primary_replica W key st s =
     (let self = kSelfTier (w_env W); H = env_hash (w_env W);
          s0 = touch_global_rep key self s
      in if global_rep key self s = 0 then (False, s0)
         else
           let upper = (self > MEMORY);
               s1 = (if upper then fold (\<lambda>tier s. if tier < self then touch_global_rep key tier s else s)
                       kAllTiers s0 else s0)
           in if upper \<and> list_ex (\<lambda>tier. tier < self \<and> global_rep key tier s > 0) kAllTiers
              then (False, s1)
              else
                let s2 = touch_global_ring self s1;
                    nodes = hr_nodes (global_ring self s);
                    global_pos = chm_find (GlobalHasher_key H key) nodes
                in if global_pos \<noteq> length nodes
                      \<and> st_private_ip st = st_private_ip (snd (nodes ! global_pos))
                   then let local_nodes = hr_nodes (local_ring self s);
                            local_pos = chm_find (LocalHasher_key H key) local_nodes
                        in (local_pos \<noteq> length local_nodes
                              \<and> st_tid st = st_tid (snd (local_nodes ! local_pos)),
                            touch_local_ring self s2)
                   else (False, s2))"

definition clock_now :: "'st worker \<Rightarrow> 'st server \<Rightarrow> int" where
  "clock_now W s = w_clock W (ticks s)"

definition tick :: "'st server \<Rightarrow> 'st server" where
  "tick s = s\<lparr>ticks := Suc (ticks s)\<rparr>"

definition track_access :: "Key \<Rightarrow> int \<Rightarrow> 'st server \<Rightarrow> 'st server" where
  "track_access key now s = s\<lparr>
     key_access_tracker := om_modify [] key (insort now) (key_access_tracker s),
     access_count := access_count s + 1\<rparr>"

definition lookup_threads ::
    "'st worker \<Rightarrow> Key \<Rightarrow> Tier list \<Rightarrow> 'st server \<Rightarrow> ((ServerThread list \<times> bool) \<times> 'st server) res" where
  "lookup_threads W key tiers s =
     rbind (is_metadata key)
       (\<lambda>metadata. get_responsible_threads (w_env W) (replication_response_connect_address (wt W))
          key metadata tiers s)"

definition request_replication :: "'st worker \<Rightarrow> Key \<Rightarrow> 'st server \<Rightarrow> 'st server res" where
  "request_replication W key s =
     issue_replication_factor_request (w_env W) (replication_response_connect_address (wt W)) key
       (global_ring MEMORY s) (local_ring MEMORY s) (touch_local_ring MEMORY (touch_global_ring MEMORY s))"

definition park_request :: "Key \<Rightarrow> PendingRequest \<Rightarrow> 'st server \<Rightarrow> 'st server" where
  "park_request key r s = s\<lparr>pending_requests := om_modify [] key (\<lambda>rs. rs @ [r]) (pending_requests s)\<rparr>"

definition park_gossip :: "Key \<Rightarrow> PendingGossip \<Rightarrow> 'st server \<Rightarrow> 'st server" where
  "park_gossip key g s = s\<lparr>pending_gossip := om_modify [] key (\<lambda>gs. gs @ [g]) (pending_gossip s)\<rparr>"

definition add_to_changeset :: "Key \<Rightarrow> 'st server \<Rightarrow> 'st server" where
  "add_to_changeset key s = s\<lparr>local_changeset := List.insert key (local_changeset s)\<rparr>"

text \<open>The parts of a reply that reading and writing handlers fill in.\<close>

definition answer_get ::
    "'st worker \<Rightarrow> Key \<Rightarrow> KeyTuple \<Rightarrow> 'st server \<Rightarrow> (KeyTuple \<times> 'st server) res" where
  "answer_get W key tp s =
     (case map_of (stored_key_map s) key of
        None \<Rightarrow> Inr (tp\<lparr>kt_error := KEY_DNE\<rparr>, s)
      | Some p \<Rightarrow>
          if kp_type p = NONE then Inr (tp\<lparr>kt_error := KEY_DNE\<rparr>, s)
          else rbind (process_get W key (kp_type p) s)
                 (\<lambda>((payload, error), s).
                    Inr (tp\<lparr>kt_lattice_type := kp_type p, kt_payload := payload, kt_error := error\<rparr>, s)))"

definition type_matches :: "Key \<Rightarrow> LatticeType \<Rightarrow> 'st server \<Rightarrow> bool" where
  "type_matches key type s =
     (case map_of (stored_key_map s) key of
        None \<Rightarrow> True
      | Some p \<Rightarrow> kp_type p = NONE \<or> kp_type p = type)"

definition answer_put ::
    "'st worker \<Rightarrow> Key \<Rightarrow> LatticeType \<Rightarrow> string \<Rightarrow> KeyTuple \<Rightarrow> 'st server \<Rightarrow> (KeyTuple \<times> 'st server) res" where
  "answer_put W key type payload tp s =
     (if type = NONE \<or> \<not> type_matches key type s then Inr (tp, s)
      else rbind (process_put W key type payload s)
             (\<lambda>s. Inr (tp\<lparr>kt_lattice_type := type\<rparr>, add_to_changeset key s)))"

section \<open>What the helpers change\<close>

text \<open>The server fields that lookups do not touch are determined by the extension of the lookup state.\<close>

lemma server_more_eq:
  assumes "ring_ctx.more a = ring_ctx.more b"
  shows "store a = store b" "ticks a = ticks b" "pending_requests a = pending_requests b"
    "pending_gossip a = pending_gossip b" "key_access_tracker a = key_access_tracker b"
    "stored_key_map a = stored_key_map b" "local_changeset a = local_changeset b"
    "access_count a = access_count b" "join_remove_set a = join_remove_set b"
    "join_gossip_map a = join_gossip_map b" "extant_caches a = extant_caches b"
    "cache_ip_to_keys a = cache_ip_to_keys b" "key_to_cache_ips a = key_to_cache_ips b" "rid a = rid b"
  using assms by (cases a; cases b; simp)+

lemma ctx_agree_server:
  assumes "ctx_agree a b"
  shows "store b = store a" "ticks b = ticks a" "pending_requests b = pending_requests a"
    "pending_gossip b = pending_gossip a" "key_access_tracker b = key_access_tracker a"
    "stored_key_map b = stored_key_map a" "local_changeset b = local_changeset a"
    "access_count b = access_count a" "join_remove_set b = join_remove_set a"
    "join_gossip_map b = join_gossip_map a" "extant_caches b = extant_caches a"
    "cache_ip_to_keys b = cache_ip_to_keys a" "key_to_cache_ips b = key_to_cache_ips a" "rid b = rid a"
  using assms server_more_eq [of a b] by (simp_all add: ctx_agree_def)

definition same_ctx :: "'a ring_ctx_scheme \<Rightarrow> 'b ring_ctx_scheme \<Rightarrow> bool" where
  "same_ctx a b \<longleftrightarrow> global_hash_rings a = global_hash_rings b \<and> local_hash_rings a = local_hash_rings b
     \<and> key_replication_map a = key_replication_map b"

lemma same_ctx_agree: "same_ctx a b \<Longrightarrow> rings_agree a b"
  by (simp add: same_ctx_def rings_agree_def global_ring_def local_ring_def global_rep_def local_rep_def
      replication_of_def)

text \<open>What a step of a handler may do besides its purpose: consult the rings and send messages.\<close>

definition srv_lookup :: "'st worker \<Rightarrow> Key \<Rightarrow> Tier list \<Rightarrow> 'a ring_ctx_scheme \<Rightarrow> (ServerThread list \<times> bool) res" where
  "srv_lookup W key tiers s = rbind (is_metadata key) (\<lambda>m. lookup (w_env W) key m tiers s)"

lemma srv_lookup_agree: "rings_agree a b \<Longrightarrow> srv_lookup W key tiers b = srv_lookup W key tiers a"
  by (simp add: srv_lookup_def lookup_agree cong: if_cong)

lemma lookup_threads_Inr:
  assumes "lookup_threads W key tiers s = Inr ((ts, succeed), s')"
  shows "srv_lookup W key tiers s = Inr (ts, succeed)" "ctx_agree s s'"
    "if succeed then outbox s' = outbox s else \<exists>m. outbox s' = outbox s @ [m]"
    "\<not> succeed \<Longrightarrow> is_metadata key = Inr False \<and> key \<notin> dom (map_of (key_replication_map s))"
proof -
  obtain m where m: "is_metadata key = Inr m" and run: "get_responsible_threads (w_env W)
      (replication_response_connect_address (wt W)) key m tiers s = Inr ((ts, succeed), s')"
    using assms by (auto simp: lookup_threads_def res_simps)
  show "srv_lookup W key tiers s = Inr (ts, succeed)"
    using get_responsible_threads_lookup [of "w_env W" "replication_response_connect_address (wt W)" key m tiers s]
    by (simp add: srv_lookup_def m run)
  show "ctx_agree s s'" "if succeed then outbox s' = outbox s else \<exists>m. outbox s' = outbox s @ [m]"
      "\<not> succeed \<Longrightarrow> is_metadata key = Inr False \<and> key \<notin> dom (map_of (key_replication_map s))"
    using get_responsible_threads_frame [OF run] m by (auto split: if_splits)
qed

lemma request_replication_Inr:
  assumes "request_replication W key s = Inr s'"
  shows "ctx_agree s s'" "\<exists>m. outbox s' = outbox s @ [m]"
proof -
  let ?s = "touch_local_ring MEMORY (touch_global_ring MEMORY s)"
  have "ctx_agree s ?s"
    by (intro agree_intros)
  with issue_request_agree [OF assms [unfolded request_replication_def]]
  show "ctx_agree s s'" "\<exists>m. outbox s' = outbox s @ [m]"
    by (auto intro: ctx_agree_trans)
qed

text \<open>
  Reading a key changes at most the store; writing it changes the store and the key's properties.
\<close>

lemma process_get_Inr:
  assumes "process_get W key type s = Inr (r, s')"
  shows "\<exists>sz st. serializers W type = Some sz \<and> sz_get sz (store s) key NO_ERROR = (fst r, snd r, st)
    \<and> s' = s\<lparr>store := st\<rparr>"
  using assms by (auto simp: process_get_def Let_def split: option.splits prod.splits)

lemma process_put_Inr:
  assumes "process_put W key type payload s = Inr s'"
  shows "\<exists>sz n st. serializers W type = Some sz \<and> sz_put sz (store s) key payload = (n, st)
    \<and> s' = s\<lparr>store := st, stored_key_map := om_modify empty_KeyProperty key
        (\<lambda>p. p\<lparr>kp_size := n, kp_type := type\<rparr>) (stored_key_map s)\<rparr>"
  using assms by (auto simp: process_put_def Let_def split: option.splits prod.splits)

lemma answer_get_Inr:
  assumes "answer_get W key tp s = Inr (tp', s')"
  shows "kt_key tp' = kt_key tp \<and> (\<exists>st. s' = s\<lparr>store := st\<rparr>)"
  using assms
  by (auto simp: answer_get_def res_simps split: option.splits if_splits dest!: process_get_Inr)
    (metis server.surjective server.update_convs(1))+

lemma answer_put_Inr:
  assumes "answer_put W key type payload tp s = Inr (tp', s')"
  shows "kt_key tp' = kt_key tp \<and> (\<exists>st m c. s' = s\<lparr>store := st, stored_key_map := m, local_changeset := c\<rparr>)"
proof (cases "type = NONE \<or> \<not> type_matches key type s")
  case True
  then have "tp' = tp" "s' = s"
    using assms by (auto simp: answer_put_def)
  then show ?thesis
    by (auto intro!: exI [of _ "store s"] exI [of _ "stored_key_map s"] exI [of _ "local_changeset s"])
next
  case False
  then show ?thesis
    using assms by (fastforce simp: answer_put_def res_simps add_to_changeset_def dest!: process_put_Inr)
qed

section \<open>When lookups cannot fault\<close>

text \<open>
  The configuration a server thread relies on: well-formed rings, a memory tier that can answer
  metadata requests, and replication factors that the tiers can satisfy.
\<close>

definition cluster_ok :: "env \<Rightarrow> 'a ring_ctx_scheme \<Rightarrow> bool" where
  "cluster_ok E s \<longleftrightarrow> rings_ok E s \<and> hr_nodes (global_ring MEMORY s) \<noteq> []
     \<and> kDefaultLocalReplication E \<noteq> 0
     \<and> unat (kDefaultLocalReplication E) \<le> card (st_tid ` snd ` set (hr_nodes (local_ring MEMORY s)))
     \<and> (\<forall>key tier. key \<in> dom (map_of (key_replication_map s)) \<longrightarrow> factors_ok key tier s)"

lemma cluster_ok_agree: "rings_agree a b \<Longrightarrow> cluster_ok E a \<Longrightarrow> cluster_ok E b"
  by (simp add: cluster_ok_def rings_ok_def factors_ok_def rings_agree_simps)

lemma metadata_threads_nonempty:
  assumes "cluster_ok E s"
  shows "\<exists>ts. get_responsible_threads_metadata E key (global_ring MEMORY s) (local_ring MEMORY s) = Inr ts \<and> ts \<noteq> []"
proof -
  let ?servers = "take 1 (preference (env_hash E) key (global_ring MEMORY s))"
  let ?tids = "take (unat (kDefaultLocalReplication E)) (local_preference (env_hash E) key (local_ring MEMORY s))"
  have "get_responsible_threads_metadata E key (global_ring MEMORY s) (local_ring MEMORY s) =
      Inr (threads_of ?servers ?tids)"
    using assms by (intro metadata_threads) (auto simp: cluster_ok_def rings_ok_def)
  moreover have "length ?tids \<noteq> 0"
    using assms by (simp add: cluster_ok_def length_local_preference unsigned_eq_0_iff)
  moreover have "length ?servers \<noteq> 0"
    using assms length_preference [of "env_hash E" key "global_ring MEMORY s"]
    by (auto simp: cluster_ok_def card_gt_0_iff)
  ultimately show ?thesis
    using length_threads_of [of ?servers ?tids] by (metis length_0_conv mult_eq_0_iff)
qed

lemma lookup_total:
  assumes "cluster_ok E s"
  shows "\<exists>r. lookup E key metadata tiers s = Inr r"
proof -
  obtain ts where "get_responsible_threads_metadata E key (global_ring MEMORY s) (local_ring MEMORY s) = Inr ts"
    using metadata_threads_nonempty [OF assms] by blast
  moreover obtain ts' where "get_responsible_threads_metadata E (get_replication_key key replication)
      (global_ring MEMORY s) (local_ring MEMORY s) = Inr ts'" "ts' \<noteq> []"
    using metadata_threads_nonempty [OF assms] by blast
  moreover have "\<exists>r. all_threads E key tiers s = Inr r" if "key \<in> dom (map_of (key_replication_map s))"
    using all_threads_take [of E s tiers key] assms that by (auto simp: cluster_ok_def)
  ultimately show ?thesis
    by (cases metadata; cases "key \<in> dom (map_of (key_replication_map s))") (auto simp: lookup_def)
qed

lemma lookup_threads_total:
  assumes "cluster_ok (w_env W) s" "key \<noteq> []"
  shows "\<exists>ts succeed s'. lookup_threads W key tiers s = Inr ((ts, succeed), s')"
proof -
  obtain m where m: "is_metadata key = Inr m"
    using is_metadata_total [OF assms(2)] by blast
  have "\<exists>r. rbind (get_responsible_threads (w_env W) (replication_response_connect_address (wt W))
      key m tiers s) (\<lambda>(r, ctx'). Inr r) = Inr r"
    unfolding get_responsible_threads_lookup using lookup_total [OF assms(1)] .
  then show ?thesis
    by (auto simp: lookup_threads_def m res_simps)
qed

lemma request_replication_total:
  assumes "cluster_ok (w_env W) s"
  shows "\<exists>s'. request_replication W key s = Inr s'"
  using metadata_threads_nonempty [OF assms, of "get_replication_key key replication"]
  by (auto simp: request_replication_def issue_replication_factor_request_def Let_def split_beta)

definition serializers_ok :: "'st worker \<Rightarrow> bool" where
  "serializers_ok W \<longleftrightarrow> (\<forall>type. type \<noteq> NONE \<longrightarrow> serializers W type \<noteq> None)"

lemma process_get_total: "serializers_ok W \<Longrightarrow> type \<noteq> NONE \<Longrightarrow> \<exists>r s'. process_get W key type s = Inr (r, s')"
  by (auto simp: serializers_ok_def process_get_def split_beta Let_def split: option.splits)

lemma process_put_total: "serializers_ok W \<Longrightarrow> type \<noteq> NONE \<Longrightarrow> \<exists>s'. process_put W key type payload s = Inr s'"
  by (auto simp: serializers_ok_def process_put_def split_beta Let_def split: option.splits)

lemma answer_get_total: "serializers_ok W \<Longrightarrow> \<exists>tp' s'. answer_get W key tp s = Inr (tp', s')"
  using process_get_total [of W _ key s]
  by (fastforce simp: answer_get_def res_simps split: option.splits)

lemma answer_put_total: "serializers_ok W \<Longrightarrow> \<exists>tp' s'. answer_put W key type payload tp s = Inr (tp', s')"
  using process_put_total [of W type key payload s] by (auto simp: answer_put_def res_simps)

lemma memory_serializers_ok: "serializers W = memory_serializers C \<Longrightarrow> serializers_ok W"
  by (auto simp: serializers_ok_def memory_serializers_def split: LatticeType.splits)

section \<open>Stored keys are held by the store\<close>

text \<open>
  Every key that the thread lists as stored has a lattice type, and the store holds it under that
  type. The helpers keep this for every backend.
\<close>

definition stored_held :: "(LatticeType \<Rightarrow> 'st \<Rightarrow> Key \<Rightarrow> bool) \<Rightarrow> 'st server \<Rightarrow> bool" where
  "stored_held holds s \<longleftrightarrow> (\<forall>key p. map_of (stored_key_map s) key = Some p \<longrightarrow>
     kp_type p \<noteq> NONE \<and> holds (kp_type p) (store s) key)"

text \<open>Reading a key that the thread stores leaves the store as it is.\<close>

definition reads_pure :: "'st worker \<Rightarrow> 'st server \<Rightarrow> bool" where
  "reads_pure W s \<longleftrightarrow> (\<forall>key p. map_of (stored_key_map s) key = Some p \<longrightarrow>
     (\<exists>sz. serializers W (kp_type p) = Some sz \<and> snd (snd (sz_get sz (store s) key NO_ERROR)) = store s))"

lemma stored_held_cong:
  "store a = store b \<Longrightarrow> stored_key_map a = stored_key_map b \<Longrightarrow> stored_held holds a = stored_held holds b"
  by (simp add: stored_held_def)

context kv_backend
begin

lemma held_reads_pure:
  assumes "serializers W = backend" "serializers_ok W" "stored_held holds s"
  shows "reads_pure W s"
  using assms get_pure by (fastforce simp: reads_pure_def stored_held_def serializers_ok_def)

lemma process_get_held:
  assumes "serializers W = backend" "process_get W key type s = Inr (r, s')" "stored_held holds s"
  shows "stored_held holds s'"
proof -
  obtain sz st where "backend type = Some sz" "sz_get sz (store s) key NO_ERROR = (fst r, snd r, st)"
      "s' = s\<lparr>store := st\<rparr>"
    using process_get_Inr [OF assms(2)] assms(1) by auto
  then show ?thesis
    using assms(3) get_keeps [of type sz _ "store s" _ key NO_ERROR] by (simp add: stored_held_def)
qed

lemma process_put_held:
  assumes "serializers W = backend" "process_put W key type payload s = Inr s'" "type \<noteq> NONE"
    "stored_held holds s"
  shows "stored_held holds s'"
proof -
  obtain sz n st where "backend type = Some sz" "sz_put sz (store s) key payload = (n, st)"
      "s' = s\<lparr>store := st, stored_key_map := om_modify empty_KeyProperty key
        (\<lambda>p. p\<lparr>kp_size := n, kp_type := type\<rparr>) (stored_key_map s)\<rparr>"
    using process_put_Inr [OF assms(2)] assms(1) by auto
  then show ?thesis
    using assms(3,4) put_keeps [of type sz _ "store s" _ key payload] put_holds [of type sz "store s" key payload]
    by (simp add: stored_held_def)
qed

lemma answer_get_held:
  assumes "serializers W = backend" "answer_get W key tp s = Inr (tp', s')" "stored_held holds s"
  shows "stored_held holds s'"
  using assms process_get_held [OF assms(1)]
  by (auto simp: answer_get_def res_simps split: option.splits if_splits)

lemma answer_put_held:
  assumes "serializers W = backend" "answer_put W key type payload tp s = Inr (tp', s')" "stored_held holds s"
  shows "stored_held holds s'"
proof (cases "type = NONE \<or> \<not> type_matches key type s")
  case True
  then show ?thesis
    using assms(2,3) by (auto simp: answer_put_def)
next
  case False
  then obtain s1 where s1: "process_put W key type payload s = Inr s1" "s' = add_to_changeset key s1"
    using assms(2) by (auto simp: answer_put_def res_simps)
  have "stored_held holds s1"
    using process_put_held [OF assms(1) s1(1) _ assms(3)] False by simp
  then show ?thesis
    by (simp add: s1 add_to_changeset_def stored_held_def)
qed

end

section \<open>A sample thread\<close>

text \<open>The first thread of one of the two servers of the sample configuration, for the witnesses.\<close>

definition sample_worker :: "mem_store worker" where
  "sample_worker = \<lparr>w_env = sample_env, w_clock = int, wt = server_thread ''5.5.5.5'' ''a'' 0,
     thread_id = 0, public_ip = ''5.5.5.5'', private_ip = ''a'', self_join_count = 0,
     routing_ips = [''7.7.7.7''], monitoring_ips = [''8.8.8.8''], management_ip = ''NULL'',
     serializers = memory_serializers wire_codec\<rparr>"

definition sample_server :: "mem_store server" where
  "sample_server = \<lparr>global_hash_rings = [(MEMORY, sample_ring)],
     local_hash_rings = [(MEMORY, sample_local_ring)],
     key_replication_map =
       [(''k'', \<lparr>global_replication = [(MEMORY, 2)], local_replication = [(MEMORY, 1)]\<rparr>)],
     seed = 0, rand_state = 0, outbox = [], store = empty_mem_store, ticks = 0,
     pending_requests = [], pending_gossip = [], key_access_tracker = [], stored_key_map = [],
     local_changeset = [], access_count = 0, join_remove_set = [], join_gossip_map = [],
     extant_caches = [], cache_ip_to_keys = [], key_to_cache_ips = [], rid = 0\<rparr>"

lemma sample_server_fields:
  "outbox sample_server = []" "store sample_server = empty_mem_store" "pending_requests sample_server = []"
  "pending_gossip sample_server = []" "stored_key_map sample_server = []" "local_changeset sample_server = []"
  by (simp_all add: sample_server_def)

lemma sample_worker_codec: "env_codec (w_env sample_worker) = wire_codec"
  by (simp add: sample_worker_def sample_env_def)

lemma sample_server_agree: "rings_agree sample_ctx sample_server"
  by (rule same_ctx_agree) (simp add: same_ctx_def sample_ctx_def sample_server_def)

lemma sample_factors: "factors_ok ''k'' tier sample_ctx"
proof (cases "tier = MEMORY")
  case True
  then show ?thesis
    unfolding factors_ok_def sample_ctx_rings
    by (simp add: sample_ring_ids [unfolded image_image] sample_local_tids [unfolded image_image] image_image)
      (simp add: global_rep_def local_rep_def replication_of_def sample_ctx_def om_at_def)
next
  case False
  then show ?thesis
    by (simp add: factors_ok_def global_rep_def local_rep_def replication_of_def sample_ctx_def om_at_def)
qed

lemma sample_cluster_ok: "cluster_ok (w_env sample_worker) sample_server"
proof -
  have "dom (map_of (key_replication_map sample_ctx)) = {''k''}"
    by (simp add: sample_ctx_def)
  then have "cluster_ok sample_env sample_ctx"
    unfolding cluster_ok_def using sample_rings_ok sample_ring_inv(2) sample_local_tids sample_factors
    by (simp add: sample_ctx_rings sample_env_def)
  from cluster_ok_agree [OF sample_server_agree this] show ?thesis
    by (simp add: sample_worker_def)
qed

lemma sample_serializers_ok: "serializers_ok sample_worker"
  by (rule memory_serializers_ok [of _ wire_codec]) (simp add: sample_worker_def)

lemma sample_not_metadata: "is_metadata ''k'' = Inr False"
  using split_last [of "CHR ''|''" "''k''"] by (simp add: is_metadata_def kMetadataIdentifier_def)

lemma sample_lookup:
  "srv_lookup sample_worker ''k'' (kSelfTierIdVector (w_env sample_worker)) sample_server =
     Inr ([server_thread ''5.5.5.5'' ''a'' 0, server_thread ''6.6.6.6'' ''bb'' 0], True)"
proof -
  have pref: "preference sample_hash ''k'' sample_ring =
      [server_thread_v ''5.5.5.5'' ''a'' 0 0, server_thread_v ''6.6.6.6'' ''bb'' 0 0]"
    by (simp add: preference_def clockwise_def sample_ring_def GlobalHasher_key_def sample_hash_def st_eq_iff
        server_thread_v_def)
  have local: "local_preference sample_hash ''k'' sample_local_ring = [0]"
    by (simp add: local_preference_def clockwise_def sample_local_ring_def LocalHasher_key_def sample_hash_def
        server_thread_v_def)
  have reps: "global_rep ''k'' MEMORY sample_ctx = 2" "local_rep ''k'' MEMORY sample_ctx = 1"
    by (simp_all add: global_rep_def local_rep_def replication_of_def sample_ctx_def om_at_def)
  have "all_threads sample_env ''k'' [MEMORY] sample_ctx =
      Inr [server_thread ''5.5.5.5'' ''a'' 0, server_thread ''6.6.6.6'' ''bb'' 0]"
    using all_threads_take [OF sample_rings_ok, of "[MEMORY]" "''k''"] sample_factors
    by (simp add: sample_ctx_rings pref local reps sample_env_def threads_of_def server_thread_v_def)
  then have "srv_lookup sample_worker ''k'' [MEMORY] sample_ctx =
      Inr ([server_thread ''5.5.5.5'' ''a'' 0, server_thread ''6.6.6.6'' ''bb'' 0], True)"
    by (simp add: srv_lookup_def sample_not_metadata lookup_def sample_worker_def)
      (simp add: sample_ctx_def)
  moreover have "kSelfTierIdVector (w_env sample_worker) = [MEMORY]"
    by (simp add: sample_worker_def sample_env_def)
  ultimately show ?thesis
    using srv_lookup_agree [OF sample_server_agree, of sample_worker "''k''" "[MEMORY]"] by simp
qed

end
