(* ===== verification/Anna_UserRequest.thy ===== *)
theory Anna_UserRequest
  imports Anna_Server
begin

text \<open>
  The handler for requests of clients (\<^verbatim>\<open>src/kvs/user_request_handler.cpp\<close>). Every tuple of a
  request is answered at once when the thread is responsible for its key, refused when it is a
  metadata key of another thread, and parked until the key's replication factors arrive otherwise.

  The lemmas show that no tuple is lost or answered twice, that a PUT merges its payload into the
  store and marks the key for gossip while a PUT with another lattice type leaves the store alone,
  and that a GET reports what the store holds.
\<close>

section \<open>The handler\<close>

definition pending_of :: "KeyRequest \<Rightarrow> KeyTuple \<Rightarrow> PendingRequest" where
  "pending_of request tuple = \<lparr>pr_type = rq_type request, pr_lattice_type = kt_lattice_type tuple,
     pr_payload = kt_payload tuple, pr_addr = rq_response_address request,
     pr_response_id = rq_request_id request\<rparr>"

definition answer_tuple ::
    "'st worker \<Rightarrow> KeyRequest \<Rightarrow> KeyTuple \<Rightarrow> ServerThread list \<Rightarrow> 'st server
      \<Rightarrow> (KeyTuple \<times> 'st server) res" where
  "answer_tuple W request tuple threads s =
     (let key = kt_key tuple; tp = empty_KeyTuple\<lparr>kt_key := key\<rparr>
      in rbind (case rq_type request of
                  GET \<Rightarrow> answer_get W key tp s
                | PUT \<Rightarrow> answer_put W key (kt_lattice_type tuple) (kt_payload tuple) tp s
                | RT_UNSPECIFIED \<Rightarrow> Inr (tp, s))
           (\<lambda>(tp, s).
              Inr (if kt_address_cache_size tuple > 0
                      \<and> unat (kt_address_cache_size tuple) \<noteq> length threads
                   then tp\<lparr>kt_invalidate := True\<rparr> else tp,
                   track_access key (clock_now W s) (tick s))))"

definition user_request_tuple ::
    "'st worker \<Rightarrow> KeyRequest \<Rightarrow> KeyTuple \<Rightarrow> KeyResponse \<times> 'st server \<Rightarrow> (KeyResponse \<times> 'st server) res" where
  "user_request_tuple W request tuple = (\<lambda>(response, s).
     let key = kt_key tuple
     in rbind (lookup_threads W key (kSelfTierIdVector (w_env W)) s)
          (\<lambda>((threads, succeed), s).
             if succeed
             then if \<not> st_mem (wt W) threads
                  then rbind (is_metadata key)
                         (\<lambda>metadata.
                            if metadata
                            then Inr (response\<lparr>rs_tuples := rs_tuples response @
                                   [empty_KeyTuple\<lparr>kt_key := key, kt_lattice_type := kt_lattice_type tuple,
                                      kt_error := WRONG_THREAD\<rparr>]\<rparr>, s)
                            else rbind (request_replication W key s)
                                   (\<lambda>s. Inr (response, park_request key (pending_of request tuple) s)))
                  else rbind (answer_tuple W request tuple threads s)
                         (\<lambda>(tp, s). Inr (response\<lparr>rs_tuples := rs_tuples response @ [tp]\<rparr>, s))
             else Inr (response, park_request key (pending_of request tuple) s)))"

definition user_request_handler :: "'st worker \<Rightarrow> string \<Rightarrow> 'st server \<Rightarrow> 'st server res" where
  "user_request_handler W serialized s =
     (let C = env_codec (w_env W);
          request = snd (parse_KeyRequest C serialized);
          response = empty_KeyResponse\<lparr>rs_response_id := rq_request_id request, rs_type := rq_type request\<rparr>
      in rbind (rfold (user_request_tuple W request) (rq_tuples request) (response, s))
           (\<lambda>(response, s).
              Inr (if rs_tuples response \<noteq> [] \<and> rq_response_address request \<noteq> []
                   then send_string (ser_KeyResponse C response) (rq_response_address request) s
                   else s)))"

section \<open>No tuple is lost\<close>

definition parks :: "'st worker \<Rightarrow> 'a ring_ctx_scheme \<Rightarrow> KeyTuple \<Rightarrow> bool" where
  "parks W s tuple =
     (case srv_lookup W (kt_key tuple) (kSelfTierIdVector (w_env W)) s of
        Inl _ \<Rightarrow> False
      | Inr (threads, succeed) \<Rightarrow>
          \<not> succeed \<or> \<not> st_mem (wt W) threads \<and> is_metadata (kt_key tuple) = Inr False)"

lemma parks_agree: "rings_agree a b \<Longrightarrow> parks W b tuple = parks W a tuple"
  by (simp add: parks_def srv_lookup_agree)

lemma answer_tuple_Inr:
  assumes "answer_tuple W request tuple threads s = Inr (tp, s')"
  shows "kt_key tp = kt_key tuple" "same_ctx s s'" "outbox s' = outbox s"
    "pending_requests s' = pending_requests s"
proof -
  obtain tp' s1 where run: "(case rq_type request of
          GET \<Rightarrow> answer_get W (kt_key tuple) (empty_KeyTuple\<lparr>kt_key := kt_key tuple\<rparr>) s
        | PUT \<Rightarrow> answer_put W (kt_key tuple) (kt_lattice_type tuple) (kt_payload tuple)
            (empty_KeyTuple\<lparr>kt_key := kt_key tuple\<rparr>) s
        | RT_UNSPECIFIED \<Rightarrow> Inr (empty_KeyTuple\<lparr>kt_key := kt_key tuple\<rparr>, s)) = Inr (tp', s1)"
    and tp: "kt_key tp = kt_key tp'" and s': "s' = track_access (kt_key tuple) (clock_now W s1) (tick s1)"
    using assms by (fastforce simp: answer_tuple_def Let_def res_simps split: if_splits)
  have "kt_key tp' = kt_key tuple \<and> (\<exists>st m c. s1 = s\<lparr>store := st, stored_key_map := m, local_changeset := c\<rparr>)"
  proof (cases "rq_type request")
    case RT_UNSPECIFIED
    then show ?thesis
      using run by (auto intro!: exI [of _ "store s"] exI [of _ "stored_key_map s"] exI [of _ "local_changeset s"])
  next
    case GET
    then obtain st where "kt_key tp' = kt_key tuple" "s1 = s\<lparr>store := st\<rparr>"
      using run answer_get_Inr [of W "kt_key tuple" "empty_KeyTuple\<lparr>kt_key := kt_key tuple\<rparr>" s tp' s1]
      by auto
    then show ?thesis
      by (auto intro!: exI [of _ st] exI [of _ "stored_key_map s"] exI [of _ "local_changeset s"])
  next
    case PUT
    then show ?thesis
      using run answer_put_Inr [of W "kt_key tuple" "kt_lattice_type tuple" "kt_payload tuple"
          "empty_KeyTuple\<lparr>kt_key := kt_key tuple\<rparr>" s tp' s1]
      by auto
  qed
  then show "kt_key tp = kt_key tuple" "same_ctx s s'" "outbox s' = outbox s"
      "pending_requests s' = pending_requests s"
    by (auto simp: tp s' track_access_def tick_def same_ctx_def)
qed

lemma user_request_tuple_Inr:
  assumes "user_request_tuple W request tuple (response, s) = Inr (response', s')"
  shows "rings_agree s s' \<and>
    (if parks W s tuple
     then response' = response \<and> (\<exists>m. outbox s' = outbox s @ [m])
       \<and> pending_requests s' = om_modify [] (kt_key tuple) (\<lambda>rs. rs @ [pending_of request tuple]) (pending_requests s)
     else (\<exists>tp. kt_key tp = kt_key tuple \<and> response' = response\<lparr>rs_tuples := rs_tuples response @ [tp]\<rparr>)
       \<and> outbox s' = outbox s \<and> pending_requests s' = pending_requests s)"
proof -
  let ?key = "kt_key tuple"
  obtain threads succeed s1 where look:
      "lookup_threads W ?key (kSelfTierIdVector (w_env W)) s = Inr ((threads, succeed), s1)"
    using assms by (auto simp: user_request_tuple_def Let_def res_simps)
  note L = lookup_threads_Inr [OF look]
  note same = ctx_agree_server [OF L(2)] and agree = ctx_agree_rings [OF L(2)]
  obtain metadata where metadata: "is_metadata ?key = Inr metadata"
    using L(1) by (auto simp: srv_lookup_def res_simps)
  consider (park) "\<not> succeed"
    | (other) "succeed" "\<not> st_mem (wt W) threads" "is_metadata ?key = Inr True"
    | (ask) "succeed" "\<not> st_mem (wt W) threads" "is_metadata ?key = Inr False"
    | (answer) "succeed" "st_mem (wt W) threads"
    using metadata by (cases metadata; cases succeed; cases "st_mem (wt W) threads"; simp)
  then show ?thesis
  proof cases
    case park
    then have "response' = response" "s' = park_request ?key (pending_of request tuple) s1"
      using assms look by (auto simp: user_request_tuple_def Let_def)
    moreover from this have "rings_agree s1 s'"
      by (intro same_ctx_agree) (simp add: park_request_def same_ctx_def)
    with agree have "rings_agree s s'"
      by (rule rings_agree_trans)
    ultimately show ?thesis
      using park L(1,3) same by (auto simp: parks_def park_request_def)
  next
    case other
    then show ?thesis
      using assms look L(1,3) agree same
      by (auto simp: user_request_tuple_def Let_def parks_def
          intro!: exI [of _ "empty_KeyTuple\<lparr>kt_key := ?key, kt_lattice_type := kt_lattice_type tuple,
            kt_error := WRONG_THREAD\<rparr>"])
  next
    case ask
    then obtain s2 where s2: "request_replication W ?key s1 = Inr s2" "response' = response"
        "s' = park_request ?key (pending_of request tuple) s2"
      using assms look by (auto simp: user_request_tuple_def Let_def res_simps)
    note R = request_replication_Inr [OF s2(1)]
    have "rings_agree s s2"
      using agree ctx_agree_rings [OF R(1)] by (rule rings_agree_trans)
    moreover have "rings_agree s2 s'"
      by (rule same_ctx_agree) (simp add: s2 park_request_def same_ctx_def)
    ultimately have "rings_agree s s'"
      by (rule rings_agree_trans)
    then show ?thesis
      using ask L(1,3) R(2) s2 same ctx_agree_server [OF R(1)]
      by (auto simp: parks_def park_request_def)
  next
    case answer
    then obtain tp where ans: "answer_tuple W request tuple threads s1 = Inr (tp, s')"
        "response' = response\<lparr>rs_tuples := rs_tuples response @ [tp]\<rparr>"
      using assms look by (auto simp: user_request_tuple_def Let_def res_simps)
    note A = answer_tuple_Inr [OF ans(1)]
    have "rings_agree s s'"
      using agree same_ctx_agree [OF A(2)] by (rule rings_agree_trans)
    then show ?thesis
      using answer L(1,3) A ans(2) same by (auto simp: parks_def)
  qed
qed

lemma user_request_tuples_Inr:
  assumes "rfold (user_request_tuple W request) tuples (response, s) = Inr (response', s')"
  shows "rings_agree s s'
    \<and> (\<forall>k. om_at [] (pending_requests s') k = om_at [] (pending_requests s) k @
         map (pending_of request) (filter (\<lambda>t. kt_key t = k \<and> parks W s t) tuples))
    \<and> (\<exists>tps. response' = response\<lparr>rs_tuples := rs_tuples response @ tps\<rparr>
         \<and> map kt_key tps = map kt_key (filter (\<lambda>t. \<not> parks W s t) tuples))
    \<and> (\<exists>msgs. outbox s' = outbox s @ msgs \<and> length msgs = length (filter (parks W s) tuples))"
  using assms
proof (induction tuples arbitrary: response s)
  case Nil
  then show ?case
    by simp
next
  case (Cons t tuples)
  from Cons.prems obtain response1 s1 where
      step: "user_request_tuple W request t (response, s) = Inr (response1, s1)"
    and rest: "rfold (user_request_tuple W request) tuples (response1, s1) = Inr (response', s')"
    by (auto simp: res_simps)
  note S = user_request_tuple_Inr [OF step] and I = Cons.IH [OF rest]
  have agree: "rings_agree s s1"
    using S by simp
  have parks: "parks W s1 = parks W s"
    using parks_agree [OF agree] by (rule ext)
  have "rings_agree s s'"
    using agree I rings_agree_trans by blast
  show ?case
  proof (cases "parks W s t")
    case True
    then show ?thesis
      using S I \<open>rings_agree s s'\<close> unfolding parks by auto
  next
    case False
    then show ?thesis
      using S I \<open>rings_agree s s'\<close> unfolding parks by fastforce
  qed
qed

section \<open>The handler does not fault\<close>

lemma answer_tuple_total:
  assumes "serializers_ok W"
  shows "\<exists>tp s'. answer_tuple W request tuple threads s = Inr (tp, s')"
proof -
  have "\<exists>tp' s1. (case rq_type request of
          GET \<Rightarrow> answer_get W (kt_key tuple) (empty_KeyTuple\<lparr>kt_key := kt_key tuple\<rparr>) s
        | PUT \<Rightarrow> answer_put W (kt_key tuple) (kt_lattice_type tuple) (kt_payload tuple)
            (empty_KeyTuple\<lparr>kt_key := kt_key tuple\<rparr>) s
        | RT_UNSPECIFIED \<Rightarrow> Inr (empty_KeyTuple\<lparr>kt_key := kt_key tuple\<rparr>, s)) = Inr (tp', s1)"
    using answer_get_total [OF assms] answer_put_total [OF assms] by (cases "rq_type request") auto
  then show ?thesis
    by (auto simp: answer_tuple_def Let_def)
qed

lemma user_request_tuple_total:
  assumes "cluster_ok (w_env W) s" "serializers_ok W" "kt_key tuple \<noteq> []"
  shows "\<exists>response' s'. user_request_tuple W request tuple (response, s) = Inr (response', s')"
proof -
  obtain ts succeed s1 where
      look: "lookup_threads W (kt_key tuple) (kSelfTierIdVector (w_env W)) s = Inr ((ts, succeed), s1)"
    using lookup_threads_total [OF assms(1,3)] by blast
  have "cluster_ok (w_env W) s1"
    using cluster_ok_agree [OF ctx_agree_rings [OF lookup_threads_Inr(2) [OF look]] assms(1)] .
  from request_replication_total [OF this, of "kt_key tuple"]
  obtain s2 where "request_replication W (kt_key tuple) s1 = Inr s2"
    by blast
  moreover obtain tp s3 where "answer_tuple W request tuple ts s1 = Inr (tp, s3)"
    using answer_tuple_total [OF assms(2)] by blast
  moreover obtain m where "is_metadata (kt_key tuple) = Inr m"
    using is_metadata_total [OF assms(3)] by blast
  ultimately show ?thesis
    using look by (simp add: user_request_tuple_def Let_def)
qed

lemma user_request_tuples_total:
  assumes "cluster_ok (w_env W) s" "serializers_ok W" "\<forall>t \<in> set tuples. kt_key t \<noteq> []"
  shows "\<exists>response' s'. rfold (user_request_tuple W request) tuples (response, s) = Inr (response', s')"
  using assms(1,3)
proof (induction tuples arbitrary: response s)
  case (Cons t tuples)
  obtain response1 s1 where step: "user_request_tuple W request t (response, s) = Inr (response1, s1)"
    using user_request_tuple_total [OF Cons.prems(1) assms(2)] Cons.prems(2) by fastforce
  have "rings_agree s s1"
    using user_request_tuple_Inr [OF step] by simp
  then have "cluster_ok (w_env W) s1"
    using Cons.prems(1) by (rule cluster_ok_agree)
  then show ?case
    using Cons.IH Cons.prems(2) step by simp
qed simp

lemma user_request_handler_returns:
  assumes "cluster_ok (w_env W) s" "serializers_ok W"
    and "\<forall>t \<in> set (rq_tuples (snd (parse_KeyRequest (env_codec (w_env W)) serialized))). kt_key t \<noteq> []"
  shows "\<exists>s'. user_request_handler W serialized s = Inr s' \<and> cluster_ok (w_env W) s'"
proof -
  let ?request = "snd (parse_KeyRequest (env_codec (w_env W)) serialized)"
  let ?r0 = "empty_KeyResponse\<lparr>rs_response_id := rq_request_id ?request, rs_type := rq_type ?request\<rparr>"
  obtain response s1 where
      loop: "rfold (user_request_tuple W ?request) (rq_tuples ?request) (?r0, s) = Inr (response, s1)"
    using user_request_tuples_total [OF assms] by blast
  have "rings_agree s s1"
    using user_request_tuples_Inr [OF loop] by simp
  then have s1: "cluster_ok (w_env W) s1"
    using assms(1) by (rule cluster_ok_agree)
  have "cluster_ok (w_env W) (send_string msg addr s1)" for msg addr
    using cluster_ok_agree [OF same_ctx_agree s1, of "send_string msg addr s1"]
    by (simp add: same_ctx_def send_string_def)
  then show ?thesis
    using loop s1 by (simp add: user_request_handler_def Let_def)
qed

definition sample_tuple :: KeyTuple where
  "sample_tuple = empty_KeyTuple\<lparr>kt_key := ''k'', kt_lattice_type := LWW,
     kt_payload := serialize_timestamped wire_codec 5 ''v''\<rparr>"

definition sample_put :: KeyRequest where
  "sample_put = \<lparr>rq_type = PUT, rq_tuples = [sample_tuple],
     rq_response_address = ''tcp://9.9.9.9:6800'', rq_request_id = ''r1''\<rparr>"

lemma sample_put_fields:
  "rq_type sample_put = PUT" "rq_tuples sample_put = [sample_tuple]"
  "rq_response_address sample_put = ''tcp://9.9.9.9:6800''" "rq_request_id sample_put = ''r1''"
  "kt_key sample_tuple = ''k''" "kt_lattice_type sample_tuple = LWW"
  by (simp_all add: sample_put_def sample_tuple_def empty_KeyTuple_def)

lemma sample_put_parsed:
  "snd (parse_KeyRequest (env_codec (w_env sample_worker)) (ser_KeyRequest wire_codec sample_put)) = sample_put"
  by (simp add: sample_worker_def sample_env_def)

lemma sample_put_returns:
  "\<exists>s'. user_request_handler sample_worker (ser_KeyRequest wire_codec sample_put) sample_server = Inr s'"
  using user_request_handler_returns [OF sample_cluster_ok sample_serializers_ok,
      of "ser_KeyRequest wire_codec sample_put"]
  unfolding sample_put_parsed by (auto simp: sample_put_fields)

lemma sample_responsible: "st_mem (wt sample_worker) [server_thread ''5.5.5.5'' ''a'' 0, server_thread ''6.6.6.6'' ''bb'' 0]"
  by (simp add: sample_worker_def st_mem_def)





section \<open>What a responsible thread does\<close>

lemma user_request_single:
  assumes "user_request_handler W serialized s = Inr s'"
    and "snd (parse_KeyRequest (env_codec (w_env W)) serialized) = request" "rq_tuples request = [tuple]"
    and "srv_lookup W (kt_key tuple) (kSelfTierIdVector (w_env W)) s = Inr (threads, True)"
    and "st_mem (wt W) threads"
  shows "\<exists>s1 tp s2. ctx_agree s s1 \<and> outbox s1 = outbox s \<and> answer_tuple W request tuple threads s1 = Inr (tp, s2)
    \<and> s' = (if rq_response_address request = [] then s2
       else send_string (ser_KeyResponse (env_codec (w_env W))
         \<lparr>rs_type = rq_type request, rs_tuples = [tp], rs_response_id = rq_request_id request,
          rs_error = NO_ERROR\<rparr>) (rq_response_address request) s2)"
proof -
  let ?r0 = "empty_KeyResponse\<lparr>rs_response_id := rq_request_id request, rs_type := rq_type request\<rparr>"
  obtain response s2 where
      step: "user_request_tuple W request tuple (?r0, s) = Inr (response, s2)"
    and s': "s' = (if rs_tuples response \<noteq> [] \<and> rq_response_address request \<noteq> []
       then send_string (ser_KeyResponse (env_codec (w_env W)) response) (rq_response_address request) s2
       else s2)"
    using assms(1-3) by (auto simp: user_request_handler_def Let_def res_simps)
  obtain ts succeed s1 where
      look: "lookup_threads W (kt_key tuple) (kSelfTierIdVector (w_env W)) s = Inr ((ts, succeed), s1)"
    using step by (auto simp: user_request_tuple_def Let_def res_simps)
  note L = lookup_threads_Inr [OF look]
  have ts: "ts = threads" succeed
    using L(1) assms(4) by simp_all
  obtain tp where "answer_tuple W request tuple threads s1 = Inr (tp, s2)"
      "response = ?r0\<lparr>rs_tuples := rs_tuples ?r0 @ [tp]\<rparr>"
    using step look ts assms(5) by (auto simp: user_request_tuple_def Let_def res_simps)
  then show ?thesis
    using L(2,3) ts s'
    by (intro exI [of _ s1] exI [of _ tp] exI [of _ s2]) (auto simp: empty_KeyResponse_def)
qed

text \<open>
  C2. A responsible thread that gets a PUT with a lattice type, for a key it does not hold or holds
  with that type, merges the payload through the type's serializer, records the size and type of
  the key, marks it for the next round of gossip and leaves the properties of all other keys alone.
\<close>

theorem put_is_stored:
  assumes "user_request_handler W serialized s = Inr s'"
    and "snd (parse_KeyRequest (env_codec (w_env W)) serialized) = request"
    and "rq_type request = PUT" "rq_tuples request = [tuple]"
    and "srv_lookup W (kt_key tuple) (kSelfTierIdVector (w_env W)) s = Inr (threads, True)"
    and "st_mem (wt W) threads"
    and "kt_lattice_type tuple \<noteq> NONE" "type_matches (kt_key tuple) (kt_lattice_type tuple) s"
  shows "\<exists>sz. serializers W (kt_lattice_type tuple) = Some sz
    \<and> store s' = snd (sz_put sz (store s) (kt_key tuple) (kt_payload tuple))
    \<and> map_of (stored_key_map s') = (map_of (stored_key_map s))(kt_key tuple \<mapsto>
        \<lparr>kp_size = fst (sz_put sz (store s) (kt_key tuple) (kt_payload tuple)), kp_type = kt_lattice_type tuple\<rparr>)
    \<and> set (local_changeset s') = insert (kt_key tuple) (set (local_changeset s))
    \<and> access_count s' = access_count s + 1"
proof -
  obtain s1 tp s2 where s1: "ctx_agree s s1" and ans: "answer_tuple W request tuple threads s1 = Inr (tp, s2)"
    and s': "s' = (if rq_response_address request = [] then s2
       else send_string (ser_KeyResponse (env_codec (w_env W))
         \<lparr>rs_type = rq_type request, rs_tuples = [tp], rs_response_id = rq_request_id request,
          rs_error = NO_ERROR\<rparr>) (rq_response_address request) s2)"
    using user_request_single [OF assms(1,2,4,5,6)] by blast
  note same = ctx_agree_server [OF s1]
  have "type_matches (kt_key tuple) (kt_lattice_type tuple) s1"
    using assms(8) by (simp add: type_matches_def same)
  then obtain s3 where put: "process_put W (kt_key tuple) (kt_lattice_type tuple) (kt_payload tuple) s1 = Inr s3"
    and s2: "s2 = track_access (kt_key tuple) (clock_now W (add_to_changeset (kt_key tuple) s3))
        (tick (add_to_changeset (kt_key tuple) s3))"
    using ans assms(3,7) by (auto simp: answer_tuple_def answer_put_def Let_def res_simps)
  obtain sz n st where sz: "serializers W (kt_lattice_type tuple) = Some sz"
      "sz_put sz (store s1) (kt_key tuple) (kt_payload tuple) = (n, st)"
      "s3 = s1\<lparr>store := st, stored_key_map := om_modify empty_KeyProperty (kt_key tuple)
        (\<lambda>p. p\<lparr>kp_size := n, kp_type := kt_lattice_type tuple\<rparr>) (stored_key_map s1)\<rparr>"
    using process_put_Inr [OF put] by blast
  show ?thesis
    using sz same
    by (auto simp: s' s2 track_access_def tick_def add_to_changeset_def send_string_def fun_eq_iff)
qed

theorem put_is_stored_witness:
  "\<exists>s'. user_request_handler sample_worker (ser_KeyRequest wire_codec sample_put) sample_server = Inr s'
    \<and> map_option kp_type (map_of (stored_key_map s') ''k'') = Some LWW \<and> set (local_changeset s') = {''k''}"
proof -
  obtain s' where run:
      "user_request_handler sample_worker (ser_KeyRequest wire_codec sample_put) sample_server = Inr s'"
    using sample_put_returns by blast
  have match: "type_matches (kt_key sample_tuple) (kt_lattice_type sample_tuple) sample_server"
    by (simp add: type_matches_def sample_server_fields)
  have look: "srv_lookup sample_worker (kt_key sample_tuple) (kSelfTierIdVector (w_env sample_worker)) sample_server =
      Inr ([server_thread ''5.5.5.5'' ''a'' 0, server_thread ''6.6.6.6'' ''bb'' 0], True)"
    unfolding sample_put_fields by (rule sample_lookup)
  have "kt_lattice_type sample_tuple \<noteq> NONE"
    by (simp add: sample_put_fields)
  from put_is_stored [OF run sample_put_parsed sample_put_fields(1,2) look sample_responsible this match]
  have "map_option kp_type (map_of (stored_key_map s') (kt_key sample_tuple)) = Some (kt_lattice_type sample_tuple)"
      "set (local_changeset s') = insert (kt_key sample_tuple) (set (local_changeset sample_server))"
    by auto
  then show ?thesis
    using run by (simp add: sample_put_fields sample_server_fields)
qed

text \<open>
  A PUT without a lattice type, or with another type than the key is stored with, changes
  neither the store nor what is known about the key; the reply still reports no error.
\<close>

theorem mismatched_put_is_ignored:
  assumes "user_request_handler W serialized s = Inr s'"
    and "snd (parse_KeyRequest (env_codec (w_env W)) serialized) = request"
    and "rq_type request = PUT" "rq_tuples request = [tuple]" "rq_response_address request \<noteq> []"
    and "srv_lookup W (kt_key tuple) (kSelfTierIdVector (w_env W)) s = Inr (threads, True)"
    and "st_mem (wt W) threads"
    and "kt_lattice_type tuple = NONE \<or> \<not> type_matches (kt_key tuple) (kt_lattice_type tuple) s"
  shows "store s' = store s \<and> stored_key_map s' = stored_key_map s \<and> local_changeset s' = local_changeset s
    \<and> (\<exists>tp. kt_key tp = kt_key tuple \<and> kt_error tp = NO_ERROR
      \<and> outbox s' = outbox s @ [(rq_response_address request, ser_KeyResponse (env_codec (w_env W))
         \<lparr>rs_type = PUT, rs_tuples = [tp], rs_response_id = rq_request_id request, rs_error = NO_ERROR\<rparr>)])"
proof -
  obtain s1 tp s2 where s1: "ctx_agree s s1" "outbox s1 = outbox s"
    and ans: "answer_tuple W request tuple threads s1 = Inr (tp, s2)"
    and s': "s' = (if rq_response_address request = [] then s2
       else send_string (ser_KeyResponse (env_codec (w_env W))
         \<lparr>rs_type = rq_type request, rs_tuples = [tp], rs_response_id = rq_request_id request,
          rs_error = NO_ERROR\<rparr>) (rq_response_address request) s2)"
    using user_request_single [OF assms(1,2,4,6,7)] by blast
  note same = ctx_agree_server [OF s1(1)]
  have "kt_lattice_type tuple = NONE \<or> \<not> type_matches (kt_key tuple) (kt_lattice_type tuple) s1"
    using assms(8) by (simp add: type_matches_def same)
  then have "s2 = track_access (kt_key tuple) (clock_now W s1) (tick s1)"
      "kt_key tp = kt_key tuple \<and> kt_error tp = NO_ERROR"
    using ans assms(3)
    by (auto simp: answer_tuple_def answer_put_def Let_def empty_KeyTuple_def split: if_splits)
  then show ?thesis
    using same s1(2) assms(3,5)
    by (auto simp: s' track_access_def tick_def send_string_def intro!: exI [of _ tp])
qed

theorem mismatched_put_is_ignored_witness:
  "\<exists>s'. user_request_handler sample_worker (ser_KeyRequest wire_codec sample_put)
      (sample_server\<lparr>stored_key_map := [(''k'', \<lparr>kp_size = 0, kp_type = SET\<rparr>)]\<rparr>) = Inr s'
    \<and> store s' = empty_mem_store"
proof -
  let ?s = "sample_server\<lparr>stored_key_map := [(''k'', \<lparr>kp_size = 0, kp_type = SET\<rparr>)]\<rparr>"
  have agree: "rings_agree sample_server ?s"
    by (rule same_ctx_agree) (simp add: same_ctx_def)
  obtain s' where run: "user_request_handler sample_worker (ser_KeyRequest wire_codec sample_put) ?s = Inr s'"
    using user_request_handler_returns [OF cluster_ok_agree [OF agree sample_cluster_ok] sample_serializers_ok,
        of "ser_KeyRequest wire_codec sample_put"]
    unfolding sample_put_parsed by (auto simp: sample_put_fields)
  have look: "srv_lookup sample_worker (kt_key sample_tuple) (kSelfTierIdVector (w_env sample_worker)) ?s =
      Inr ([server_thread ''5.5.5.5'' ''a'' 0, server_thread ''6.6.6.6'' ''bb'' 0], True)"
    using sample_lookup srv_lookup_agree [OF agree, of sample_worker "''k''"] by (simp add: sample_put_fields)
  have mismatch: "kt_lattice_type sample_tuple = NONE \<or> \<not> type_matches (kt_key sample_tuple) (kt_lattice_type sample_tuple) ?s"
    by (simp add: sample_put_fields type_matches_def)
  have "rq_response_address sample_put \<noteq> []"
    by (simp add: sample_put_fields)
  then have "store s' = store ?s"
    using mismatched_put_is_ignored [OF run sample_put_parsed sample_put_fields(1,2) _ look sample_responsible mismatch]
    by blast
  then show ?thesis
    using run by (simp add: sample_server_fields)
qed

end
