(* ===== verification/Anna_Gossip.thy ===== *)
theory Anna_Gossip
  imports Anna_UserRequest
begin

text \<open>
  Gossip between server threads (\<^verbatim>\<open>src/kvs/gossip_handler.cpp\<close> and \<^verbatim>\<open>send_gossip\<close> of
  \<^verbatim>\<open>src/kvs/utils.cpp\<close>). A received tuple is merged when the thread is responsible for its key,
  forwarded to the responsible threads when it is metadata of others, and parked until the
  replication factors of its key arrive otherwise.

  The lemmas show that gossip is never lost on the way: what is not merged is parked or forwarded
  to every responsible thread; and that a thread that gossips a set of keys sends one message per
  address with the readable value of every key it stores.
\<close>

section \<open>The handler\<close>

definition gossip_of :: "KeyTuple \<Rightarrow> PendingGossip" where
  "gossip_of tuple = \<lparr>pg_lattice_type = kt_lattice_type tuple, pg_payload = kt_payload tuple\<rparr>"

definition forward_gossip ::
    "KeyTuple \<Rightarrow> ServerThread \<Rightarrow> (Address, KeyRequest) omap \<Rightarrow> (Address, KeyRequest) omap" where
  "forward_gossip tuple thread gossip_map =
     (let address = gossip_connect_address thread;
          gossip_map = (case map_of gossip_map address of
              None \<Rightarrow> om_modify empty_KeyRequest address (\<lambda>r. r\<lparr>rq_type := PUT\<rparr>) gossip_map
            | Some _ \<Rightarrow> gossip_map)
      in om_modify empty_KeyRequest address
           (\<lambda>r. prepare_put_tuple r (kt_key tuple) (kt_lattice_type tuple) (kt_payload tuple)) gossip_map)"

definition gossip_tuple ::
    "'st worker \<Rightarrow> KeyTuple \<Rightarrow> (Address, KeyRequest) omap \<times> 'st server
      \<Rightarrow> ((Address, KeyRequest) omap \<times> 'st server) res" where
  "gossip_tuple W tuple = (\<lambda>(gossip_map, s).
     let key = kt_key tuple
     in rbind (lookup_threads W key (kSelfTierIdVector (w_env W)) s)
          (\<lambda>((threads, succeed), s).
             if succeed
             then if st_mem (wt W) threads
                  then if (case map_of (stored_key_map s) key of
                             None \<Rightarrow> False | Some p \<Rightarrow> kp_type p \<noteq> kt_lattice_type tuple)
                       then Inr (gossip_map, s)
                       else rbind (process_put W key (kt_lattice_type tuple) (kt_payload tuple) s)
                              (\<lambda>s. Inr (gossip_map, s))
                  else rbind (is_metadata key)
                         (\<lambda>metadata.
                            if metadata
                            then Inr (fold (forward_gossip tuple) threads gossip_map, s)
                            else rbind (request_replication W key s)
                                   (\<lambda>s. Inr (gossip_map, park_gossip key (gossip_of tuple) s)))
             else Inr (gossip_map, park_gossip key (gossip_of tuple) s)))"

definition gossip_handler :: "'st worker \<Rightarrow> string \<Rightarrow> 'st server \<Rightarrow> 'st server res" where
  "gossip_handler W serialized s =
     (let gossip = snd (parse_KeyRequest (env_codec (w_env W)) serialized)
      in rbind (rfold (gossip_tuple W) (rq_tuples gossip) ([], s))
           (\<lambda>(gossip_map, s). Inr (send_requests (w_env W) gossip_map s)))"

section \<open>Sending a set of requests\<close>

lemma outbox_send_requests:
  "outbox (send_requests E requests s) =
     outbox s @ map (\<lambda>(address, request). (address, ser_KeyRequest (env_codec E) request)) requests"
  unfolding send_requests_def by (induction requests arbitrary: s) auto

lemma send_requests_frame:
  "same_ctx s (send_requests E requests s)" "ring_ctx.more (send_requests E requests s) = ring_ctx.more s"
  "seed (send_requests E requests s) = seed s" "rand_state (send_requests E requests s) = rand_state s"
  unfolding send_requests_def
  by (induction requests arbitrary: s) (auto simp: same_ctx_def send_string_def)

lemmas send_requests_server = server_more_eq [OF send_requests_frame(2)]

section \<open>Batches of PUT requests\<close>

text \<open>
  A gossip map holds for every address in \<open>A\<close> one PUT request with the tuples \<open>f\<close> gives for it.
\<close>

definition put_tuple :: "Key \<Rightarrow> LatticeType \<Rightarrow> string \<Rightarrow> KeyTuple" where
  "put_tuple key type payload = empty_KeyTuple\<lparr>kt_key := key, kt_lattice_type := type, kt_payload := payload\<rparr>"

definition put_request :: "KeyTuple list \<Rightarrow> KeyRequest" where
  "put_request tuples = empty_KeyRequest\<lparr>rq_type := PUT, rq_tuples := tuples\<rparr>"

definition batch :: "(Address, KeyRequest) omap \<Rightarrow> Address set \<Rightarrow> (Address \<Rightarrow> KeyTuple list) \<Rightarrow> bool" where
  "batch gossip_map A f \<longleftrightarrow> om_wf gossip_map \<and> (\<forall>a. a \<notin> A \<longrightarrow> f a = [])
     \<and> (\<forall>a. map_of gossip_map a = (if a \<in> A then Some (put_request (f a)) else None))"

lemma batch_empty [simp]: "batch [] A f \<longleftrightarrow> A = {} \<and> f = (\<lambda>_. [])"
  by (auto simp: batch_def om_wf_def fun_eq_iff)

lemma prepare_put_request:
  "prepare_put_tuple (put_request tuples) key type payload = put_request (tuples @ [put_tuple key type payload])"
  by (simp add: prepare_put_tuple_def put_request_def put_tuple_def)

lemma batch_open:
  assumes "batch gossip_map A f" "address \<notin> A"
  shows "batch (om_modify empty_KeyRequest address (\<lambda>r. r\<lparr>rq_type := PUT\<rparr>) gossip_map) (insert address A) f"
  using assms by (auto simp: batch_def om_at_def put_request_def empty_KeyRequest_def)

lemma batch_add:
  assumes "batch gossip_map A f" "address \<in> A"
  shows "batch (om_modify empty_KeyRequest address (\<lambda>r. prepare_put_tuple r key type payload) gossip_map) A
    (f(address := f address @ [put_tuple key type payload]))"
  using assms by (auto simp: batch_def om_at_def prepare_put_request)

lemma batch_forward:
  assumes "batch gossip_map A f"
  shows "batch (forward_gossip tuple thread gossip_map) (insert (gossip_connect_address thread) A)
    (f(gossip_connect_address thread := f (gossip_connect_address thread) @
       [put_tuple (kt_key tuple) (kt_lattice_type tuple) (kt_payload tuple)]))"
proof (cases "gossip_connect_address thread \<in> A")
  case True
  then have "map_of gossip_map (gossip_connect_address thread) \<noteq> None"
    using assms by (simp add: batch_def)
  then show ?thesis
    using batch_add [OF assms True, of "kt_key tuple" "kt_lattice_type tuple" "kt_payload tuple"] True
    by (auto simp: forward_gossip_def Let_def insert_absorb)
next
  case False
  then have "map_of gossip_map (gossip_connect_address thread) = None"
    using assms by (simp add: batch_def)
  then show ?thesis
    using batch_add [OF batch_open [OF assms False], of "gossip_connect_address thread"]
    by (simp add: forward_gossip_def Let_def)
qed

definition copies :: "KeyTuple \<Rightarrow> ServerThread list \<Rightarrow> Address \<Rightarrow> KeyTuple list" where
  "copies tuple threads a = map (\<lambda>_. put_tuple (kt_key tuple) (kt_lattice_type tuple) (kt_payload tuple))
     (filter (\<lambda>thread. gossip_connect_address thread = a) threads)"

lemma batch_forwards:
  assumes "batch gossip_map A f"
  shows "batch (fold (forward_gossip tuple) threads gossip_map) (A \<union> gossip_connect_address ` set threads)
    (\<lambda>a. f a @ copies tuple threads a)"
  using assms
proof (induction threads arbitrary: gossip_map A f)
  case Nil
  then show ?case by (simp add: copies_def)
next
  case (Cons thread threads)
  from Cons.IH [OF batch_forward [OF Cons.prems, of tuple thread]]
  have "batch (fold (forward_gossip tuple) (thread # threads) gossip_map)
      (A \<union> gossip_connect_address ` set (thread # threads))
      (\<lambda>a. (f(gossip_connect_address thread := f (gossip_connect_address thread) @
       [put_tuple (kt_key tuple) (kt_lattice_type tuple) (kt_payload tuple)])) a @ copies tuple threads a)"
    by simp
  moreover have "(\<lambda>a. (f(gossip_connect_address thread := f (gossip_connect_address thread) @
       [put_tuple (kt_key tuple) (kt_lattice_type tuple) (kt_payload tuple)])) a @ copies tuple threads a) =
      (\<lambda>a. f a @ copies tuple (thread # threads) a)"
    by (auto simp: copies_def fun_eq_iff)
  ultimately show ?case
    by simp
qed

section \<open>No gossip is lost\<close>

text \<open>A tuple that the thread forwards: metadata of keys that others are responsible for.\<close>

definition forwards :: "'st worker \<Rightarrow> 'a ring_ctx_scheme \<Rightarrow> KeyTuple \<Rightarrow> ServerThread list" where
  "forwards W s tuple =
     (case srv_lookup W (kt_key tuple) (kSelfTierIdVector (w_env W)) s of
        Inl _ \<Rightarrow> []
      | Inr (threads, succeed) \<Rightarrow>
          if succeed \<and> \<not> st_mem (wt W) threads \<and> is_metadata (kt_key tuple) = Inr True then threads else [])"

lemma forwards_agree: "rings_agree a b \<Longrightarrow> forwards W b tuple = forwards W a tuple"
  by (simp add: forwards_def srv_lookup_agree)

lemma gossip_tuple_Inr:
  assumes "gossip_tuple W tuple (gossip_map, s) = Inr (gossip_map', s')"
  shows "rings_agree s s' \<and> gossip_map' = fold (forward_gossip tuple) (forwards W s tuple) gossip_map
    \<and> pending_gossip s' = (if parks W s tuple
        then om_modify [] (kt_key tuple) (\<lambda>gs. gs @ [gossip_of tuple]) (pending_gossip s) else pending_gossip s)
    \<and> (\<exists>msgs. outbox s' = outbox s @ msgs \<and> length msgs = (if parks W s tuple then 1 else 0))"
proof -
  let ?key = "kt_key tuple"
  obtain threads succeed s1 where look:
      "lookup_threads W ?key (kSelfTierIdVector (w_env W)) s = Inr ((threads, succeed), s1)"
    using assms by (auto simp: gossip_tuple_def Let_def res_simps)
  note L = lookup_threads_Inr [OF look]
  note same = ctx_agree_server [OF L(2)] and agree = ctx_agree_rings [OF L(2)]
  obtain metadata where metadata: "is_metadata ?key = Inr metadata"
    using L(1) by (auto simp: srv_lookup_def res_simps)
  consider (park) "\<not> succeed"
    | (forward) "succeed" "\<not> st_mem (wt W) threads" "metadata"
    | (ask) "succeed" "\<not> st_mem (wt W) threads" "\<not> metadata"
    | (merge) "succeed" "st_mem (wt W) threads"
    by blast
  then show ?thesis
  proof cases
    case park
    then have s': "gossip_map' = gossip_map" "s' = park_gossip ?key (gossip_of tuple) s1"
      using assms look by (auto simp: gossip_tuple_def Let_def)
    then have "rings_agree s1 s'"
      by (intro same_ctx_agree) (simp add: park_gossip_def same_ctx_def)
    with agree have "rings_agree s s'"
      by (rule rings_agree_trans)
    then show ?thesis
      using park L(1,3) same s' by (auto simp: parks_def forwards_def park_gossip_def)
  next
    case forward
    then show ?thesis
      using assms look L(1,3) agree same metadata
      by (auto simp: gossip_tuple_def Let_def parks_def forwards_def)
  next
    case ask
    then obtain s2 where s2: "request_replication W ?key s1 = Inr s2" "gossip_map' = gossip_map"
        "s' = park_gossip ?key (gossip_of tuple) s2"
      using assms look metadata by (auto simp: gossip_tuple_def Let_def res_simps)
    note R = request_replication_Inr [OF s2(1)]
    have "rings_agree s s2"
      using agree ctx_agree_rings [OF R(1)] by (rule rings_agree_trans)
    moreover have "rings_agree s2 s'"
      by (rule same_ctx_agree) (simp add: s2 park_gossip_def same_ctx_def)
    ultimately have "rings_agree s s'"
      by (rule rings_agree_trans)
    then show ?thesis
      using ask metadata L(1,3) R(2) s2 same ctx_agree_server [OF R(1)]
      by (auto simp: parks_def forwards_def park_gossip_def)
  next
    case merge
    have "gossip_map' = gossip_map \<and> (\<exists>st m. s' = s1\<lparr>store := st, stored_key_map := m\<rparr>)"
    proof (cases "case map_of (stored_key_map s1) ?key of
        None \<Rightarrow> False | Some p \<Rightarrow> kp_type p \<noteq> kt_lattice_type tuple")
      case True
      then have "gossip_map' = gossip_map" "s' = s1"
        using assms look merge by (simp_all add: gossip_tuple_def Let_def)
      then show ?thesis
        by (intro conjI exI [of _ "store s1"] exI [of _ "stored_key_map s1"]) simp_all
    next
      case False
      then obtain s2 where "process_put W ?key (kt_lattice_type tuple) (kt_payload tuple) s1 = Inr s2"
          "gossip_map' = gossip_map" "s' = s2"
        using assms look merge by (auto simp: gossip_tuple_def Let_def res_simps)
      then show ?thesis
        using process_put_Inr by blast
    qed
    then obtain st m where s': "gossip_map' = gossip_map" "s' = s1\<lparr>store := st, stored_key_map := m\<rparr>"
      by blast
    have "rings_agree s s'"
      by (rule rings_agree_trans [OF agree same_ctx_agree]) (simp add: s' same_ctx_def)
    then show ?thesis
      using merge L(1,3) same s' by (simp add: parks_def forwards_def)
  qed
qed

text \<open>What a list of gossip tuples makes the thread forward to an address.\<close>

definition forwarded :: "'st worker \<Rightarrow> 'a ring_ctx_scheme \<Rightarrow> KeyTuple list \<Rightarrow> Address \<Rightarrow> KeyTuple list" where
  "forwarded W s tuples a = concat (map (\<lambda>t. copies t (forwards W s t) a) tuples)"

definition forward_addresses :: "'st worker \<Rightarrow> 'a ring_ctx_scheme \<Rightarrow> KeyTuple list \<Rightarrow> Address set" where
  "forward_addresses W s tuples = (\<Union>t \<in> set tuples. gossip_connect_address ` set (forwards W s t))"

lemma gossip_tuples_Inr:
  assumes "rfold (gossip_tuple W) tuples (gossip_map, s) = Inr (gossip_map', s')" "batch gossip_map A f"
  shows "rings_agree s s'
    \<and> batch gossip_map' (A \<union> forward_addresses W s tuples) (\<lambda>a. f a @ forwarded W s tuples a)
    \<and> (\<forall>k. om_at [] (pending_gossip s') k = om_at [] (pending_gossip s) k @
         map gossip_of (filter (\<lambda>t. kt_key t = k \<and> parks W s t) tuples))
    \<and> (\<exists>msgs. outbox s' = outbox s @ msgs \<and> length msgs = length (filter (parks W s) tuples))"
  using assms
proof (induction tuples arbitrary: gossip_map A f s)
  case Nil
  then show ?case
    by (simp add: forwarded_def forward_addresses_def)
next
  case (Cons t tuples)
  from Cons.prems obtain gossip_map1 s1 where
      step: "gossip_tuple W t (gossip_map, s) = Inr (gossip_map1, s1)"
    and rest: "rfold (gossip_tuple W) tuples (gossip_map1, s1) = Inr (gossip_map', s')"
    by (auto simp: res_simps)
  note S = gossip_tuple_Inr [OF step]
  have agree: "rings_agree s s1"
    using S by simp
  have same: "parks W s1 = parks W s" "forwards W s1 = forwards W s"
    using parks_agree [OF agree] forwards_agree [OF agree] by (auto intro!: ext)
  have "batch gossip_map1 (A \<union> gossip_connect_address ` set (forwards W s t)) (\<lambda>a. f a @ copies t (forwards W s t) a)"
    using S batch_forwards [OF Cons.prems(2)] by simp
  note I = Cons.IH [OF rest this]
  have "batch gossip_map' (A \<union> forward_addresses W s (t # tuples)) (\<lambda>a. f a @ forwarded W s (t # tuples) a)"
    using I by (simp add: forward_addresses_def forwarded_def same Un_assoc)
  moreover have "rings_agree s s'"
    using agree I rings_agree_trans by blast
  moreover have "\<exists>msgs. outbox s' = outbox s @ msgs \<and> length msgs = length (filter (parks W s) (t # tuples))"
    using S I unfolding same by auto
  ultimately show ?case
    using S I unfolding same by auto
qed

section \<open>Sending gossip\<close>

text \<open>The tuple a thread gossips for a key: what a read of the key answers.\<close>

definition gossip_tuples :: "'st worker \<Rightarrow> 'st server \<Rightarrow> Key \<Rightarrow> KeyTuple list" where
  "gossip_tuples W s key =
     (case map_of (stored_key_map s) key of
        None \<Rightarrow> []
      | Some p \<Rightarrow>
          (case serializers W (kp_type p) of
             None \<Rightarrow> []
           | Some sz \<Rightarrow>
               (case sz_get sz (store s) key NO_ERROR of
                  (payload, error, st) \<Rightarrow>
                    if error = NO_ERROR then [put_tuple key (kp_type p) payload] else [])))"

lemma gossip_key_batch:
  assumes "reads_pure W s" "batch gossip_map A f" "address \<in> A"
  shows "\<exists>gossip_map'. gossip_key W address key (gossip_map, s) = Inr (gossip_map', s)
    \<and> batch gossip_map' A (f(address := f address @ gossip_tuples W s key))
    \<and> map fst gossip_map' = map fst gossip_map"
proof (cases "map_of (stored_key_map s) key")
  case None
  then show ?thesis
    using assms(2) by (simp add: gossip_key_def gossip_tuples_def)
next
  case (Some p)
  then obtain sz payload error where sz: "serializers W (kp_type p) = Some sz"
      "sz_get sz (store s) key NO_ERROR = (payload, error, store s)"
    using assms(1) unfolding reads_pure_def by (metis prod.collapse)
  have keys: "map fst (om_modify empty_KeyRequest address g gossip_map) = map fst gossip_map" for g
  proof -
    have "address \<in> fst ` set gossip_map"
      using assms(2,3) by (metis (no_types, lifting) batch_def domI dom_map_of_conv_image_fst)
    then show ?thesis
      by (simp add: om_modify_def update_keys)
  qed
  show ?thesis
    using batch_add [OF assms(2,3), of key "kp_type p" payload] assms(2) keys
    by (cases "error = NO_ERROR")
      (simp_all add: Some sz gossip_key_def gossip_tuples_def process_get_def)
qed


lemma gossip_keys_batch:
  assumes "reads_pure W s" "batch gossip_map A f" "address \<in> A"
  shows "\<exists>gossip_map'. rfold (gossip_key W address) keys (gossip_map, s) = Inr (gossip_map', s)
    \<and> batch gossip_map' A (f(address := f address @ concat (map (gossip_tuples W s) keys)))
    \<and> map fst gossip_map' = map fst gossip_map"
  using assms(2)
proof (induction keys arbitrary: gossip_map f)
  case Nil
  then show ?case by simp
next
  case (Cons key keys)
  obtain gossip_map1 where step: "gossip_key W address key (gossip_map, s) = Inr (gossip_map1, s)"
      "batch gossip_map1 A (f(address := f address @ gossip_tuples W s key))"
      "map fst gossip_map1 = map fst gossip_map"
    using gossip_key_batch [OF assms(1) Cons.prems assms(3)] by blast
  from Cons.IH [OF step(2)] show ?case
    using step(1,3) by (auto cong: if_cong)
qed

definition gossip_requests :: "'st worker \<Rightarrow> 'st server \<Rightarrow> AddressKeysetMap \<Rightarrow> (Address \<times> KeyRequest) list" where
  "gossip_requests W s addr_keyset_map =
     map (\<lambda>(address, keys). (address, put_request (concat (map (gossip_tuples W s) keys)))) addr_keyset_map"

lemma gossip_addresses_batch:
  assumes "reads_pure W s" "distinct (map fst addr_keyset_map)"
    "\<forall>a \<in> set (map fst addr_keyset_map). a \<notin> A" "batch gossip_map A f"
  shows "\<exists>gossip_map' g. rfold (\<lambda>(address, keys) (gossip_map, s).
          rfold (gossip_key W address) keys
            (om_modify empty_KeyRequest address (\<lambda>r. r\<lparr>rq_type := PUT\<rparr>) gossip_map, s))
        addr_keyset_map (gossip_map, s) = Inr (gossip_map', s)
    \<and> batch gossip_map' (A \<union> set (map fst addr_keyset_map)) g
    \<and> (\<forall>a \<in> A. g a = f a)
    \<and> (\<forall>(a, keys) \<in> set addr_keyset_map. g a = concat (map (gossip_tuples W s) keys))
    \<and> map fst gossip_map' = map fst gossip_map @ map fst addr_keyset_map"
  using assms(2-4)
proof (induction addr_keyset_map arbitrary: gossip_map A f)
  case Nil
  then show ?case by auto
next
  case (Cons p rest)
  obtain a keys where p: "p = (a, keys)" by force
  let ?open = "om_modify empty_KeyRequest a (\<lambda>r. r\<lparr>rq_type := PUT\<rparr>) gossip_map"
  have a: "a \<notin> A" "f a = []"
    using Cons.prems by (auto simp: p batch_def)
  then have "a \<notin> fst ` set gossip_map"
    using Cons.prems(3) unfolding batch_def by (metis map_of_eq_None_iff)
  then have order: "map fst ?open = map fst gossip_map @ [a]"
    by (simp add: om_modify_def update_keys)
  obtain gossip_map1 where
    step: "rfold (gossip_key W a) keys (?open, s) = Inr (gossip_map1, s)"
      "batch gossip_map1 (insert a A) (f(a := concat (map (gossip_tuples W s) keys)))"
      "map fst gossip_map1 = map fst gossip_map @ [a]"
    using gossip_keys_batch [OF assms(1) batch_open [OF Cons.prems(3) a(1)], of a keys] a(2) order by auto
  have "distinct (map fst rest)" "\<forall>b \<in> set (map fst rest). b \<notin> insert a A"
    using Cons.prems(1,2) by (auto simp: p)
  from Cons.IH [OF this step(2)] obtain gossip_map' g where
      "rfold (\<lambda>(address, keys) (gossip_map, s).
          rfold (gossip_key W address) keys
            (om_modify empty_KeyRequest address (\<lambda>r. r\<lparr>rq_type := PUT\<rparr>) gossip_map, s))
        rest (gossip_map1, s) = Inr (gossip_map', s)"
      "batch gossip_map' (insert a A \<union> set (map fst rest)) g"
      "\<forall>b \<in> insert a A. g b = (f(a := concat (map (gossip_tuples W s) keys))) b"
      "\<forall>(a, keys) \<in> set rest. g a = concat (map (gossip_tuples W s) keys)"
      "map fst gossip_map' = map fst gossip_map1 @ map fst rest"
    by (elim exE conjE) (rule that)
  then show ?case
    using step a(1) by (intro exI [of _ gossip_map'] exI [of _ g]) (auto simp: p)
qed

lemma batch_list:
  assumes "batch gossip_map A f"
  shows "gossip_map = map (\<lambda>a. (a, put_request (f a))) (map fst gossip_map)"
proof (rule nth_equalityI)
  fix i assume i: "i < length gossip_map"
  obtain a r where ar: "gossip_map ! i = (a, r)" by force
  then have "map_of gossip_map a = Some r"
    using assms i by (metis batch_def map_of_eq_Some_iff nth_mem om_wf_def)
  then have "r = put_request (f a)"
    using assms by (auto simp: batch_def split: if_splits)
  then show "gossip_map ! i = map (\<lambda>a. (a, put_request (f a))) (map fst gossip_map) ! i"
    using i by (simp add: ar)
qed simp

lemma send_gossip_spec:
  assumes "reads_pure W s" "om_wf addr_keyset_map"
  shows "send_gossip W addr_keyset_map s = Inr (send_requests (w_env W) (gossip_requests W s addr_keyset_map) s)"
proof -
  have "distinct (map fst addr_keyset_map)"
    using assms(2) by (simp add: om_wf_def)
  from gossip_addresses_batch [OF assms(1) this, of "{}" "[]" "\<lambda>_. []"]
  obtain gossip_map' g where run: "rfold (\<lambda>(address, keys) (gossip_map, s).
          rfold (gossip_key W address) keys
            (om_modify empty_KeyRequest address (\<lambda>r. r\<lparr>rq_type := PUT\<rparr>) gossip_map, s))
        addr_keyset_map ([], s) = Inr (gossip_map', s)"
      and b: "batch gossip_map' (set (map fst addr_keyset_map)) g"
      and g: "\<forall>(a, keys) \<in> set addr_keyset_map. g a = concat (map (gossip_tuples W s) keys)"
      and keys: "map fst gossip_map' = map fst addr_keyset_map"
    by auto
  have "gossip_map' = gossip_requests W s addr_keyset_map"
    using batch_list [OF b] g unfolding keys by (auto simp: gossip_requests_def)
  then show ?thesis
    using run by (simp add: send_gossip_def)
qed


lemma om_at_mem: "x \<in> set (om_at [] m a) \<Longrightarrow> \<exists>xs. (a, xs) \<in> set m \<and> x \<in> set xs"
  by (cases "map_of m a") (auto simp: om_at_def dest: map_of_SomeD)

lemma message_for_listed_key:
  assumes "key \<in> set (om_at [] m a)"
  shows "\<exists>tuples. set (gossip_tuples W s key) \<subseteq> set tuples
    \<and> (a, ser_KeyRequest (env_codec (w_env W)) (put_request tuples))
        \<in> (\<lambda>(address, request). (address, ser_KeyRequest (env_codec (w_env W)) request)) ` set (gossip_requests W s m)"
proof -
  obtain keys where keys: "(a, keys) \<in> set m" "key \<in> set keys"
    using om_at_mem [OF assms] by blast
  let ?request = "put_request (concat (map (gossip_tuples W s) keys))"
  have request: "(a, ?request) \<in> set (gossip_requests W s m)"
    using imageI [OF keys(1), of "\<lambda>(address, keys). (address, put_request (concat (map (gossip_tuples W s) keys)))"]
    by (simp add: gossip_requests_def)
  show ?thesis
    using imageI [OF request, of "\<lambda>(address, request). (address, ser_KeyRequest (env_codec (w_env W)) request)"]
      keys(2)
    by (intro exI [of _ "concat (map (gossip_tuples W s) keys)"]) auto
qed

section \<open>Properties\<close>

lemma gossip_tuple_total:
  assumes "cluster_ok (w_env W) s" "serializers_ok W" "kt_key tuple \<noteq> []" "kt_lattice_type tuple \<noteq> NONE"
  shows "\<exists>gossip_map' s'. gossip_tuple W tuple (gossip_map, s) = Inr (gossip_map', s')"
proof -
  obtain ts succeed s1 where
      look: "lookup_threads W (kt_key tuple) (kSelfTierIdVector (w_env W)) s = Inr ((ts, succeed), s1)"
    using lookup_threads_total [OF assms(1,3)] by blast
  have "cluster_ok (w_env W) s1"
    using cluster_ok_agree [OF ctx_agree_rings [OF lookup_threads_Inr(2) [OF look]] assms(1)] .
  from request_replication_total [OF this, of "kt_key tuple"]
  obtain s2 where "request_replication W (kt_key tuple) s1 = Inr s2"
    by blast
  moreover obtain s3 where "process_put W (kt_key tuple) (kt_lattice_type tuple) (kt_payload tuple) s1 = Inr s3"
    using process_put_total [OF assms(2,4)] by blast
  moreover obtain m where "is_metadata (kt_key tuple) = Inr m"
    using is_metadata_total [OF assms(3)] by blast
  ultimately show ?thesis
    using look by (simp add: gossip_tuple_def Let_def)
qed

lemma gossip_tuples_total:
  assumes "cluster_ok (w_env W) s" "serializers_ok W"
    "\<forall>t \<in> set tuples. kt_key t \<noteq> [] \<and> kt_lattice_type t \<noteq> NONE"
  shows "\<exists>gossip_map' s'. rfold (gossip_tuple W) tuples (gossip_map, s) = Inr (gossip_map', s')"
  using assms(1,3)
proof (induction tuples arbitrary: gossip_map s)
  case (Cons t tuples)
  obtain gossip_map1 s1 where step: "gossip_tuple W t (gossip_map, s) = Inr (gossip_map1, s1)"
    using gossip_tuple_total [OF Cons.prems(1) assms(2)] Cons.prems(2) by fastforce
  have "rings_agree s s1"
    using gossip_tuple_Inr [OF step] by simp
  then have "cluster_ok (w_env W) s1"
    using Cons.prems(1) by (rule cluster_ok_agree)
  then show ?case
    using Cons.IH Cons.prems(2) step by simp
qed simp

lemma gossip_handler_returns:
  assumes "cluster_ok (w_env W) s" "serializers_ok W"
    "\<forall>t \<in> set (rq_tuples (snd (parse_KeyRequest (env_codec (w_env W)) serialized))).
      kt_key t \<noteq> [] \<and> kt_lattice_type t \<noteq> NONE"
  shows "\<exists>s'. gossip_handler W serialized s = Inr s'"
  using gossip_tuples_total [OF assms, of "[]"] by (auto simp: gossip_handler_def Let_def)

text \<open>
  A gossip tuple without lattice type for a key that the thread is responsible for and has not
  stored dereferences the missing serializer of that type.
\<close>

lemma gossip_without_type_faults:
  assumes "lookup_threads W (kt_key tuple) (kSelfTierIdVector (w_env W)) s = Inr ((threads, True), s1)"
    "st_mem (wt W) threads" "kt_lattice_type tuple = NONE" "serializers W NONE = None"
    "map_of (stored_key_map s1) (kt_key tuple) = None"
  shows "gossip_tuple W tuple (gossip_map, s) = Inl NullDeref"
  using assms by (simp add: gossip_tuple_def Let_def process_put_def)



definition sample_gossip :: KeyRequest where
  "sample_gossip = put_request [sample_tuple]"

lemma sample_gossip_parsed:
  "rq_tuples (snd (parse_KeyRequest (env_codec (w_env sample_worker)) (ser_KeyRequest wire_codec sample_gossip))) =
     [sample_tuple]"
  by (simp add: sample_worker_codec) (simp add: sample_gossip_def put_request_def)




end
