(* ===== verification/Anna_ReplicationResponse.thy ===== *)
theory Anna_ReplicationResponse
  imports Anna_Gossip
begin

text \<open>
  Replication factors that arrive (\<^verbatim>\<open>src/kvs/replication_response_handler.cpp\<close>). A thread that
  does not know the replication factors of a key asks the thread that stores them as metadata and
  parks the requests and the gossip of the key. When the answer arrives, it learns the factors, or
  takes the defaults if none are stored, and settles what was parked.

  The lemmas show that every parked request with a return address gets exactly one reply, that
  parked gossip is merged or forwarded as a whole, and that the handler does not fault in a
  working cluster.
\<close>

section \<open>The response handler\<close>

definition set_factors :: "ReplicationFactor \<Rightarrow> Key \<Rightarrow> (Key, KeyReplication) omap \<Rightarrow> (Key, KeyReplication) omap" where
  "set_factors rep key m =
     fold (\<lambda>l. om_modify empty_KeyReplication key (set_local_replication (rv_tier l) (rv_value l))) (rf_local rep)
       (fold (\<lambda>g. om_modify empty_KeyReplication key (set_global_replication (rv_tier g) (rv_value g)))
         (rf_global rep) m)"

definition reply_of :: "PendingRequest \<Rightarrow> KeyTuple \<Rightarrow> KeyResponse" where
  "reply_of request tp = empty_KeyResponse\<lparr>rs_type := pr_type request,
     rs_response_id := pr_response_id request, rs_tuples := [tp]\<rparr>"

definition send_reply :: "'st worker \<Rightarrow> PendingRequest \<Rightarrow> KeyTuple \<Rightarrow> 'st server \<Rightarrow> 'st server" where
  "send_reply W request tp =
     send_string (ser_KeyResponse (env_codec (w_env W)) (reply_of request tp)) (pr_addr request)"

definition silent_put :: "'st worker \<Rightarrow> Key \<Rightarrow> int \<Rightarrow> PendingRequest \<Rightarrow> 'st server \<Rightarrow> 'st server res" where
  "silent_put W key now request s =
     (if pr_type request = PUT
      then if pr_lattice_type request = NONE then Inr s
           else if \<not> type_matches key (pr_lattice_type request) s then Inr s
           else rbind (process_put W key (pr_lattice_type request) (pr_payload request) s)
                  (\<lambda>s. Inr (add_to_changeset key (track_access key now s)))
      else Inr s)"

definition answer_pending ::
    "'st worker \<Rightarrow> bool \<Rightarrow> Key \<Rightarrow> PendingRequest \<Rightarrow> 'st server \<Rightarrow> 'st server res" where
  "answer_pending W responsible key request s =
     (let now = clock_now W s; s = tick s; tp = empty_KeyTuple\<lparr>kt_key := key\<rparr>
      in if \<not> responsible \<and> pr_addr request \<noteq> []
         then Inr (send_reply W request (tp\<lparr>kt_error := WRONG_THREAD\<rparr>) s)
         else if responsible \<and> pr_addr request = []
         then silent_put W key now request s
         else if responsible \<and> pr_addr request \<noteq> []
         then rbind (if pr_type request = GET then answer_get W key tp s
                     else answer_put W key (pr_lattice_type request) (pr_payload request) tp s)
                (\<lambda>(tp, s). Inr (send_reply W request tp (track_access key now s)))
         else Inr s)"

definition answer_pending_requests :: "'st worker \<Rightarrow> Key \<Rightarrow> 'st server \<Rightarrow> 'st server res" where
  "answer_pending_requests W key s =
     (case map_of (pending_requests s) key of
        None \<Rightarrow> Inr s
      | Some requests \<Rightarrow>
          rbind (lookup_threads W key (kSelfTierIdVector (w_env W)) s)
            (\<lambda>((threads, succeed), s).
               rbind (if succeed then rfold (answer_pending W (st_mem (wt W) threads) key) requests s else Inr s)
                 (\<lambda>s. Inr (s\<lparr>pending_requests := AList.delete key (pending_requests s)\<rparr>))))"

definition merge_pending :: "'st worker \<Rightarrow> Key \<Rightarrow> PendingGossip \<Rightarrow> 'st server \<Rightarrow> 'st server res" where
  "merge_pending W key gossip s =
     (if \<not> type_matches key (pg_lattice_type gossip) s then Inr s
      else process_put W key (pg_lattice_type gossip) (pg_payload gossip) s)"

definition forward_pending ::
    "Key \<Rightarrow> PendingGossip list \<Rightarrow> ServerThread \<Rightarrow> (Address, KeyRequest) omap \<Rightarrow> (Address, KeyRequest) omap" where
  "forward_pending key gossips thread gossip_map =
     (let address = gossip_connect_address thread
      in fold (\<lambda>g. om_modify empty_KeyRequest address
               (\<lambda>r. prepare_put_tuple r key (pg_lattice_type g) (pg_payload g))) gossips
           (om_modify empty_KeyRequest address (\<lambda>r. r\<lparr>rq_type := PUT\<rparr>) gossip_map))"

definition settle_pending_gossip :: "'st worker \<Rightarrow> Key \<Rightarrow> 'st server \<Rightarrow> 'st server res" where
  "settle_pending_gossip W key s =
     (case map_of (pending_gossip s) key of
        None \<Rightarrow> Inr s
      | Some gossips \<Rightarrow>
          rbind (lookup_threads W key (kSelfTierIdVector (w_env W)) s)
            (\<lambda>((threads, succeed), s).
               rbind (if succeed
                      then if st_mem (wt W) threads
                           then rfold (merge_pending W key) gossips s
                           else Inr (send_requests (w_env W) (fold (forward_pending key gossips) threads []) s)
                      else Inr s)
                 (\<lambda>s. Inr (s\<lparr>pending_gossip := AList.delete key (pending_gossip s)\<rparr>))))"

definition serve_pending :: "'st worker \<Rightarrow> Key \<Rightarrow> 'st server \<Rightarrow> 'st server res" where
  "serve_pending W key s = rbind (answer_pending_requests W key s) (settle_pending_gossip W key)"

definition learn_factors :: "env \<Rightarrow> KeyTuple \<Rightarrow> (Key, KeyReplication) omap \<Rightarrow> (Key, KeyReplication) omap" where
  "learn_factors E tuple m =
     (let key = get_key_from_metadata (kt_key tuple)
      in if kt_error tuple = NO_ERROR
         then let lww_value = snd (parse_LWWValue (env_codec E) (kt_payload tuple));
                  rep_data = snd (parse_ReplicationFactor (env_codec E) (lwwv_value lww_value))
              in set_factors rep_data key m
         else init_replication E m key)"

definition replication_response_handler :: "'st worker \<Rightarrow> string \<Rightarrow> 'st server \<Rightarrow> 'st server res" where
  "replication_response_handler W serialized s =
     (let response = snd (parse_KeyResponse (env_codec (w_env W)) serialized)
      in rbind (vec_at (rs_tuples response) 0)
           (\<lambda>tuple.
              let key = get_key_from_metadata (kt_key tuple); error = kt_error tuple
              in if error = NO_ERROR \<or> error = KEY_DNE
                 then serve_pending W key
                   (s\<lparr>key_replication_map := learn_factors (w_env W) tuple (key_replication_map s)\<rparr>)
                 else if error = WRONG_THREAD then request_replication W key s
                 else Inr s))"

section \<open>Pending requests are answered\<close>

lemma send_reply_simps [simp]:
  "outbox (send_reply W r tp s) =
     outbox s @ [(pr_addr r, ser_KeyResponse (env_codec (w_env W)) (reply_of r tp))]"
  "ring_ctx.more (send_reply W r tp s) = ring_ctx.more s"
  "key_replication_map (send_reply W r tp s) = key_replication_map s"
  "global_hash_rings (send_reply W r tp s) = global_hash_rings s"
  "local_hash_rings (send_reply W r tp s) = local_hash_rings s"
  by (simp_all add: send_reply_def send_string_def)

lemmas send_reply_server = server_more_eq [OF send_reply_simps(2)]

definition quiet :: "'st server \<Rightarrow> 'st server \<Rightarrow> bool" where
  "quiet a b \<longleftrightarrow> same_ctx a b \<and> pending_requests b = pending_requests a \<and> pending_gossip b = pending_gossip a"

lemma quiet_refl [simp]: "quiet s s"
  by (simp add: quiet_def same_ctx_def)

lemma quiet_trans: "quiet a b \<Longrightarrow> quiet b c \<Longrightarrow> quiet a c"
  by (simp add: quiet_def same_ctx_def)

lemma quiet_updates [simp]:
  "quiet a (b\<lparr>store := st\<rparr>) = quiet a b" "quiet a (b\<lparr>stored_key_map := m\<rparr>) = quiet a b"
  "quiet a (b\<lparr>local_changeset := c\<rparr>) = quiet a b" "quiet a (tick b) = quiet a b"
  "quiet a (track_access k now b) = quiet a b" "quiet a (send_reply W r tp b) = quiet a b"
  "quiet a (add_to_changeset k b) = quiet a b"
  by (simp_all add: quiet_def same_ctx_def tick_def track_access_def send_reply_server add_to_changeset_def)

lemma outbox_updates [simp]:
  "outbox (tick s) = outbox s" "outbox (track_access k now s) = outbox s" "outbox (add_to_changeset k s) = outbox s"
  by (simp_all add: tick_def track_access_def add_to_changeset_def)

lemma process_put_quiet:
  assumes "process_put W key type payload s = Inr s'"
  shows "quiet s s'" "outbox s' = outbox s"
  using process_put_Inr [OF assms] by auto

lemma answer_get_quiet:
  assumes "answer_get W key tp s = Inr (tp', s')"
  shows "quiet s s'" "outbox s' = outbox s" "kt_key tp' = kt_key tp"
  using answer_get_Inr [OF assms] by auto

lemma answer_put_quiet:
  assumes "answer_put W key type payload tp s = Inr (tp', s')"
  shows "quiet s s'" "outbox s' = outbox s" "kt_key tp' = kt_key tp"
  using answer_put_Inr [OF assms] by auto

lemma silent_put_quiet:
  assumes "silent_put W key now request s = Inr s'"
  shows "quiet s s'" "outbox s' = outbox s"
  using assms process_put_quiet by (fastforce simp: silent_put_def res_simps split: if_splits)+

lemma answer_pending_Inr:
  assumes "answer_pending W responsible key r s = Inr s'"
  shows "quiet s s' \<and> (\<exists>replies. outbox s' = outbox s @ replies
    \<and> (if pr_addr r = [] then replies = []
       else \<exists>tp. kt_key tp = key \<and> (\<not> responsible \<longrightarrow> kt_error tp = WRONG_THREAD)
         \<and> replies = [(pr_addr r, ser_KeyResponse (env_codec (w_env W)) (reply_of r tp))]))"
proof -
  let ?now = "clock_now W s" and ?tp = "empty_KeyTuple\<lparr>kt_key := key\<rparr>"
  have tick: "quiet s (tick s)" by simp
  consider (wrong) "\<not> responsible" "pr_addr r \<noteq> []" | (silent) "responsible" "pr_addr r = []"
    | (reply) "responsible" "pr_addr r \<noteq> []" | (drop) "\<not> responsible" "pr_addr r = []"
    by blast
  then show ?thesis
  proof cases
    case wrong
    then show ?thesis
      using assms by (auto simp: answer_pending_def Let_def intro!: exI [of _ "?tp\<lparr>kt_error := WRONG_THREAD\<rparr>"])
  next
    case silent
    then have "silent_put W key ?now r (tick s) = Inr s'"
      using assms by (simp add: answer_pending_def Let_def)
    from silent_put_quiet [OF this] show ?thesis
      using silent quiet_trans [OF tick] by simp
  next
    case reply
    then obtain tp s1 where run: "(if pr_type r = GET then answer_get W key ?tp (tick s)
          else answer_put W key (pr_lattice_type r) (pr_payload r) ?tp (tick s)) = Inr (tp, s1)"
        "s' = send_reply W r tp (track_access key ?now s1)"
      using assms by (auto simp: answer_pending_def Let_def res_simps)
    have "quiet (tick s) s1" "outbox s1 = outbox (tick s)" "kt_key tp = key"
      using run(1) answer_get_quiet [of W key ?tp "tick s" tp s1]
        answer_put_quiet [of W key "pr_lattice_type r" "pr_payload r" ?tp "tick s" tp s1]
      by (auto split: if_splits)
    then show ?thesis
      using reply run(2) quiet_trans [OF tick] by auto
  next
    case drop
    then show ?thesis
      using assms by (auto simp: answer_pending_def Let_def)
  qed
qed

text \<open>What the thread sends for a list of pending requests: one reply to each that has an address.\<close>

definition replies_to :: "'st worker \<Rightarrow> bool \<Rightarrow> Key \<Rightarrow> PendingRequest list \<Rightarrow> (Address \<times> string) list \<Rightarrow> bool" where
  "replies_to W responsible key requests replies \<longleftrightarrow>
     list_all2 (\<lambda>r m. \<exists>tp. kt_key tp = key \<and> (\<not> responsible \<longrightarrow> kt_error tp = WRONG_THREAD)
         \<and> m = (pr_addr r, ser_KeyResponse (env_codec (w_env W)) (reply_of r tp)))
       (filter (\<lambda>r. pr_addr r \<noteq> []) requests) replies"

lemma answer_pendings_Inr:
  assumes "rfold (answer_pending W responsible key) requests s = Inr s'"
  shows "quiet s s' \<and> (\<exists>replies. outbox s' = outbox s @ replies \<and> replies_to W responsible key requests replies)"
  using assms
proof (induction requests arbitrary: s)
  case Nil
  then show ?case by (simp add: replies_to_def)
next
  case (Cons r requests)
  then obtain s1 where step: "answer_pending W responsible key r s = Inr s1"
      and rest: "rfold (answer_pending W responsible key) requests s1 = Inr s'"
    by (auto simp: res_simps)
  note S = answer_pending_Inr [OF step] and I = Cons.IH [OF rest]
  obtain r1 where r1: "outbox s1 = outbox s @ r1"
      "if pr_addr r = [] then r1 = [] else \<exists>tp. kt_key tp = key \<and> (\<not> responsible \<longrightarrow> kt_error tp = WRONG_THREAD)
         \<and> r1 = [(pr_addr r, ser_KeyResponse (env_codec (w_env W)) (reply_of r tp))]"
    using S by blast
  obtain r2 where r2: "outbox s' = outbox s1 @ r2" "replies_to W responsible key requests r2"
    using I by blast
  have "replies_to W responsible key (r # requests) (r1 @ r2)"
    using r1(2) r2(2) by (auto simp: replies_to_def split: if_splits)
  moreover have "quiet s s'"
    using S I quiet_trans by blast
  ultimately show ?case
    using r1(1) r2(1) by auto
qed

text \<open>The threads that a lookup in the thread's own tier finds responsible.\<close>

definition owners :: "'st worker \<Rightarrow> Key \<Rightarrow> 'a ring_ctx_scheme \<Rightarrow> ServerThread list" where
  "owners W key s =
     (case srv_lookup W key (kSelfTierIdVector (w_env W)) s of
        Inl _ \<Rightarrow> [] | Inr (threads, succeed) \<Rightarrow> if succeed then threads else [])"

lemma owners_agree: "rings_agree a b \<Longrightarrow> owners W key b = owners W key a"
  by (simp add: owners_def srv_lookup_agree)

lemma answer_pending_requests_Inr:
  assumes "answer_pending_requests W key s = Inr s'" "key \<in> dom (map_of (key_replication_map s))"
  shows "rings_agree s s' \<and> pending_gossip s' = pending_gossip s
    \<and> map_of (pending_requests s') = (map_of (pending_requests s))(key := None)
    \<and> (\<exists>replies. outbox s' = outbox s @ replies
      \<and> replies_to W (st_mem (wt W) (owners W key s)) key (om_at [] (pending_requests s) key) replies)"
proof (cases "map_of (pending_requests s) key")
  case None
  then show ?thesis
    using assms by (auto simp: answer_pending_requests_def om_at_def replies_to_def)
next
  case (Some requests)
  then obtain threads succeed s1 s2 where
      look: "lookup_threads W key (kSelfTierIdVector (w_env W)) s = Inr ((threads, succeed), s1)"
    and run: "(if succeed then rfold (answer_pending W (st_mem (wt W) threads) key) requests s1 else Inr s1) = Inr s2"
    and s': "s' = s2\<lparr>pending_requests := AList.delete key (pending_requests s2)\<rparr>"
    using assms(1) by (auto simp: answer_pending_requests_def res_simps)
  note L = lookup_threads_Inr [OF look]
  have succeed: succeed
    using L(4) assms(2) by blast
  note same = ctx_agree_server [OF L(2)]
  have run: "rfold (answer_pending W (st_mem (wt W) threads) key) requests s1 = Inr s2"
    using run succeed by simp
  note A = answer_pendings_Inr [OF run]
  have "rings_agree s1 s'"
    using A by (intro same_ctx_agree) (simp add: s' quiet_def same_ctx_def)
  with ctx_agree_rings [OF L(2)] have "rings_agree s s'"
    by (rule rings_agree_trans)
  then show ?thesis
    using A L(1,3) succeed same
    by (auto simp: s' quiet_def map_of_delete Some om_at_def owners_def)
qed

section \<open>Pending gossip is merged or forwarded\<close>

definition pending_tuple :: "Key \<Rightarrow> PendingGossip \<Rightarrow> KeyTuple" where
  "pending_tuple key g = put_tuple key (pg_lattice_type g) (pg_payload g)"

definition pending_copies :: "Key \<Rightarrow> PendingGossip list \<Rightarrow> ServerThread list \<Rightarrow> Address \<Rightarrow> KeyTuple list" where
  "pending_copies key gossips threads a =
     concat (map (\<lambda>_. map (pending_tuple key) gossips) (filter (\<lambda>t. gossip_connect_address t = a) threads))"

lemma batch_reopen:
  assumes "batch gossip_map A f"
  shows "batch (om_modify empty_KeyRequest address (\<lambda>r. r\<lparr>rq_type := PUT\<rparr>) gossip_map) (insert address A) f"
proof (cases "address \<in> A")
  case True
  then show ?thesis
    using assms by (auto simp: batch_def om_at_def put_request_def)
next
  case False
  then show ?thesis
    using batch_open [OF assms] by simp
qed

lemma batch_add_gossips:
  assumes "batch gossip_map A f" "address \<in> A"
  shows "batch (fold (\<lambda>g. om_modify empty_KeyRequest address
      (\<lambda>r. prepare_put_tuple r key (pg_lattice_type g) (pg_payload g))) gossips gossip_map) A
    (f(address := f address @ map (pending_tuple key) gossips))"
  using assms(1)
proof (induction gossips arbitrary: gossip_map f)
  case Nil
  then show ?case by simp
next
  case (Cons g gossips)
  from Cons.IH [OF batch_add [OF Cons.prems assms(2)]] show ?case
    by (simp add: pending_tuple_def cong: if_cong)
qed

lemma batch_forward_pending:
  assumes "batch gossip_map A f"
  shows "batch (fold (forward_pending key gossips) threads gossip_map)
    (A \<union> gossip_connect_address ` set threads) (\<lambda>a. f a @ pending_copies key gossips threads a)"
  using assms
proof (induction threads arbitrary: gossip_map A f)
  case Nil
  then show ?case by (simp add: pending_copies_def)
next
  case (Cons t threads)
  let ?a = "gossip_connect_address t"
  have "batch (forward_pending key gossips t gossip_map) (insert ?a A)
      (f(?a := f ?a @ map (pending_tuple key) gossips))"
    unfolding forward_pending_def Let_def
    by (rule batch_add_gossips [OF batch_reopen [OF Cons.prems]]) simp
  note I = Cons.IH [OF this]
  have "(\<lambda>a. (f(?a := f ?a @ map (pending_tuple key) gossips)) a @ pending_copies key gossips threads a) =
      (\<lambda>a. f a @ pending_copies key gossips (t # threads) a)"
    by (auto simp: pending_copies_def)
  with I show ?case
    by simp
qed

lemma merge_pendings_quiet:
  assumes "rfold (merge_pending W key) gossips s = Inr s'"
  shows "quiet s s' \<and> outbox s' = outbox s"
  using assms
proof (induction gossips arbitrary: s)
  case (Cons g gossips)
  then obtain s1 where step: "merge_pending W key g s = Inr s1"
      and rest: "rfold (merge_pending W key) gossips s1 = Inr s'"
    by (auto simp: res_simps)
  have "quiet s s1 \<and> outbox s1 = outbox s"
    using step process_put_quiet by (auto simp: merge_pending_def split: if_splits)
  with Cons.IH [OF rest] show ?case
    using quiet_trans by auto
qed simp

lemma settle_pending_gossip_Inr:
  assumes "settle_pending_gossip W key s = Inr s'" "key \<in> dom (map_of (key_replication_map s))"
  shows "rings_agree s s' \<and> pending_requests s' = pending_requests s
    \<and> map_of (pending_gossip s') = (map_of (pending_gossip s))(key := None)
    \<and> (\<exists>addresses. outbox s' = outbox s @ map (\<lambda>a. (a, ser_KeyRequest (env_codec (w_env W))
        (put_request (pending_copies key (om_at [] (pending_gossip s) key) (owners W key s) a)))) addresses
      \<and> distinct addresses
      \<and> set addresses = (if map_of (pending_gossip s) key = None \<or> st_mem (wt W) (owners W key s) then {}
           else gossip_connect_address ` set (owners W key s)))"
proof (cases "map_of (pending_gossip s) key")
  case None
  then show ?thesis
    using assms by (auto simp: settle_pending_gossip_def)
next
  case (Some gossips)
  then obtain threads succeed s1 s2 where
      look: "lookup_threads W key (kSelfTierIdVector (w_env W)) s = Inr ((threads, succeed), s1)"
    and run: "(if succeed then if st_mem (wt W) threads then rfold (merge_pending W key) gossips s1
        else Inr (send_requests (w_env W) (fold (forward_pending key gossips) threads []) s1) else Inr s1) = Inr s2"
    and s': "s' = s2\<lparr>pending_gossip := AList.delete key (pending_gossip s2)\<rparr>"
    using assms(1) by (auto simp: settle_pending_gossip_def res_simps)
  note L = lookup_threads_Inr [OF look]
  note same = ctx_agree_server [OF L(2)] and agree = ctx_agree_rings [OF L(2)]
  have succeed: succeed
    using L(4) assms(2) by blast
  have owners: "owners W key s = threads" and out: "outbox s1 = outbox s"
    using L(1,3) succeed by (simp_all add: owners_def)
  show ?thesis
  proof (cases "st_mem (wt W) threads")
    case True
    then have "quiet s1 s2" "outbox s2 = outbox s1"
      using run succeed merge_pendings_quiet [of W key gossips s1 s2] by auto
    moreover from this have "rings_agree s1 s'"
      by (intro same_ctx_agree) (simp add: s' quiet_def same_ctx_def)
    with agree have "rings_agree s s'"
      by (rule rings_agree_trans)
    ultimately show ?thesis
      using True same owners out Some by (auto simp: s' quiet_def map_of_delete)
  next
    case False
    let ?map = "fold (forward_pending key gossips) threads []"
    have s2: "s2 = send_requests (w_env W) ?map s1"
      using run succeed False by simp
    have b: "batch ?map (gossip_connect_address ` set threads) (pending_copies key gossips threads)"
      using batch_forward_pending [of "[]" "{}" "\<lambda>_. []" key gossips threads] by (simp add: eta_contract_eq)
    have "dom (map_of ?map) = gossip_connect_address ` set threads" "om_wf ?map"
      using b by (auto simp: batch_def dom_def)
    then have addresses: "distinct (map fst ?map)" "set (map fst ?map) = gossip_connect_address ` set threads"
      by (simp_all add: om_wf_def dom_map_of_conv_image_fst)
    have sent: "outbox s' = outbox s @ map (\<lambda>a. (a, ser_KeyRequest (env_codec (w_env W))
        (put_request (pending_copies key gossips threads a)))) (map fst ?map)"
      using arg_cong [OF batch_list [OF b],
          of "map (\<lambda>(address, request). (address, ser_KeyRequest (env_codec (w_env W)) request))"]
      by (simp add: s' s2 outbox_send_requests out comp_def)
    have "rings_agree s1 s'"
      using send_requests_frame(1) [of s1] by (intro same_ctx_agree) (simp add: s' s2 same_ctx_def)
    with agree have "rings_agree s s'"
      by (rule rings_agree_trans)
    then show ?thesis
      using False same owners sent addresses Some
      by (intro conjI exI [of _ "map fst ?map"])
        (simp_all add: s' s2 send_requests_server map_of_delete om_at_def)
  qed
qed


section \<open>Properties of the response handler\<close>

lemma learned_key:
  assumes "kt_error tuple = KEY_DNE"
  shows "get_key_from_metadata (kt_key tuple) \<in> dom (map_of (learn_factors E tuple m))"
  using assms by (auto simp: learn_factors_def Let_def init_replication_def kAllTiers_def)


text \<open>
  A response without factors for a key that has none yet loses what was parked: the lookup fails,
  and the requests are erased although none was answered.
\<close>

lemma parked_requests_dropped:
  assumes "map_of (pending_requests s) key = Some requests" "is_metadata key = Inr False"
    "map_of (key_replication_map s) key = None" "answer_pending_requests W key s = Inr s'"
  shows "map_of (pending_requests s') key = None \<and> (\<exists>m. outbox s' = outbox s @ [m])
    \<and> map_of (key_replication_map s') key = None"
proof -
  obtain threads succeed s1 s2 where
      look: "lookup_threads W key (kSelfTierIdVector (w_env W)) s = Inr ((threads, succeed), s1)"
    and run: "(if succeed then rfold (answer_pending W (st_mem (wt W) threads) key) requests s1 else Inr s1) = Inr s2"
    and s': "s' = s2\<lparr>pending_requests := AList.delete key (pending_requests s2)\<rparr>"
    using assms(1,4) by (auto simp: answer_pending_requests_def res_simps)
  note L = lookup_threads_Inr [OF look]
  have "\<not> succeed"
    using L(1) assms(2,3) by (auto simp: srv_lookup_def lookup_def domIff res_simps split: if_splits)
  moreover have "key \<notin> dom (map_of (key_replication_map s1))"
    using assms(3) ctx_agree_dom [OF L(2), of key] by auto
  ultimately show ?thesis
    using L(3) run by (auto simp: s' map_of_delete)
qed

lemma silent_put_total:
  assumes "serializers_ok W"
  shows "\<exists>s'. silent_put W key now request s = Inr s'"
  using process_put_total [OF assms, of "pr_lattice_type request" key "pr_payload request" s]
  by (auto simp: silent_put_def)

lemma answer_pending_total:
  assumes "serializers_ok W"
  shows "\<exists>s'. answer_pending W responsible key r s = Inr s'"
proof -
  let ?tp = "empty_KeyTuple\<lparr>kt_key := key\<rparr>"
  obtain s1 where "silent_put W key (clock_now W s) r (tick s) = Inr s1"
    using silent_put_total [OF assms] by blast
  moreover obtain tp2 s2 where "answer_get W key ?tp (tick s) = Inr (tp2, s2)"
    using answer_get_total [OF assms] by blast
  moreover obtain tp3 s3 where "answer_put W key (pr_lattice_type r) (pr_payload r) ?tp (tick s) = Inr (tp3, s3)"
    using answer_put_total [OF assms] by blast
  ultimately show ?thesis
    by (simp add: answer_pending_def Let_def)
qed

lemma answer_pending_requests_total:
  assumes "cluster_ok (w_env W) s" "serializers_ok W" "key \<noteq> []"
  shows "\<exists>s'. answer_pending_requests W key s = Inr s'"
proof (cases "map_of (pending_requests s) key")
  case None
  then show ?thesis by (simp add: answer_pending_requests_def)
next
  case (Some requests)
  obtain threads succeed s1 where
      "lookup_threads W key (kSelfTierIdVector (w_env W)) s = Inr ((threads, succeed), s1)"
    using lookup_threads_total [OF assms(1,3)] by blast
  moreover obtain s2 where "rfold (answer_pending W (st_mem (wt W) threads) key) requests s1 = Inr s2"
    using rfold_total [of requests "answer_pending W (st_mem (wt W) threads) key" s1]
      answer_pending_total [OF assms(2)] by blast
  ultimately show ?thesis
    using Some by (simp add: answer_pending_requests_def)
qed

lemma settle_pending_gossip_total:
  assumes "cluster_ok (w_env W) s" "serializers_ok W" "key \<noteq> []"
    "\<forall>g \<in> set (om_at [] (pending_gossip s) key). pg_lattice_type g \<noteq> NONE"
  shows "\<exists>s'. settle_pending_gossip W key s = Inr s'"
proof (cases "map_of (pending_gossip s) key")
  case None
  then show ?thesis by (simp add: settle_pending_gossip_def)
next
  case (Some gossips)
  obtain threads succeed s1 where
      "lookup_threads W key (kSelfTierIdVector (w_env W)) s = Inr ((threads, succeed), s1)"
    using lookup_threads_total [OF assms(1,3)] by blast
  moreover have "\<exists>s'. merge_pending W key g s = Inr s'" if "g \<in> set gossips" for g s
    using process_put_total [OF assms(2), of "pg_lattice_type g" key "pg_payload g" s] assms(4) Some that
    by (auto simp: merge_pending_def om_at_def)
  then obtain s2 where "rfold (merge_pending W key) gossips s1 = Inr s2"
    using rfold_total [of gossips "merge_pending W key" s1] by blast
  ultimately show ?thesis
    using Some by (simp add: settle_pending_gossip_def)
qed

lemma serve_pending_total:
  assumes "cluster_ok (w_env W) s" "serializers_ok W" "key \<noteq> []" "key \<in> dom (map_of (key_replication_map s))"
    "\<forall>g \<in> set (om_at [] (pending_gossip s) key). pg_lattice_type g \<noteq> NONE"
  shows "\<exists>s'. serve_pending W key s = Inr s'"
proof -
  obtain s1 where s1: "answer_pending_requests W key s = Inr s1"
    using answer_pending_requests_total [OF assms(1-3)] by blast
  note A = answer_pending_requests_Inr [OF s1 assms(4)]
  have "cluster_ok (w_env W) s1"
    using A assms(1) cluster_ok_agree by blast
  then obtain s2 where "settle_pending_gossip W key s1 = Inr s2"
    using settle_pending_gossip_total [OF _ assms(2,3)] A assms(5) by fastforce
  with s1 show ?thesis
    by (simp add: serve_pending_def)
qed

lemma cluster_ok_factors:
  assumes "cluster_ok E s" "key_replication_map s' = m"
    "global_hash_rings s' = global_hash_rings s" "local_hash_rings s' = local_hash_rings s"
    "\<And>k tier. k \<in> dom (map_of m) \<Longrightarrow> factors_ok k tier s'"
  shows "cluster_ok E s'"
proof -
  have "global_ring tier s' = global_ring tier s" "local_ring tier s' = local_ring tier s" for tier
    by (simp_all add: global_ring_def local_ring_def assms)
  then show ?thesis
    using assms by (simp add: cluster_ok_def rings_ok_def)
qed

definition sample_pending :: PendingRequest where
  "sample_pending = \<lparr>pr_type = GET, pr_lattice_type = NONE, pr_payload = [], pr_addr = ''tcp://9.9.9.9:6800'',
     pr_response_id = ''r1''\<rparr>"

definition sample_waiting :: "mem_store server" where
  "sample_waiting = sample_server\<lparr>key_replication_map := [], pending_requests := [(''k'', [sample_pending])]\<rparr>"

definition sample_answer :: KeyResponse where
  "sample_answer = empty_KeyResponse\<lparr>rs_type := GET, rs_tuples :=
     [empty_KeyTuple\<lparr>kt_key := get_replication_key ''k'' replication, kt_error := KEY_DNE\<rparr>]\<rparr>"

lemma sample_learned:
  "learn_factors sample_env (hd (rs_tuples sample_answer)) [] =
     [(''k'', \<lparr>global_replication = [(MEMORY, 1), (DISK, 0)], local_replication = [(MEMORY, 1), (DISK, 1)]\<rparr>)]"
  by (simp add: key_of_replication_key empty_KeyTuple_def empty_KeyResponse_def learn_factors_def sample_answer_def init_replication_def kAllTiers_def om_modify_def om_at_def
      set_global_replication_def set_local_replication_def empty_KeyReplication_def sample_env_def)


lemma sample_waiting_ok:
  "cluster_ok (w_env sample_worker)
     (sample_waiting\<lparr>key_replication_map := learn_factors (w_env sample_worker) (hd (rs_tuples sample_answer))
        (key_replication_map sample_waiting)\<rparr>)" (is "cluster_ok _ ?s")
proof (rule cluster_ok_factors [OF sample_cluster_ok])
  have krm: "key_replication_map ?s =
      [(''k'', \<lparr>global_replication = [(MEMORY, 1), (DISK, 0)], local_replication = [(MEMORY, 1), (DISK, 1)]\<rparr>)]"
    by (simp add: sample_learned sample_worker_def sample_waiting_def)
  show "key_replication_map ?s =
      [(''k'', \<lparr>global_replication = [(MEMORY, 1), (DISK, 0)], local_replication = [(MEMORY, 1), (DISK, 1)]\<rparr>)]"
    by (fact krm)
  show "global_hash_rings ?s = global_hash_rings sample_server" "local_hash_rings ?s = local_hash_rings sample_server"
    by (simp_all add: sample_waiting_def)
  fix k tier
  assume "k \<in> dom (map_of [(''k'', \<lparr>global_replication = [(MEMORY, 1 :: u32), (DISK, 0)],
      local_replication = [(MEMORY, 1 :: u32), (DISK, 1)]\<rparr>)])"
  then have k: "k = ''k''"
    by (simp split: if_splits)
  have reps: "global_rep k tier ?s = (if tier = MEMORY then 1 else 0)"
      "local_rep k MEMORY ?s = 1"
    by (simp_all add: global_rep_def local_rep_def replication_of_def krm k om_at_def)
  have rings: "global_ring MEMORY ?s = sample_ring" "local_ring MEMORY ?s = sample_local_ring"
    by (simp_all add: global_ring_def local_ring_def sample_waiting_def sample_server_def om_at_def)
  show "factors_ok k tier ?s"
    unfolding factors_ok_def reps
    using sample_ring_ids sample_local_tids by (cases "tier = MEMORY") (simp_all add: rings reps)
qed

lemma sample_answer_parsed:
  "rs_tuples (snd (parse_KeyResponse (env_codec (w_env sample_worker)) (ser_KeyResponse wire_codec sample_answer))) =
     [hd (rs_tuples sample_answer)]"
  by (simp add: sample_worker_codec) (simp add: sample_answer_def)

lemma sample_answer_tuple:
  "kt_error (hd (rs_tuples sample_answer)) = KEY_DNE"
  "get_key_from_metadata (kt_key (hd (rs_tuples sample_answer))) = ''k''"
  by (simp_all add: sample_answer_def key_of_replication_key)


end
