(* ===== verification/Anna_ReplicationChange.thy ===== *)
theory Anna_ReplicationChange
  imports Anna_ReplicationResponse
begin

text \<open>
  Changes of replication factors (\<^verbatim>\<open>src/kvs/replication_change_handler.cpp\<close>), which the monitoring
  node announces. The first thread of a node passes the announcement on to its siblings. Every
  thread sets the new factors; for a key it stores it compares the responsible threads before and
  after, gossips the key to the new ones and removes it if it is no longer responsible.

  The lemmas show that an update affects the factors of its key only, and that a key is removed
  only after its value has been sent to every thread that is responsible under the new factors.
\<close>

section \<open>The handler\<close>

definition broadcast_to_threads :: "'st worker \<Rightarrow> (ServerThread \<Rightarrow> Address) \<Rightarrow> string \<Rightarrow> 'st server \<Rightarrow> 'st server" where
  "broadcast_to_threads W address serialized s =
     fold (\<lambda>tid. send_string serialized (address (server_thread (public_ip W) (private_ip W) (of_nat tid))))
       [1..<unat (kThreadNum (w_env W))] s"

definition note_global ::
    "Key \<Rightarrow> ReplicationValue \<Rightarrow> bool \<times> (Key, KeyReplication) omap \<Rightarrow> bool \<times> (Key, KeyReplication) omap" where
  "note_global key g = (\<lambda>(decrement, m).
     (decrement \<or> rv_value g < om_at 0 (global_replication (om_at empty_KeyReplication m key)) (rv_tier g),
      om_modify empty_KeyReplication key (set_global_replication (rv_tier g) (rv_value g)) m))"

definition note_local ::
    "Key \<Rightarrow> ReplicationValue \<Rightarrow> bool \<times> (Key, KeyReplication) omap \<Rightarrow> bool \<times> (Key, KeyReplication) omap" where
  "note_local key l = (\<lambda>(decrement, m).
     (decrement \<or> rv_value l < om_at 0 (local_replication (om_at empty_KeyReplication m key)) (rv_tier l),
      om_modify empty_KeyReplication key (set_local_replication (rv_tier l) (rv_value l)) m))"

definition note_factors :: "ReplicationFactor \<Rightarrow> (Key, KeyReplication) omap \<Rightarrow> bool \<times> (Key, KeyReplication) omap" where
  "note_factors rep m =
     fold (note_local (rf_key rep)) (rf_local rep) (fold (note_global (rf_key rep)) (rf_global rep) (False, m))"

definition announce :: "Key \<Rightarrow> ServerThread list \<Rightarrow> AddressKeysetMap \<Rightarrow> AddressKeysetMap" where
  "announce key threads addr_keyset_map =
     fold (\<lambda>thread. om_modify [] (gossip_connect_address thread) (List.insert key)) threads addr_keyset_map"

definition new_threads :: "ServerThread list \<Rightarrow> ServerThread list \<Rightarrow> ServerThread list" where
  "new_threads orig_threads threads =
     fold (\<lambda>thread result. if \<not> st_mem thread orig_threads then st_set_insert thread result else result) threads []"

definition change_key ::
    "'st worker \<Rightarrow> ReplicationFactor \<Rightarrow> (AddressKeysetMap \<times> Key list) \<times> 'st server
      \<Rightarrow> ((AddressKeysetMap \<times> Key list) \<times> 'st server) res" where
  "change_key W key_rep = (\<lambda>((addr_keyset_map, remove_set), s).
     let key = rf_key key_rep;
         just_set = (\<lambda>s. s\<lparr>key_replication_map := set_factors key_rep key (key_replication_map s)\<rparr>)
     in case map_of (stored_key_map s) key of
          None \<Rightarrow> Inr ((addr_keyset_map, remove_set), just_set s)
        | Some _ \<Rightarrow>
            rbind (lookup_threads W key kAllTiers s)
              (\<lambda>((orig_threads, succeed), s).
                 if \<not> succeed then Inr ((addr_keyset_map, remove_set), just_set s)
                 else
                   let (decrement, m) = note_factors key_rep (key_replication_map s);
                       s = s\<lparr>key_replication_map := m\<rparr>
                   in rbind (lookup_threads W key kAllTiers s)
                        (\<lambda>((threads, succeed), s).
                           if \<not> succeed then Inr ((addr_keyset_map, remove_set), s)
                           else
                             let gone = (\<not> st_mem (wt W) threads);
                                 remove_set = (if gone then List.insert key remove_set else remove_set);
                                 addr_keyset_map = (if gone then announce key threads addr_keyset_map
                                   else addr_keyset_map)
                             in if \<not> decrement
                                then rbind (vec_at orig_threads 0)
                                       (\<lambda>first. Inr ((if st_id first = st_id (wt W)
                                            then announce key (new_threads orig_threads threads) addr_keyset_map
                                            else addr_keyset_map, remove_set), s))
                                else Inr ((addr_keyset_map, remove_set), s))))"

definition remove_key :: "'st worker \<Rightarrow> Key \<Rightarrow> 'st server \<Rightarrow> 'st server res" where
  "remove_key W key s =
     (case serializers W (kp_type (om_at empty_KeyProperty (stored_key_map s) key)) of
        None \<Rightarrow> Inl NullDeref
      | Some serializer \<Rightarrow> Inr (s\<lparr>store := sz_remove serializer (store s) key,
          stored_key_map := AList.delete key (stored_key_map s),
          local_changeset := removeAll key (local_changeset s)\<rparr>))"

definition replication_change_handler :: "'st worker \<Rightarrow> string \<Rightarrow> 'st server \<Rightarrow> 'st server res" where
  "replication_change_handler W serialized s =
     (let s = (if thread_id W = 0
               then broadcast_to_threads W replication_change_connect_address serialized s else s);
          rep_change = snd (parse_ReplicationFactorUpdate (env_codec (w_env W)) serialized)
      in rbind (rfold (change_key W) (rfu_updates rep_change) (([], []), s))
           (\<lambda>((addr_keyset_map, remove_set), s).
              rbind (send_gossip W addr_keyset_map s) (rfold (remove_key W) remove_set)))"

section \<open>Replication factors of other keys are not affected\<close>

text \<open>What a lookup of one key returns depends on the rings and on this key's factors.\<close>

definition key_agree :: "Key \<Rightarrow> 'a ring_ctx_scheme \<Rightarrow> 'b ring_ctx_scheme \<Rightarrow> bool" where
  "key_agree key a b \<longleftrightarrow>
     (\<forall>tier. global_ring tier a = global_ring tier b) \<and> (\<forall>tier. local_ring tier a = local_ring tier b)
   \<and> (\<forall>tier. global_rep key tier a = global_rep key tier b) \<and> (\<forall>tier. local_rep key tier a = local_rep key tier b)
   \<and> (key \<in> dom (map_of (key_replication_map a)) \<longleftrightarrow> key \<in> dom (map_of (key_replication_map b)))"

lemma key_agree_trans: "key_agree key a b \<Longrightarrow> key_agree key b c \<Longrightarrow> key_agree key a c"
  by (simp add: key_agree_def)

lemma rings_key_agree: "rings_agree a b \<Longrightarrow> key_agree key a b"
  by (simp add: rings_agree_def key_agree_def)

lemma srv_lookup_key_agree:
  assumes "key_agree key a b"
  shows "srv_lookup W key tiers b = srv_lookup W key tiers a"
proof -
  have "all_threads E key tiers b = all_threads E key tiers a" for E
    using assms by (simp add: all_threads_def tier_threads_def key_agree_def cong: if_cong)
  then have "lookup E key m tiers b = lookup E key m tiers a" for E m
    using assms by (simp add: lookup_def key_agree_def cong: if_cong)
  then show ?thesis
    by (simp add: srv_lookup_def)
qed

lemma fold_modify_other:
  "(\<And>x m. map_of (f x m) k = map_of m k) \<Longrightarrow> map_of (fold f xs m) k = map_of m k"
  by (induction xs arbitrary: m) simp_all

lemma set_factors_other: "k \<noteq> key \<Longrightarrow> map_of (set_factors rep key m) k = map_of m k"
  by (simp add: set_factors_def fold_modify_other)

lemma fold_note_global:
  "snd (fold (note_global key) gs p) =
     fold (\<lambda>g. om_modify empty_KeyReplication key (set_global_replication (rv_tier g) (rv_value g))) gs (snd p)"
  by (induction gs arbitrary: p) (simp_all add: note_global_def split_beta)

lemma fold_note_local:
  "snd (fold (note_local key) ls p) =
     fold (\<lambda>l. om_modify empty_KeyReplication key (set_local_replication (rv_tier l) (rv_value l))) ls (snd p)"
  by (induction ls arbitrary: p) (simp_all add: note_local_def split_beta)

text \<open>The careful update sets the same factors as the plain one.\<close>

lemma note_factors_map: "snd (note_factors rep m) = set_factors rep (rf_key rep) m"
  by (simp add: note_factors_def set_factors_def fold_note_local fold_note_global)

lemma key_agree_factors:
  assumes "map_of m key = map_of (key_replication_map s) key"
  shows "key_agree key s (s\<lparr>key_replication_map := m\<rparr>)"
proof -
  have "replication_of key (s\<lparr>key_replication_map := m\<rparr>) = replication_of key s"
    using assms by (simp add: replication_of_def om_at_def)
  then show ?thesis
    using assms by (simp add: key_agree_def global_ring_def local_ring_def global_rep_def local_rep_def domIff)
qed


section \<open>What an update of the factors sets\<close>

definition latest :: "Tier \<Rightarrow> ReplicationValue list \<Rightarrow> u32 \<Rightarrow> u32" where
  "latest tier vs n = fold (\<lambda>v old. if rv_tier v = tier then rv_value v else old) vs n"

lemma fold_set_global:
  fixes key
  defines "f \<equiv> \<lambda>g. om_modify empty_KeyReplication key (set_global_replication (rv_tier g) (rv_value g))"
  shows "om_at 0 (global_replication (om_at empty_KeyReplication (fold f gs m) key)) tier =
      latest tier gs (om_at 0 (global_replication (om_at empty_KeyReplication m key)) tier)"
    "local_replication (om_at empty_KeyReplication (fold f gs m) key) =
      local_replication (om_at empty_KeyReplication m key)"
    "dom (map_of (fold f gs m)) = (if gs = [] then dom (map_of m) else insert key (dom (map_of m)))"
  unfolding f_def latest_def
  by (induction gs arbitrary: m) (auto simp: set_global_replication_def)

lemma fold_set_local:
  fixes key
  defines "f \<equiv> \<lambda>l. om_modify empty_KeyReplication key (set_local_replication (rv_tier l) (rv_value l))"
  shows "om_at 0 (local_replication (om_at empty_KeyReplication (fold f ls m) key)) tier =
      latest tier ls (om_at 0 (local_replication (om_at empty_KeyReplication m key)) tier)"
    "global_replication (om_at empty_KeyReplication (fold f ls m) key) =
      global_replication (om_at empty_KeyReplication m key)"
    "dom (map_of (fold f ls m)) = (if ls = [] then dom (map_of m) else insert key (dom (map_of m)))"
  unfolding f_def latest_def
  by (induction ls arbitrary: m) (auto simp: set_local_replication_def)

lemma om_at_set_factors_other:
  "k \<noteq> key \<Longrightarrow> om_at empty_KeyReplication (set_factors rep key m) k = om_at empty_KeyReplication m k"
  by (simp add: om_at_def set_factors_other)

definition with_factors :: "ReplicationFactor \<Rightarrow> 'a ring_ctx_scheme \<Rightarrow> 'a ring_ctx_scheme" where
  "with_factors rep s = s\<lparr>key_replication_map := set_factors rep (rf_key rep) (key_replication_map s)\<rparr>"

lemma with_factors_simps:
  "global_ring tier (with_factors rep s) = global_ring tier s"
  "local_ring tier (with_factors rep s) = local_ring tier s"
  "global_rep key tier (with_factors rep s) =
     (if key = rf_key rep then latest tier (rf_global rep) (global_rep key tier s) else global_rep key tier s)"
  "local_rep key tier (with_factors rep s) =
     (if key = rf_key rep then latest tier (rf_local rep) (local_rep key tier s) else local_rep key tier s)"
  "dom (map_of (key_replication_map (with_factors rep s))) =
     (if rf_global rep = [] \<and> rf_local rep = [] then dom (map_of (key_replication_map s))
      else insert (rf_key rep) (dom (map_of (key_replication_map s))))"
proof -
  show "global_ring tier (with_factors rep s) = global_ring tier s"
      "local_ring tier (with_factors rep s) = local_ring tier s"
    by (simp_all add: with_factors_def global_ring_def local_ring_def)
  show "dom (map_of (key_replication_map (with_factors rep s))) =
     (if rf_global rep = [] \<and> rf_local rep = [] then dom (map_of (key_replication_map s))
      else insert (rf_key rep) (dom (map_of (key_replication_map s))))"
    by (simp add: with_factors_def set_factors_def fold_set_global(3) fold_set_local(3))
  show "global_rep key tier (with_factors rep s) =
     (if key = rf_key rep then latest tier (rf_global rep) (global_rep key tier s) else global_rep key tier s)"
    by (simp add: with_factors_def global_rep_def replication_of_def om_at_set_factors_other)
      (simp add: set_factors_def fold_set_global(1) fold_set_local(2))
  show "local_rep key tier (with_factors rep s) =
     (if key = rf_key rep then latest tier (rf_local rep) (local_rep key tier s) else local_rep key tier s)"
    by (simp add: with_factors_def local_rep_def replication_of_def om_at_set_factors_other)
      (simp add: set_factors_def fold_set_global(2) fold_set_local(1))
qed

lemma with_factors_agree: "rings_agree a b \<Longrightarrow> rings_agree (with_factors rep a) (with_factors rep b)"
  by (simp add: rings_agree_def with_factors_simps)

lemma with_factors_other: "key \<noteq> rf_key rep \<Longrightarrow> key_agree key s (with_factors rep s)"
  by (simp add: key_agree_def with_factors_simps)

section \<open>One update\<close>

lemma announce_mono: "set (om_at [] m a) \<subseteq> set (om_at [] (announce key threads m) a)"
  unfolding announce_def by (induction threads arbitrary: m) (simp, fastforce)

lemma announce_all:
  assumes "thread \<in> set threads"
  shows "key \<in> set (om_at [] (announce key threads m) (gossip_connect_address thread))"
  using assms
proof (induction threads arbitrary: m)
  case (Cons t threads)
  let ?m = "om_modify [] (gossip_connect_address t) (List.insert key) m"
  have step: "announce key (t # threads) m = announce key threads ?m"
    by (simp add: announce_def)
  show ?case
  proof (cases "thread \<in> set threads")
    case True
    then show ?thesis
      using Cons.IH by (simp add: step)
  next
    case False
    then show ?thesis
      using Cons.prems announce_mono [of ?m "gossip_connect_address t" key threads] by (auto simp: step)
  qed
qed simp

lemma announce_wf: "om_wf m \<Longrightarrow> om_wf (announce key threads m)"
  unfolding announce_def by (induction threads arbitrary: m) auto


text \<open>
  One update sets the factors of its key. If the thread stores the key and is no longer responsible
  for it, the key is to be removed and every responsible thread is to be told.
\<close>

lemma change_key_Inr:
  assumes "change_key W rep ((m, rs), s) = Inr ((m', rs'), s')"
  shows "rings_agree (with_factors rep s) s'" "ring_ctx.more s' = ring_ctx.more s"
    "om_wf m \<Longrightarrow> om_wf m'" "\<forall>a. set (om_at [] m a) \<subseteq> set (om_at [] m' a)"
    "rs' = rs \<or> rs' = List.insert (rf_key rep) rs \<and> rf_key rep \<in> dom (map_of (stored_key_map s))
      \<and> (\<exists>threads. srv_lookup W (rf_key rep) kAllTiers s' = Inr (threads, True) \<and> \<not> st_mem (wt W) threads
        \<and> (\<forall>t \<in> set threads. rf_key rep \<in> set (om_at [] m' (gossip_connect_address t))))"
proof -
  let ?key = "rf_key rep"
  consider (absent) "map_of (stored_key_map s) ?key = None"
    | (stored) p where "map_of (stored_key_map s) ?key = Some p"
    by (cases "map_of (stored_key_map s) ?key") auto
  then have "rings_agree (with_factors rep s) s' \<and> ring_ctx.more s' = ring_ctx.more s
      \<and> (om_wf m \<longrightarrow> om_wf m') \<and> (\<forall>a. set (om_at [] m a) \<subseteq> set (om_at [] m' a))
      \<and> (rs' = rs \<or> rs' = List.insert ?key rs \<and> ?key \<in> dom (map_of (stored_key_map s))
        \<and> (\<exists>threads. srv_lookup W ?key kAllTiers s' = Inr (threads, True) \<and> \<not> st_mem (wt W) threads
          \<and> (\<forall>t \<in> set threads. ?key \<in> set (om_at [] m' (gossip_connect_address t)))))"
  proof cases
    case absent
    then show ?thesis
      using assms by (auto simp: change_key_def Let_def with_factors_def)
  next
    case stored
    obtain orig succeed s1 where look: "lookup_threads W ?key kAllTiers s = Inr ((orig, succeed), s1)"
      using assms stored by (auto simp: change_key_def Let_def res_simps)
    note L = lookup_threads_Inr [OF look]
    have more1: "ring_ctx.more s1 = ring_ctx.more s" and agree1: "rings_agree (with_factors rep s) (with_factors rep s1)"
      using L(2) with_factors_agree [OF ctx_agree_rings [OF L(2)]] by (simp_all add: ctx_agree_def)
    show ?thesis
    proof (cases succeed)
      case False
      then show ?thesis
        using assms stored look more1 agree1 by (auto simp: change_key_def Let_def with_factors_def)
    next
      case True
      obtain decrement where note_eq: "note_factors rep (key_replication_map s1) =
          (decrement, set_factors rep ?key (key_replication_map s1))"
        using note_factors_map by (metis prod.collapse)
      obtain threads succeed2 where
          look2: "lookup_threads W ?key kAllTiers (with_factors rep s1) = Inr ((threads, succeed2), s')"
        using assms stored look True note_eq
        by (auto simp: change_key_def Let_def res_simps with_factors_def split: if_splits)
      note L2 = lookup_threads_Inr [OF look2]
      have agree: "rings_agree (with_factors rep s) s'"
        using agree1 ctx_agree_rings [OF L2(2)] by (rule rings_agree_trans)
      have more: "ring_ctx.more s' = ring_ctx.more s"
        using L2(2) more1 by (simp add: ctx_agree_def with_factors_def)
      have found: "srv_lookup W ?key kAllTiers s' = Inr (threads, succeed2)"
        using srv_lookup_agree [OF ctx_agree_rings [OF L2(2)], of W ?key kAllTiers] L2(1) by simp
      let ?m1 = "if \<not> st_mem (wt W) threads then announce ?key threads m else m"
      have out: "if succeed2 then rs' = (if \<not> st_mem (wt W) threads then List.insert ?key rs else rs)
          \<and> (m' = ?m1 \<or> m' = announce ?key (new_threads orig threads) ?m1)
        else m' = m \<and> rs' = rs"
        using assms stored look True note_eq look2
        by (auto simp: change_key_def Let_def res_simps with_factors_def split: if_splits)
      have grows: "set (om_at [] ?m1 a) \<subseteq> set (om_at [] m' a)" if succeed2 for a
      proof -
        have "m' = ?m1 \<or> m' = announce ?key (new_threads orig threads) ?m1"
          using out that by (simp only: if_True)
        then show ?thesis
          using announce_mono [of ?m1 a ?key "new_threads orig threads"] by (elim disjE) (simp_all only: subset_refl)
      qed
      have "om_wf m \<Longrightarrow> om_wf m'"
        using out announce_wf by (auto split: if_splits)
      moreover have "\<forall>a. set (om_at [] m a) \<subseteq> set (om_at [] m' a)"
        using out grows announce_mono by (cases succeed2) (fastforce split: if_splits)+
      moreover have "\<forall>t \<in> set threads. ?key \<in> set (om_at [] m' (gossip_connect_address t))"
        if succeed2 "\<not> st_mem (wt W) threads"
        using grows that announce_all [of _ threads ?key m] by auto
      ultimately show ?thesis
        using agree more out found stored by (auto split: if_splits)
    qed
  qed
  then show "rings_agree (with_factors rep s) s'" "ring_ctx.more s' = ring_ctx.more s"
    "om_wf m \<Longrightarrow> om_wf m'" "\<forall>a. set (om_at [] m a) \<subseteq> set (om_at [] m' a)"
    "rs' = rs \<or> rs' = List.insert ?key rs \<and> ?key \<in> dom (map_of (stored_key_map s))
      \<and> (\<exists>threads. srv_lookup W ?key kAllTiers s' = Inr (threads, True) \<and> \<not> st_mem (wt W) threads
        \<and> (\<forall>t \<in> set threads. ?key \<in> set (om_at [] m' (gossip_connect_address t))))"
    by blast+
qed


section \<open>All updates\<close>

definition leaving :: "'st worker \<Rightarrow> AddressKeysetMap \<Rightarrow> 'st server \<Rightarrow> Key \<Rightarrow> bool" where
  "leaving W m s key \<longleftrightarrow> key \<in> dom (map_of (stored_key_map s))
     \<and> (\<exists>threads. srv_lookup W key kAllTiers s = Inr (threads, True) \<and> \<not> st_mem (wt W) threads
        \<and> (\<forall>t \<in> set threads. key \<in> set (om_at [] m (gossip_connect_address t))))"

lemma leaving_mono:
  assumes "leaving W m s key" "key_agree key s s'" "ring_ctx.more s' = ring_ctx.more s"
    "\<forall>a. set (om_at [] m a) \<subseteq> set (om_at [] m' a)"
  shows "leaving W m' s' key"
proof -
  obtain threads where "srv_lookup W key kAllTiers s = Inr (threads, True)" "\<not> st_mem (wt W) threads"
      "\<forall>t \<in> set threads. key \<in> set (om_at [] m (gossip_connect_address t))"
    using assms(1) by (auto simp: leaving_def)
  moreover have "key \<in> dom (map_of (stored_key_map s'))"
    using assms(1) server_more_eq(6) [OF assms(3)] by (simp add: leaving_def)
  ultimately show ?thesis
    using srv_lookup_key_agree [OF assms(2), of W kAllTiers] assms(4) unfolding leaving_def
    by (intro conjI exI [of _ threads]) auto
qed

lemma change_keys_Inr:
  assumes "rfold (change_key W) reps ((m, rs), s) = Inr ((m', rs'), s')"
    "distinct (map rf_key reps)" "om_wf m" "distinct rs" "\<forall>key \<in> set rs. leaving W m s key"
    "set rs \<inter> rf_key ` set reps = {}"
  shows "om_wf m' \<and> distinct rs' \<and> (\<forall>key \<in> set rs'. leaving W m' s' key)
    \<and> ring_ctx.more s' = ring_ctx.more s \<and> rings_agree (fold with_factors reps s) s'"
  using assms
proof (induction reps arbitrary: m rs s)
  case Nil
  then show ?case by simp
next
  case (Cons rep reps)
  obtain m1 rs1 s1 where step: "change_key W rep ((m, rs), s) = Inr ((m1, rs1), s1)"
      and rest: "rfold (change_key W) reps ((m1, rs1), s1) = Inr ((m', rs'), s')"
    using Cons.prems(1) by (auto simp: res_simps)
  note S = change_key_Inr [OF step]
  have other: "leaving W m1 s1 key" if "key \<in> set rs" for key
  proof (rule leaving_mono [OF _ _ S(2) S(4)])
    show "leaving W m s key"
      using Cons.prems(5) that by blast
    have "key \<noteq> rf_key rep"
      using Cons.prems(6) that by auto
    then show "key_agree key s s1"
      using with_factors_other rings_key_agree [OF S(1)] key_agree_trans by blast
  qed
  have disj: "rs1 = rs \<or> rs1 = List.insert (rf_key rep) rs \<and> leaving W m1 s1 (rf_key rep)"
    using S(5) server_more_eq(6) [OF S(2)] by (simp add: leaving_def)
  have "\<forall>key \<in> set rs1. leaving W m1 s1 key"
    using disj other by (elim disjE) simp_all
  moreover have "distinct rs1"
    using disj Cons.prems(4) by auto
  moreover have "set rs1 \<inter> rf_key ` set reps = {}"
    using disj Cons.prems(2,6) by (elim disjE) (simp_all add: Int_insert_left)
  ultimately have I: "om_wf m' \<and> distinct rs' \<and> (\<forall>key \<in> set rs'. leaving W m' s' key)
      \<and> ring_ctx.more s' = ring_ctx.more s1 \<and> rings_agree (fold with_factors reps s1) s'"
    using Cons.IH [OF rest _ S(3)] Cons.prems(2,3) by simp
  have "rings_agree (fold with_factors reps a) (fold with_factors reps b)" if "rings_agree a b" for a b :: "'b server"
    using that by (induction reps arbitrary: a b) (simp_all add: with_factors_agree)
  then have "rings_agree (fold with_factors reps (with_factors rep s)) s'"
    using I S(1) rings_agree_trans by blast
  then show ?case
    using I S(2) by simp
qed

lemma remove_keys_Inr:
  assumes "rfold (remove_key W) keys s = Inr s'"
  shows "outbox s' = outbox s \<and> same_ctx s s'
    \<and> map_of (stored_key_map s') = map_of (stored_key_map s) |` (- set keys)
    \<and> set (local_changeset s') = set (local_changeset s) - set keys"
  using assms
proof (induction keys arbitrary: s)
  case Nil
  then show ?case by (simp add: same_ctx_def)
next
  case (Cons key keys)
  then obtain s1 where step: "remove_key W key s = Inr s1" and rest: "rfold (remove_key W) keys s1 = Inr s'"
    by (auto simp: res_simps)
  have "outbox s1 = outbox s" "same_ctx s s1" "map_of (stored_key_map s1) = (map_of (stored_key_map s))(key := None)"
      "set (local_changeset s1) = set (local_changeset s) - {key}"
    using step by (auto simp: remove_key_def same_ctx_def map_of_delete split: option.splits)
  then show ?case
    using Cons.IH [OF rest] by (auto simp: same_ctx_def restrict_map_def fun_eq_iff)
qed

lemma fold_send_frame:
  "ring_ctx.more (fold (\<lambda>x. send_string msg (f x)) xs s) = ring_ctx.more s"
  "same_ctx s (fold (\<lambda>x. send_string msg (f x)) xs s)"
  by (induction xs arbitrary: s) (auto simp: send_string_def same_ctx_def)

lemma broadcast_frame:
  "ring_ctx.more (broadcast_to_threads W address msg s) = ring_ctx.more s"
  "same_ctx s (broadcast_to_threads W address msg s)"
  unfolding broadcast_to_threads_def by (rule fold_send_frame)+

lemma fold_with_factors_agree:
  "rings_agree a b \<Longrightarrow> rings_agree (fold with_factors updates a) (fold with_factors updates b)"
  by (induction updates arbitrary: a b) (simp_all add: with_factors_agree)

lemma replication_change_Inr:
  assumes "replication_change_handler W serialized s = Inr s'"
    and "updates = rfu_updates (snd (parse_ReplicationFactorUpdate (env_codec (w_env W)) serialized))"
    and "distinct (map rf_key updates)" "reads_pure W s"
  obtains m rs s1 where "\<forall>key \<in> set rs. leaving W m s1 key" "same_ctx s1 s'"
    "rings_agree (fold with_factors updates s) s1"
    "outbox s' = outbox s1 @ map (\<lambda>(address, request). (address, ser_KeyRequest (env_codec (w_env W)) request))
       (gossip_requests W s m)"
    "map_of (stored_key_map s') = map_of (stored_key_map s) |` (- set rs)"
proof -
  let ?s0 = "if thread_id W = 0 then broadcast_to_threads W replication_change_connect_address serialized s else s"
  have s0: "ring_ctx.more ?s0 = ring_ctx.more s" "same_ctx s ?s0"
    using broadcast_frame(1) [of W replication_change_connect_address serialized s]
      broadcast_frame(2) [of s W replication_change_connect_address serialized] by (simp_all add: same_ctx_def)
  obtain m rs s1 s2 where loop: "rfold (change_key W) updates (([], []), ?s0) = Inr ((m, rs), s1)"
      and send: "send_gossip W m s1 = Inr s2" and rem: "rfold (remove_key W) rs s2 = Inr s'"
    using assms(1) unfolding assms(2) by (auto simp: replication_change_handler_def Let_def res_simps)
  have I: "om_wf m" "\<forall>key \<in> set rs. leaving W m s1 key"
      "ring_ctx.more s1 = ring_ctx.more s" "rings_agree (fold with_factors updates ?s0) s1"
    using change_keys_Inr [OF loop assms(3)] s0(1) by (simp_all add: om_wf_def)
  note same = server_more_eq [OF I(3)]
  have "reads_pure W s1"
    using assms(4) same by (simp add: reads_pure_def)
  then have s2: "s2 = send_requests (w_env W) (gossip_requests W s1 m) s1"
    using send_gossip_spec [OF _ I(1), of W s1] send by simp
  have "gossip_tuples W s1 = gossip_tuples W s"
    using same by (simp add: gossip_tuples_def fun_eq_iff cong: option.case_cong)
  then have requests: "gossip_requests W s1 m = gossip_requests W s m"
    by (simp add: gossip_requests_def)
  note R = remove_keys_Inr [OF rem]
  have "same_ctx s1 s'"
    using R send_requests_frame(1) [of s1 "w_env W" "gossip_requests W s1 m"] by (simp add: s2 same_ctx_def)
  moreover have "rings_agree (fold with_factors updates s) s1"
    using fold_with_factors_agree [OF same_ctx_agree [OF s0(2)]] I(4) by (rule rings_agree_trans)
  moreover have "map_of (stored_key_map s') = map_of (stored_key_map s) |` (- set rs)"
    using R same by (simp add: s2 send_requests_server)
  ultimately show ?thesis
    using that [OF I(2)] R by (simp add: s2 outbox_send_requests requests)
qed

text \<open>
  C6. A change of replication factors never removes data before it has been handed over. With every
  key updated at most once, the factors of the updated keys are set; a key disappears from the
  thread only if the thread is not responsible under the new factors; and then a message with the
  key's value has been sent to every thread that is responsible now, before the key is removed.
\<close>

theorem replication_change_hands_over:
  assumes "replication_change_handler W serialized s = Inr s'"
    and "updates = rfu_updates (snd (parse_ReplicationFactorUpdate (env_codec (w_env W)) serialized))"
    and "distinct (map rf_key updates)" "reads_pure W s"
  shows "rings_agree (fold with_factors updates s) s'
    \<and> (\<forall>key p. map_of (stored_key_map s) key = Some p \<longrightarrow>
        map_of (stored_key_map s') key = Some p
        \<or> (\<exists>threads. srv_lookup W key kAllTiers s' = Inr (threads, True) \<and> \<not> st_mem (wt W) threads
            \<and> (\<forall>t \<in> set threads. \<exists>tuples. set (gossip_tuples W s key) \<subseteq> set tuples
                \<and> (gossip_connect_address t, ser_KeyRequest (env_codec (w_env W)) (put_request tuples))
                    \<in> set (outbox s'))))"
proof -
  obtain m rs s1 where leave: "\<forall>key \<in> set rs. leaving W m s1 key" and ctx: "same_ctx s1 s'"
    and factors: "rings_agree (fold with_factors updates s) s1"
    and out: "outbox s' = outbox s1 @ map (\<lambda>(address, request). (address, ser_KeyRequest (env_codec (w_env W)) request))
       (gossip_requests W s m)"
    and kept: "map_of (stored_key_map s') = map_of (stored_key_map s) |` (- set rs)"
    by (rule replication_change_Inr [OF assms])
  have agree: "rings_agree s1 s'"
    using ctx by (rule same_ctx_agree)
  have handed: "\<exists>threads. srv_lookup W key kAllTiers s' = Inr (threads, True) \<and> \<not> st_mem (wt W) threads
      \<and> (\<forall>t \<in> set threads. \<exists>tuples. set (gossip_tuples W s key) \<subseteq> set tuples
          \<and> (gossip_connect_address t, ser_KeyRequest (env_codec (w_env W)) (put_request tuples)) \<in> set (outbox s'))"
    if gone: "key \<in> set rs" for key
  proof -
    obtain threads where threads: "srv_lookup W key kAllTiers s1 = Inr (threads, True)" "\<not> st_mem (wt W) threads"
        "\<forall>t \<in> set threads. key \<in> set (om_at [] m (gossip_connect_address t))"
      using leave gone by (auto simp: leaving_def)
    have "\<exists>tuples. set (gossip_tuples W s key) \<subseteq> set tuples
        \<and> (a, ser_KeyRequest (env_codec (w_env W)) (put_request tuples)) \<in> set (outbox s')"
      if "key \<in> set (om_at [] m a)" for a
      using message_for_listed_key [OF that, of W s] unfolding out set_append set_map by blast
    then show ?thesis
      using threads srv_lookup_agree [OF agree, of W key kAllTiers] by (intro exI [of _ threads]) simp
  qed
  have "rings_agree (fold with_factors updates s) s'"
    using factors agree by (rule rings_agree_trans)
  moreover have "map_of (stored_key_map s') key = Some p"
    if "map_of (stored_key_map s) key = Some p" "key \<notin> set rs" for key p
    using kept that by (simp add: restrict_map_def)
  ultimately show ?thesis
    using handed by (intro conjI allI impI) (assumption, metis)
qed

definition sample_change :: ReplicationFactorUpdate where
  "sample_change = \<lparr>rfu_updates = [\<lparr>rf_key = ''z'',
     rf_global = [\<lparr>rv_tier = MEMORY, rv_value = 2\<rparr>], rf_local = [\<lparr>rv_tier = MEMORY, rv_value = 1\<rparr>]\<rparr>]\<rparr>"

theorem replication_change_hands_over_witness:
  "\<exists>s s'. process_put sample_worker ''k'' LWW (serialize_timestamped wire_codec 5 ''v'') sample_server = Inr s
    \<and> ''k'' \<in> dom (map_of (stored_key_map s))
    \<and> replication_change_handler sample_worker (ser_ReplicationFactorUpdate wire_codec sample_change) s = Inr s'
    \<and> global_rep ''z'' MEMORY s' = 2"
proof -
  obtain s where s: "process_put sample_worker ''k'' LWW (serialize_timestamped wire_codec 5 ''v'') sample_server = Inr s"
    using process_put_total [OF sample_serializers_ok] by blast
  have mem: "serializers sample_worker = memory_serializers wire_codec"
    by (simp add: sample_worker_def)
  have "stored_held mem_holds sample_server"
    by (simp add: stored_held_def sample_server_fields)
  then have "stored_held mem_holds s"
    using mem_backend.process_put_held [OF mem s] by simp
  then have pure: "reads_pure sample_worker s"
    using mem_backend.held_reads_pure [OF mem sample_serializers_ok] by simp
  have stored: "map_of (stored_key_map s) ''z'' = None" "''k'' \<in> dom (map_of (stored_key_map s))"
    using process_put_Inr [OF s] by (auto simp: sample_server_fields)
  have updates: "rfu_updates (snd (parse_ReplicationFactorUpdate (env_codec (w_env sample_worker))
      (ser_ReplicationFactorUpdate wire_codec sample_change))) = rfu_updates sample_change"
    by (simp add: sample_worker_codec)
  have cast: "broadcast_to_threads sample_worker f msg s = s" for f msg
    by (simp add: broadcast_to_threads_def sample_worker_def sample_env_def)
  have "rfold (change_key sample_worker) (rfu_updates sample_change) (([], []), s) =
      Inr (([], []), with_factors (hd (rfu_updates sample_change)) s)"
    by (simp add: sample_change_def change_key_def with_factors_def stored Let_def)
  then obtain s' where run:
      "replication_change_handler sample_worker (ser_ReplicationFactorUpdate wire_codec sample_change) s = Inr s'"
    by (simp add: replication_change_handler_def updates cast send_gossip_def)
  have "rings_agree (fold with_factors (rfu_updates sample_change) s) s'"
    using replication_change_hands_over [OF run updates [symmetric] _ pure] by (simp add: sample_change_def)
  then have "global_rep ''z'' MEMORY s' = 2"
    using rings_agree_simps(1) [of "fold with_factors (rfu_updates sample_change) s" s' "''z''" MEMORY]
    by (simp add: sample_change_def with_factors_simps(3) latest_def)
  then show ?thesis
    using s stored(2) run by blast
qed

end
