(* ===== verification/Anna_Membership.thy ===== *)
theory Anna_Membership
  imports Anna_ReplicationChange
begin

text \<open>
  Membership of the cluster as a server thread sees it: nodes that join
  (\<^verbatim>\<open>src/kvs/node_join_handler.cpp\<close>), nodes that depart (\<^verbatim>\<open>src/kvs/node_depart_handler.cpp\<close>) and the
  departure of the node itself (\<^verbatim>\<open>src/kvs/self_depart_handler.cpp\<close>). The first thread of a node talks
  to the other nodes and passes the news on to its siblings.

  The lemmas show that a join marks for removal exactly the keys the thread is no longer responsible
  for and lists them for every thread that is, that a departing node hands over all it stores before
  it acknowledges, that joining and departing cancel each other on the ring, and under which
  condition a departing node searches for ever.
\<close>

section \<open>Nodes that join\<close>

definition set_global_ring :: "Tier \<Rightarrow> GlobalHashRing \<Rightarrow> 'a ring_ctx_scheme \<Rightarrow> 'a ring_ctx_scheme" where
  "set_global_ring tier ring s = s\<lparr>global_hash_rings := AList.update tier ring (global_hash_rings s)\<rparr>"

definition all_servers :: "'a ring_ctx_scheme \<Rightarrow> ServerThread list" where
  "all_servers s = concat (map (\<lambda>(tier, ring). hr_unique_servers ring) (global_hash_rings s))"

definition notify_join :: "'st worker \<Rightarrow> string \<Rightarrow> Address \<Rightarrow> Address \<Rightarrow> 'st server \<Rightarrow> 'st server" where
  "notify_join W serialized new_public new_private s =
     (let self = Tier_Name (kSelfTier (w_env W)) @ '':'' @ public_ip W @ '':'' @ private_ip W @ '':'' @
            int_to_string (self_join_count W);
          s = send_string self (node_join_connect_address (server_thread new_public new_private 0)) s;
          others = filter (\<lambda>st. st_private_ip st \<noteq> private_ip W \<and> st_private_ip st \<noteq> new_private) (all_servers s);
          s = fold (\<lambda>st. send_string serialized (node_join_connect_address st)) others s
      in broadcast_to_threads W node_join_connect_address serialized s)"

definition rebalance_key :: "'st worker \<Rightarrow> int \<Rightarrow> Address \<Rightarrow> Key \<Rightarrow> 'st server \<Rightarrow> 'st server res" where
  "rebalance_key W join_count new_private key s =
     rbind (lookup_threads W key (kSelfTierIdVector (w_env W)) s)
       (\<lambda>((threads, succeed), s).
          if succeed
          then if join_count > 0
               then Inr (s\<lparr>join_gossip_map :=
                      announce key (filter (\<lambda>t. st_private_ip t = new_private) threads) (join_gossip_map s)\<rparr>)
               else if join_count = 0 \<and> \<not> st_mem (wt W) threads
               then Inr (s\<lparr>join_remove_set := List.insert key (join_remove_set s),
                      join_gossip_map := announce key threads (join_gossip_map s)\<rparr>)
               else Inr s
          else Inr s)"

definition admit_server :: "'st worker \<Rightarrow> string \<Rightarrow> Tier \<Rightarrow> Address \<Rightarrow> Address \<Rightarrow> int \<Rightarrow> 'st server \<Rightarrow> 'st server res" where
  "admit_server W serialized tier new_public new_private join_count s =
     (let (inserted, ring) = hr_insert (GlobalHasher (env_hash (w_env W))) new_public new_private join_count 0
            (global_ring tier s);
          s = set_global_ring tier ring s
      in if \<not> inserted then Inr s
         else
           let s = (if thread_id W = 0 then notify_join W serialized new_public new_private s else s)
           in if tier = kSelfTier (w_env W)
              then rfold (rebalance_key W join_count new_private) (map fst (stored_key_map s)) s
              else Inr s)"

definition node_join_handler :: "'st worker \<Rightarrow> string \<Rightarrow> 'st server \<Rightarrow> 'st server res" where
  "node_join_handler W serialized s =
     (let v = split serialized CHR '':''
      in rbind (vec_at v 0) (\<lambda>name.
           case Tier_Parse name of
             None \<Rightarrow> Inl Uninitialised
           | Some tier \<Rightarrow>
               rbind (vec_at v 1) (\<lambda>new_public.
               rbind (vec_at v 2) (\<lambda>new_private.
               rbind (vec_at v 3) (\<lambda>count.
               rbind (stoi count) (\<lambda>join_count.
                 admit_server W serialized tier new_public new_private join_count s))))))"

section \<open>Nodes that depart\<close>

definition node_depart_handler :: "'st worker \<Rightarrow> string \<Rightarrow> 'st server \<Rightarrow> 'st server res" where
  "node_depart_handler W serialized s =
     (let v = split serialized CHR '':''
      in rbind (vec_at v 0) (\<lambda>name.
           case Tier_Parse name of
             None \<Rightarrow> Inl Uninitialised
           | Some tier \<Rightarrow>
               rbind (vec_at v 1) (\<lambda>departing_public.
               rbind (vec_at v 2) (\<lambda>departing_private.
                 let s = set_global_ring tier (hr_remove (GlobalHasher (env_hash (w_env W))) departing_public
                           departing_private 0 (global_ring tier s)) s
                 in Inr (if thread_id W = 0
                         then broadcast_to_threads W node_depart_connect_address serialized s else s)))))"

definition notify_depart :: "'st worker \<Rightarrow> string \<Rightarrow> 'st server \<Rightarrow> 'st server" where
  "notify_depart W serialized s =
     (let msg = Tier_Name (kSelfTier (w_env W)) @ '':'' @ public_ip W @ '':'' @ private_ip W;
          s = fold (\<lambda>st. send_string msg (node_depart_connect_address st)) (all_servers s) s;
          msg = ''depart:'' @ msg;
          s = fold (\<lambda>address. send_string msg
                (rt_notify_connect_address \<lparr>rt_ip = address, rt_tid = 0\<rparr>)) (routing_ips W) s;
          s = fold (\<lambda>address. send_string msg
                (mt_notify_connect_address \<lparr>mt_ip = address\<rparr>)) (monitoring_ips W) s
      in broadcast_to_threads W self_depart_connect_address serialized s)"

definition depart_key ::
    "'st worker \<Rightarrow> Key \<Rightarrow> AddressKeysetMap \<times> 'st server \<Rightarrow> (AddressKeysetMap \<times> 'st server) res" where
  "depart_key W key = (\<lambda>(addr_keyset_map, s).
     rbind (lookup_threads W key kAllTiers s)
       (\<lambda>((threads, succeed), s).
          Inr (if succeed then announce key threads addr_keyset_map else addr_keyset_map, s)))"

definition self_depart_handler :: "'st worker \<Rightarrow> string \<Rightarrow> 'st server \<Rightarrow> 'st server res" where
  "self_depart_handler W serialized s =
     (let tier = kSelfTier (w_env W);
          s = set_global_ring tier (hr_remove (GlobalHasher (env_hash (w_env W))) (public_ip W) (private_ip W) 0
                (global_ring tier s)) s;
          s = (if thread_id W = 0 then notify_depart W serialized s else s)
      in rbind (rfold (depart_key W) (map fst (stored_key_map s)) ([], s))
           (\<lambda>(addr_keyset_map, s).
              rbind (send_gossip W addr_keyset_map s)
                (\<lambda>s. Inr (send_string (public_ip W @ ''_'' @ private_ip W @ ''_'' @ Tier_Name tier) serialized s))))"

section \<open>What the membership handlers change\<close>

lemma set_global_ring_simps [simp]:
  "global_ring t (set_global_ring tier ring s) = (if t = tier then ring else global_ring t s)"
  "local_ring t (set_global_ring tier ring s) = local_ring t s"
  "key_replication_map (set_global_ring tier ring s) = key_replication_map s"
  "ring_ctx.more (set_global_ring tier ring s) = ring_ctx.more s"
  "outbox (set_global_ring tier ring s) = outbox s"
  by (simp_all add: set_global_ring_def global_ring_def local_ring_def)

lemma rings_ok_set_global_ring:
  "rings_ok E s \<Longrightarrow> hr_inv (GlobalHasher (env_hash E)) ring \<Longrightarrow> rings_ok E (set_global_ring tier ring s)"
  by (simp add: rings_ok_def)

lemma rings_ok_agree: "rings_agree a b \<Longrightarrow> rings_ok E a \<Longrightarrow> rings_ok E b"
  by (simp add: rings_ok_def rings_agree_def)

definition untouched :: "'st server \<Rightarrow> 'st server \<Rightarrow> bool" where
  "untouched a b \<longleftrightarrow> store b = store a \<and> stored_key_map b = stored_key_map a
     \<and> pending_requests b = pending_requests a \<and> pending_gossip b = pending_gossip a
     \<and> local_changeset b = local_changeset a"

lemma untouched_more: "ring_ctx.more b = ring_ctx.more a \<Longrightarrow> untouched a b"
  using server_more_eq [of b a] by (simp add: untouched_def)

lemma untouched_trans: "untouched a b \<Longrightarrow> untouched b c \<Longrightarrow> untouched a c"
  by (simp add: untouched_def)

text \<open>Sending leaves everything but the outbox alone.\<close>

definition only_sends :: "'a ring_ctx_scheme \<Rightarrow> 'a ring_ctx_scheme \<Rightarrow> bool" where
  "only_sends a b \<longleftrightarrow> same_ctx a b \<and> ring_ctx.more b = ring_ctx.more a \<and> (\<exists>msgs. outbox b = outbox a @ msgs)"

lemma only_sends_refl [simp]: "only_sends s s"
  by (simp add: only_sends_def same_ctx_def)

lemma only_sends_trans: "only_sends a b \<Longrightarrow> only_sends b c \<Longrightarrow> only_sends a c"
  by (auto simp: only_sends_def same_ctx_def)

lemma only_sends_send [simp]: "only_sends s (send_string msg address s)"
  by (simp add: only_sends_def same_ctx_def send_string_def)

lemma outbox_fold_send: "outbox (fold (\<lambda>x. send_string msg (f x)) xs s) = outbox s @ map (\<lambda>x. (f x, msg)) xs"
  by (induction xs arbitrary: s) (simp_all add: send_string_def)

lemma only_sends_fold: "only_sends s (fold (\<lambda>x. send_string msg (f x)) xs s)"
  using fold_send_frame(1) [of msg f xs s] fold_send_frame(2) [of s msg f xs] by (simp add: only_sends_def outbox_fold_send)

lemma only_sends_broadcast: "only_sends s (broadcast_to_threads W address msg s)"
  unfolding broadcast_to_threads_def by (rule only_sends_fold)

lemma only_sends_notify_join: "only_sends s (notify_join W serialized pub priv s)"
  unfolding notify_join_def Let_def
  by (rule only_sends_trans [OF only_sends_send], rule only_sends_trans [OF only_sends_fold],
      rule only_sends_broadcast)

lemma only_sends_notify_depart: "only_sends s (notify_depart W serialized s)"
  unfolding notify_depart_def Let_def
  by (rule only_sends_trans [OF only_sends_fold], rule only_sends_trans [OF only_sends_fold],
      rule only_sends_trans [OF only_sends_fold], rule only_sends_broadcast)

lemma only_sends_agree: "only_sends a b \<Longrightarrow> rings_agree a b"
  by (simp add: only_sends_def same_ctx_agree)

lemma only_sends_untouched: "only_sends a b \<Longrightarrow> untouched a b"
  by (simp add: only_sends_def untouched_more)

section \<open>Keys are redistributed when a node joins\<close>

text \<open>
  A key that the thread gives up because of a new node: it is marked for removal, and every
  responsible thread is to get it in the next rounds of redistribution.
\<close>

definition given_up :: "'st worker \<Rightarrow> 'st server \<Rightarrow> Key \<Rightarrow> ServerThread list \<Rightarrow> bool" where
  "given_up W s key threads \<longleftrightarrow> key \<in> set (join_remove_set s)
     \<and> (\<forall>t \<in> set threads. key \<in> set (om_at [] (join_gossip_map s) (gossip_connect_address t)))"

definition grows :: "'st server \<Rightarrow> 'st server \<Rightarrow> bool" where
  "grows a b \<longleftrightarrow> set (join_remove_set a) \<subseteq> set (join_remove_set b)
     \<and> (\<forall>addr. set (om_at [] (join_gossip_map a) addr) \<subseteq> set (om_at [] (join_gossip_map b) addr))"

lemma grows_trans: "grows a b \<Longrightarrow> grows b c \<Longrightarrow> grows a c"
  by (fastforce simp: grows_def)

lemma given_up_grows: "given_up W a key threads \<Longrightarrow> grows a b \<Longrightarrow> given_up W b key threads"
  by (fastforce simp: given_up_def grows_def)

lemma rebalance_key_Inr:
  assumes "rebalance_key W 0 priv key s = Inr s'"
  shows "rings_agree s s' \<and> untouched s s' \<and> grows s s'
    \<and> (\<forall>threads. srv_lookup W key (kSelfTierIdVector (w_env W)) s = Inr (threads, True) \<longrightarrow>
        st_mem (wt W) threads \<or> given_up W s' key threads)
    \<and> (\<forall>k \<in> set (join_remove_set s') - set (join_remove_set s). k = key \<and>
        (\<exists>threads. srv_lookup W key (kSelfTierIdVector (w_env W)) s = Inr (threads, True) \<and> \<not> st_mem (wt W) threads))"
proof -
  obtain threads succeed s1 where
      look: "lookup_threads W key (kSelfTierIdVector (w_env W)) s = Inr ((threads, succeed), s1)"
    using assms by (auto simp: rebalance_key_def res_simps)
  note L = lookup_threads_Inr [OF look]
  note same = ctx_agree_server [OF L(2)] and agree = ctx_agree_rings [OF L(2)]
  have u1: "untouched s s1"
    using same by (simp add: untouched_def)
  show ?thesis
  proof (cases "succeed \<and> \<not> st_mem (wt W) threads")
    case True
    then have s': "s' = s1\<lparr>join_remove_set := List.insert key (join_remove_set s1),
        join_gossip_map := announce key threads (join_gossip_map s1)\<rparr>"
      using assms look by (simp add: rebalance_key_def)
    have "rings_agree s1 s'"
      by (rule same_ctx_agree) (simp add: s' same_ctx_def)
    with agree have "rings_agree s s'"
      by (rule rings_agree_trans)
    moreover have "untouched s s'"
      using u1 by (simp add: s' untouched_def)
    moreover have "grows s s'"
      using same announce_mono by (auto simp: s' grows_def)
    moreover have "given_up W s' key threads"
      by (simp add: s' given_up_def announce_all)
    ultimately show ?thesis
      using True L(1) same by (auto simp: s')
  next
    case False
    then have "s' = s1"
      using assms look by (auto simp: rebalance_key_def split: if_splits)
    then show ?thesis
      using False agree u1 same L(1) by (auto simp: grows_def)
  qed
qed

lemma rebalance_keys_Inr:
  assumes "rfold (rebalance_key W 0 priv) keys s = Inr s'"
  shows "rings_agree s s' \<and> untouched s s' \<and> grows s s'
    \<and> (\<forall>key \<in> set keys. \<forall>threads. srv_lookup W key (kSelfTierIdVector (w_env W)) s = Inr (threads, True) \<longrightarrow>
        st_mem (wt W) threads \<or> given_up W s' key threads)
    \<and> (\<forall>k \<in> set (join_remove_set s') - set (join_remove_set s). k \<in> set keys \<and>
        (\<exists>threads. srv_lookup W k (kSelfTierIdVector (w_env W)) s = Inr (threads, True) \<and> \<not> st_mem (wt W) threads))"
  using assms
proof (induction keys arbitrary: s)
  case Nil
  then show ?case by (simp add: untouched_def grows_def)
next
  case (Cons key keys)
  then obtain s1 where step: "rebalance_key W 0 priv key s = Inr s1"
      and rest: "rfold (rebalance_key W 0 priv) keys s1 = Inr s'"
    by (auto simp: res_simps)
  note S = rebalance_key_Inr [OF step] and I = Cons.IH [OF rest]
  have look: "srv_lookup W k (kSelfTierIdVector (w_env W)) s1 = srv_lookup W k (kSelfTierIdVector (w_env W)) s" for k
    using S srv_lookup_agree [of s s1 W k "kSelfTierIdVector (w_env W)"] by simp
  have "rings_agree s s'" "untouched s s'" "grows s s'"
    using S I rings_agree_trans untouched_trans grows_trans by blast+
  moreover have "st_mem (wt W) threads \<or> given_up W s' k threads"
    if "k \<in> set (key # keys)" "srv_lookup W k (kSelfTierIdVector (w_env W)) s = Inr (threads, True)" for k threads
    using S I that given_up_grows [of W s1 k threads s'] unfolding look by auto
  moreover have "k \<in> set (key # keys) \<and> (\<exists>threads. srv_lookup W k (kSelfTierIdVector (w_env W)) s = Inr (threads, True)
      \<and> \<not> st_mem (wt W) threads)" if "k \<in> set (join_remove_set s') - set (join_remove_set s)" for k
    using S I that unfolding look by (cases "k \<in> set (join_remove_set s1)") auto
  ultimately show ?case
    by blast
qed

lemma node_join_parsed:
  assumes "split serialized CHR '':'' = [Tier_Name tier, pub, priv, count]" "stoi count = Inr n"
  shows "node_join_handler W serialized s = admit_server W serialized tier pub priv n s"
  using assms by (simp add: node_join_handler_def vec_at_def numeral_3_eq_3 numeral_2_eq_2)

lemma hr_insert_joined:
  assumes "\<not> st_mem (server_thread_v pub priv tid 0) (hr_unique_servers ring)"
  shows "fst (hr_insert hasher pub priv n tid ring)"
  using assms by (simp add: hr_insert_def Let_def)

text \<open>
  C7. When a new server joins a thread's own tier, the ring of the tier takes it in and nothing else
  about the lookups changes. Every stored key of which the thread is no longer one of the
  responsible threads is marked for removal and listed for every thread that now is responsible,
  and no other key is marked. The data stays where it is until it has been handed over.
\<close>

theorem node_join_redistributes:
  assumes "node_join_handler W serialized s = Inr s'"
    and "split serialized CHR '':'' = [Tier_Name (kSelfTier (w_env W)), pub, priv, count]" "stoi count = Inr 0"
    and "\<not> st_mem (server_thread_v pub priv 0 0) (hr_unique_servers (global_ring (kSelfTier (w_env W)) s))"
    and "ring = snd (hr_insert (GlobalHasher (env_hash (w_env W))) pub priv 0 0 (global_ring (kSelfTier (w_env W)) s))"
  shows "rings_agree (set_global_ring (kSelfTier (w_env W)) ring s) s'
    \<and> store s' = store s \<and> stored_key_map s' = stored_key_map s
    \<and> (\<forall>key threads. key \<in> dom (map_of (stored_key_map s))
        \<and> srv_lookup W key (kSelfTierIdVector (w_env W)) s' = Inr (threads, True) \<longrightarrow>
        st_mem (wt W) threads \<or> key \<in> set (join_remove_set s')
          \<and> (\<forall>t \<in> set threads. key \<in> set (om_at [] (join_gossip_map s') (gossip_connect_address t))))
    \<and> (\<forall>key \<in> set (join_remove_set s') - set (join_remove_set s). key \<in> dom (map_of (stored_key_map s))
        \<and> (\<exists>threads. srv_lookup W key (kSelfTierIdVector (w_env W)) s' = Inr (threads, True)
            \<and> \<not> st_mem (wt W) threads))"
proof -
  let ?tier = "kSelfTier (w_env W)" and ?tiers = "kSelfTierIdVector (w_env W)"
  let ?s1 = "set_global_ring ?tier ring s"
  let ?s2 = "if thread_id W = 0 then notify_join W serialized pub priv ?s1 else ?s1"
  have sent: "only_sends ?s1 ?s2"
    by (simp add: only_sends_notify_join)
  obtain joined where "hr_insert (GlobalHasher (env_hash (w_env W))) pub priv 0 0 (global_ring ?tier s) = (joined, ring)"
      "joined"
    using hr_insert_joined [OF assms(4)] assms(5) by (metis prod.collapse)
  then have loop: "rfold (rebalance_key W 0 priv) (map fst (stored_key_map ?s2)) ?s2 = Inr s'"
    using assms(1) unfolding node_join_parsed [OF assms(2,3)] by (simp add: admit_server_def Let_def)
  note I = rebalance_keys_Inr [OF loop]
  have agree: "rings_agree ?s1 s'" "rings_agree ?s2 s'"
    using only_sends_agree [OF sent] I rings_agree_trans by blast+
  have "untouched s ?s1"
    by (rule untouched_more) simp
  then have same: "untouched s s'"
    using only_sends_untouched [OF sent] I untouched_trans by blast
  have remove: "join_remove_set ?s2 = join_remove_set s" "stored_key_map ?s2 = stored_key_map s"
    using sent server_more_eq [of ?s1 s] server_more_eq [of ?s2 ?s1] by (simp_all add: only_sends_def)
  have look: "srv_lookup W key ?tiers ?s2 = srv_lookup W key ?tiers s'" for key
    using srv_lookup_agree [OF agree(2), of W key ?tiers] by simp
  have keys: "set (map fst (stored_key_map ?s2)) = dom (map_of (stored_key_map s))"
    unfolding remove by (simp add: dom_map_of_conv_image_fst)
  have up: "\<forall>key \<in> dom (map_of (stored_key_map s)). \<forall>threads. srv_lookup W key ?tiers s' = Inr (threads, True) \<longrightarrow>
      st_mem (wt W) threads \<or> given_up W s' key threads"
    using I unfolding keys look by blast
  have only: "\<forall>key \<in> set (join_remove_set s') - set (join_remove_set s). key \<in> dom (map_of (stored_key_map s))
      \<and> (\<exists>threads. srv_lookup W key ?tiers s' = Inr (threads, True) \<and> \<not> st_mem (wt W) threads)"
    using I unfolding keys look remove(1) by blast
  show ?thesis
    using agree(1) same up only by (intro conjI) (auto simp: untouched_def given_up_def)
qed

section \<open>A departing node hands its data over\<close>

lemma depart_key_Inr:
  assumes "depart_key W key (m, s) = Inr (m', s')"
  shows "ctx_agree s s' \<and> (om_wf m \<longrightarrow> om_wf m') \<and> (\<forall>a. set (om_at [] m a) \<subseteq> set (om_at [] m' a))
    \<and> (\<forall>threads. srv_lookup W key kAllTiers s = Inr (threads, True) \<longrightarrow>
        (\<forall>t \<in> set threads. key \<in> set (om_at [] m' (gossip_connect_address t))))"
proof -
  obtain threads succeed where look: "lookup_threads W key kAllTiers s = Inr ((threads, succeed), s')"
      and m': "m' = (if succeed then announce key threads m else m)"
    using assms by (auto simp: depart_key_def res_simps)
  show ?thesis
    using lookup_threads_Inr(1,2) [OF look] m' announce_wf announce_mono announce_all by fastforce
qed

lemma depart_keys_Inr:
  assumes "rfold (depart_key W) keys (m, s) = Inr (m', s')" "om_wf m"
  shows "ctx_agree s s' \<and> om_wf m' \<and> (\<forall>a. set (om_at [] m a) \<subseteq> set (om_at [] m' a))
    \<and> (\<forall>key \<in> set keys. \<forall>threads. srv_lookup W key kAllTiers s = Inr (threads, True) \<longrightarrow>
        (\<forall>t \<in> set threads. key \<in> set (om_at [] m' (gossip_connect_address t))))"
  using assms
proof (induction keys arbitrary: m s)
  case Nil
  then show ?case by simp
next
  case (Cons key keys)
  then obtain m1 s1 where step: "depart_key W key (m, s) = Inr (m1, s1)"
      and rest: "rfold (depart_key W) keys (m1, s1) = Inr (m', s')"
    by (auto simp: res_simps)
  note S = depart_key_Inr [OF step]
  then have I: "ctx_agree s1 s' \<and> om_wf m' \<and> (\<forall>a. set (om_at [] m1 a) \<subseteq> set (om_at [] m' a))
      \<and> (\<forall>key \<in> set keys. \<forall>threads. srv_lookup W key kAllTiers s1 = Inr (threads, True) \<longrightarrow>
        (\<forall>t \<in> set threads. key \<in> set (om_at [] m' (gossip_connect_address t))))"
    using Cons.IH [OF rest] Cons.prems(2) by simp
  have look: "srv_lookup W k kAllTiers s1 = srv_lookup W k kAllTiers s" for k
    using S srv_lookup_agree [OF ctx_agree_rings, of s s1 W k kAllTiers] by simp
  have "ctx_agree s s'"
    using S I ctx_agree_trans by blast
  then show ?case
    using S I unfolding look by (auto, (meson subsetD)+)
qed

text \<open>
  C8. A node that is told to depart first leaves the ring of its tier and then hands over all data:
  for every key it stores whose responsible threads are known, each thread that is responsible
  without this node is sent a message with the key's value. The acknowledgement to the monitoring
  node is the last message sent, so it arrives only after the data is on its way.
\<close>

theorem self_depart_hands_over:
  assumes "self_depart_handler W serialized s = Inr s'" "reads_pure W s"
    and "ring = hr_remove (GlobalHasher (env_hash (w_env W))) (public_ip W) (private_ip W) 0
           (global_ring (kSelfTier (w_env W)) s)"
  shows "rings_agree (set_global_ring (kSelfTier (w_env W)) ring s) s'
    \<and> (\<forall>key threads. key \<in> dom (map_of (stored_key_map s)) \<and> srv_lookup W key kAllTiers s' = Inr (threads, True) \<longrightarrow>
        (\<forall>t \<in> set threads. \<exists>tuples. set (gossip_tuples W s key) \<subseteq> set tuples
          \<and> (gossip_connect_address t, ser_KeyRequest (env_codec (w_env W)) (put_request tuples)) \<in> set (outbox s')))
    \<and> last (outbox s') =
        (serialized, public_ip W @ ''_'' @ private_ip W @ ''_'' @ Tier_Name (kSelfTier (w_env W)))"
proof -
  let ?tier = "kSelfTier (w_env W)"
  let ?s1 = "set_global_ring ?tier ring s"
  let ?s2 = "if thread_id W = 0 then notify_depart W serialized ?s1 else ?s1"
  let ?ack = "public_ip W @ ''_'' @ private_ip W @ ''_'' @ Tier_Name ?tier"
  have sent: "only_sends ?s1 ?s2"
    by (simp add: only_sends_notify_depart)
  have run: "self_depart_handler W serialized s = rbind (rfold (depart_key W) (map fst (stored_key_map ?s2)) ([], ?s2))
      (\<lambda>(m, s). rbind (send_gossip W m s) (\<lambda>s. Inr (send_string ?ack serialized s)))"
    unfolding assms(3) by (simp add: self_depart_handler_def Let_def)
  obtain m s3 s4 where loop: "rfold (depart_key W) (map fst (stored_key_map ?s2)) ([], ?s2) = Inr (m, s3)"
      and send: "send_gossip W m s3 = Inr s4" and s': "s' = send_string ?ack serialized s4"
    using assms(1) unfolding run by (auto simp: res_simps)
  have I: "ctx_agree ?s2 s3" "om_wf m"
      "\<forall>key \<in> set (map fst (stored_key_map ?s2)). \<forall>threads. srv_lookup W key kAllTiers ?s2 = Inr (threads, True) \<longrightarrow>
        (\<forall>t \<in> set threads. key \<in> set (om_at [] m (gossip_connect_address t)))"
    using depart_keys_Inr [OF loop] by (simp_all add: om_wf_def)
  have "ring_ctx.more s3 = ring_ctx.more s"
    using I(1) sent by (simp add: ctx_agree_def only_sends_def)
  note same = server_more_eq [OF this]
  have "reads_pure W s3"
    using assms(2) same by (simp add: reads_pure_def)
  then have s4: "s4 = send_requests (w_env W) (gossip_requests W s3 m) s3"
    using send_gossip_spec [OF _ I(2), of W s3] send by simp
  have tuples: "gossip_tuples W s3 = gossip_tuples W s"
    using same by (simp add: gossip_tuples_def fun_eq_iff cong: option.case_cong)
  have keys: "set (map fst (stored_key_map ?s2)) = dom (map_of (stored_key_map s))"
    using sent server_more_eq(6) [of ?s2 ?s1] server_more_eq(6) [of ?s1 s]
    by (simp add: only_sends_def dom_map_of_conv_image_fst)
  have "rings_agree s3 s'"
    using send_requests_frame(1) [of s3 "w_env W" "gossip_requests W s3 m"]
    by (intro same_ctx_agree) (simp add: s' s4 same_ctx_def send_string_def)
  then have agree: "rings_agree ?s2 s'" "rings_agree ?s1 s'"
    using ctx_agree_rings [OF I(1)] only_sends_agree [OF sent] rings_agree_trans by blast+
  have "\<exists>tuples. set (gossip_tuples W s key) \<subseteq> set tuples
      \<and> (gossip_connect_address t, ser_KeyRequest (env_codec (w_env W)) (put_request tuples)) \<in> set (outbox s')"
    if "key \<in> dom (map_of (stored_key_map s))" "srv_lookup W key kAllTiers s' = Inr (threads, True)" "t \<in> set threads"
    for key threads t
  proof -
    have "key \<in> set (om_at [] m (gossip_connect_address t))"
      using I(3) that srv_lookup_agree [OF agree(1), of W key kAllTiers] unfolding keys by auto
    from message_for_listed_key [OF this, of W s3] show ?thesis
      unfolding s' s4 outbox_send outbox_send_requests set_append set_map tuples by blast
  qed
  then show ?thesis
    using agree(2) by (auto simp: s')
qed

lemma alist_by_keys: "distinct (map fst xs) \<Longrightarrow> xs = map (\<lambda>k. (k, the (map_of xs k))) (map fst xs)"
  by (rule nth_equalityI) (simp_all, metis map_of_eq_Some_iff nth_mem option.sel prod.collapse)

lemma nodes_ok_unique:
  assumes "nodes_ok xs" "nodes_ok ys" "set xs = set ys"
  shows "xs = ys"
proof -
  have "map fst xs = map fst ys"
    using assms by (intro sorted_distinct_set_unique) (auto simp: nodes_ok_def)
  moreover have "map_of xs = map_of ys"
    using assms map_of_inject_set by (auto simp: nodes_ok_def)
  ultimately show ?thesis
    using assms alist_by_keys [of xs] alist_by_keys [of ys] by (simp add: nodes_ok_def)
qed


section \<open>Witnesses\<close>

definition sample_holding :: "mem_store server" where
  "sample_holding = (case process_put sample_worker ''k'' LWW (serialize_timestamped wire_codec 5 ''v'') sample_server of
     Inl _ \<Rightarrow> sample_server | Inr s \<Rightarrow> s)"

lemma sample_holding_put:
  "process_put sample_worker ''k'' LWW (serialize_timestamped wire_codec 5 ''v'') sample_server = Inr sample_holding"
  using process_put_total [OF sample_serializers_ok, of LWW "''k''"
      "serialize_timestamped wire_codec 5 ''v''" sample_server]
  by (auto simp: sample_holding_def)

lemma sample_holding_fields:
  "map fst (stored_key_map sample_holding) = [''k'']" "same_ctx sample_server sample_holding"
  "outbox sample_holding = []" "join_remove_set sample_holding = []"
proof -
  obtain n st where e: "sample_holding = sample_server\<lparr>store := st, stored_key_map := om_modify empty_KeyProperty ''k''
      (\<lambda>p. p\<lparr>kp_size := n, kp_type := LWW\<rparr>) (stored_key_map sample_server)\<rparr>"
    using process_put_Inr [OF sample_holding_put] by blast
  show "map fst (stored_key_map sample_holding) = [''k'']" "same_ctx sample_server sample_holding"
      "outbox sample_holding = []" "join_remove_set sample_holding = []"
    by (simp_all add: e sample_server_fields same_ctx_def om_modify_def) (simp add: sample_server_def)
qed

lemma sample_memory: "serializers sample_worker = memory_serializers wire_codec"
  by (simp add: sample_worker_def)

lemma sample_holding_held: "stored_held mem_holds sample_holding"
  using mem_backend.process_put_held [OF sample_memory sample_holding_put]
  by (simp add: stored_held_def sample_server_fields)

lemma sample_holding_pure: "reads_pure sample_worker sample_holding"
  by (rule mem_backend.held_reads_pure [OF sample_memory sample_serializers_ok sample_holding_held])

lemma sample_holding_ok: "cluster_ok (w_env sample_worker) sample_holding"
  using cluster_ok_agree [OF same_ctx_agree [OF sample_holding_fields(2)] sample_cluster_ok] .

text \<open>A join keeps a working cluster working.\<close>

lemma cluster_ok_join:
  assumes "cluster_ok E s"
  shows "cluster_ok E (set_global_ring tier (snd (hr_insert (GlobalHasher (env_hash E)) pub priv n tid (global_ring tier s))) s)"
    (is "cluster_ok E ?s")
proof -
  let ?ring = "snd (hr_insert (GlobalHasher (env_hash E)) pub priv n tid (global_ring tier s))"
  have more: "set (hr_nodes (global_ring tier s)) \<subseteq> set (hr_nodes ?ring)"
  proof (cases "st_mem (server_thread_v pub priv tid 0) (hr_unique_servers (global_ring tier s))")
    case True
    then show ?thesis by (simp add: hr_insert_known)
  next
    case False
    then show ?thesis
      using set_fold_chm_insert(2) [of "hr_nodes (global_ring tier s)"] by (simp add: hr_insert_new)
  qed
  then have card: "card (st_id ` snd ` set (hr_nodes (global_ring tier s))) \<le> card (st_id ` snd ` set (hr_nodes ?ring))"
    by (intro card_mono) auto
  have inv: "hr_inv (GlobalHasher (env_hash E)) (global_ring tier s)"
    using assms by (simp add: cluster_ok_def rings_ok_def)
  have "factors_ok key t ?s" if "factors_ok key t s" for key t
    using that card
    by (auto simp: factors_ok_def global_rep_def local_rep_def replication_of_def)
  moreover have "hr_nodes (global_ring MEMORY ?s) \<noteq> []"
    using assms more by (auto simp: cluster_ok_def)
  moreover have "rings_ok E ?s"
    using assms by (intro rings_ok_set_global_ring hr_inv_insert inv) (simp add: cluster_ok_def)
  ultimately show ?thesis
    using assms by (simp add: cluster_ok_def)
qed

lemma rebalance_key_total:
  assumes "cluster_ok (w_env W) s" "key \<noteq> []"
  shows "\<exists>s'. rebalance_key W n priv key s = Inr s'"
  using lookup_threads_total [OF assms, of "kSelfTierIdVector (w_env W)"] by (auto simp: rebalance_key_def)

theorem node_join_redistributes_witness:
  "\<exists>s'. node_join_handler sample_worker ''MEMORY:7.7.7.7:ccc:0'' sample_holding = Inr s'
    \<and> (\<forall>threads. srv_lookup sample_worker ''k'' (kSelfTierIdVector (w_env sample_worker)) s' = Inr (threads, True) \<longrightarrow>
        st_mem (wt sample_worker) threads \<or> ''k'' \<in> set (join_remove_set s'))"
proof -
  let ?W = sample_worker and ?msg = "''MEMORY:7.7.7.7:ccc:0''"
  have tier: "kSelfTier (w_env ?W) = MEMORY" "Tier_Name MEMORY = ''MEMORY''"
    by (simp_all add: sample_worker_def sample_env_def)
  have parsed: "split ?msg CHR '':'' = [Tier_Name (kSelfTier (w_env ?W)), ''7.7.7.7'', ''ccc'', ''0'']"
    by (simp add: tier split.simps)
  have count: "stoi ''0'' = Inr 0"
    by (simp add: stoi_def is_space_def is_digit_def digits_val_def char_digit_def)
  have ring: "global_ring MEMORY sample_holding = sample_ring"
    using sample_holding_fields(2) sample_ctx_rings(1) rings_agree_simps(3) [OF sample_server_agree, of MEMORY]
    by (simp add: same_ctx_def global_ring_def)
  have new: "\<not> st_mem (server_thread_v ''7.7.7.7'' ''ccc'' 0 0)
      (hr_unique_servers (global_ring (kSelfTier (w_env ?W)) sample_holding))"
    by (simp add: tier ring sample_ring_def st_mem_def st_eq_iff server_thread_v_def)
  let ?ring = "snd (hr_insert (GlobalHasher (env_hash (w_env ?W))) ''7.7.7.7'' ''ccc'' 0 0 (global_ring MEMORY sample_holding))"
  let ?s1 = "set_global_ring MEMORY ?ring sample_holding"
  let ?s2 = "if thread_id ?W = 0 then notify_join ?W ?msg ''7.7.7.7'' ''ccc'' ?s1 else ?s1"
  have sent: "only_sends ?s1 ?s2"
    by (simp add: only_sends_notify_join)
  have "map fst (stored_key_map ?s2) = [''k'']"
    using sent server_more_eq(6) [of ?s1 sample_holding] server_more_eq(6) [of ?s2 ?s1] sample_holding_fields(1)
    by (simp add: only_sends_def)
  moreover obtain s' where "rebalance_key ?W 0 ''ccc'' ''k'' ?s2 = Inr s'"
    using rebalance_key_total [OF cluster_ok_agree [OF only_sends_agree [OF sent] cluster_ok_join [OF sample_holding_ok]]]
    by blast
  moreover have "fst (hr_insert (GlobalHasher (env_hash (w_env ?W))) ''7.7.7.7'' ''ccc'' 0 0
      (global_ring MEMORY sample_holding))"
    using hr_insert_joined [OF new] by (simp add: tier(1))
  ultimately have run: "node_join_handler ?W ?msg sample_holding = Inr s'"
    unfolding node_join_parsed [OF parsed count] by (simp add: admit_server_def Let_def tier split_beta)
  have "''k'' \<in> dom (map_of (stored_key_map sample_holding))"
    using sample_holding_fields(1) by (metis dom_map_of_conv_image_fst image_set list.set_intros(1))
  then show ?thesis
    using node_join_redistributes [OF run parsed count new refl] run by blast
qed



text \<open>The sample node with a replication factor of one, so that the other server can take over.\<close>

definition sample_single :: "mem_store server" where
  "sample_single = sample_holding\<lparr>key_replication_map :=
     [(''k'', \<lparr>global_replication = [(MEMORY, 1)], local_replication = [(MEMORY, 1)]\<rparr>)]\<rparr>"

lemma sample_departed:
  "hr_nodes (hr_remove (GlobalHasher sample_hash) ''5.5.5.5'' ''a'' 0 sample_ring) =
     [(12, server_thread_v ''6.6.6.6'' ''bb'' 0 0)]"
proof -
  have hash: "GlobalHasher sample_hash ` set (virtual_threads ''5.5.5.5'' ''a'' 0) = {11}"
    by (simp add: virtual_threads_def server_thread_v_def sample_hashes kVirtualThreadNum_def image_image
        image_constant_conv)
  show ?thesis
    unfolding hr_remove_def fold_chm_erase_eq hash by (simp add: sample_ring_def)
qed

lemma sample_rings:
  assumes "same_ctx sample_server s"
  shows "global_ring MEMORY s = sample_ring" "local_ring MEMORY s = sample_local_ring"
  using assms sample_ctx_rings rings_agree_simps(3,4) [OF sample_server_agree, of MEMORY]
  by (simp_all add: same_ctx_def global_ring_def local_ring_def)

lemma sample_single_rings:
  "global_ring MEMORY sample_single = sample_ring" "local_ring tier sample_single = local_ring tier sample_server"
  "global_ring tier sample_single = global_ring tier sample_server"
  using sample_rings [OF sample_holding_fields(2)] sample_holding_fields(2)
  by (simp_all add: sample_single_def global_ring_def local_ring_def same_ctx_def)

lemma sample_single_departs_ok:
  "cluster_ok (w_env sample_worker)
     (set_global_ring MEMORY (hr_remove (GlobalHasher sample_hash) ''5.5.5.5'' ''a'' 0 sample_ring) sample_single)"
  (is "cluster_ok ?E ?s")
proof -
  have E: "env_hash ?E = sample_hash"
    by (simp add: sample_worker_def sample_env_def)
  have old: "rings_ok ?E sample_server" "local_ring MEMORY sample_server = sample_local_ring"
      "kDefaultLocalReplication ?E = 1"
    using sample_cluster_ok sample_rings(2) [of sample_server]
    by (simp_all add: cluster_ok_def same_ctx_def sample_worker_def sample_env_def)
  have "rings_ok ?E ?s"
    using old(1) hr_inv_remove [OF sample_ring_inv(1) hasher_ok_global]
    by (simp add: rings_ok_def sample_single_rings E)
  moreover have krm: "key_replication_map sample_single =
      [(''k'', \<lparr>global_replication = [(MEMORY, 1)], local_replication = [(MEMORY, 1)]\<rparr>)]"
    by (simp add: sample_single_def)
  then have "factors_ok ''k'' tier ?s" for tier
    using sample_local_tids sample_departed
    by (cases "tier = MEMORY")
      (simp_all add: factors_ok_def global_rep_def local_rep_def replication_of_def sample_single_rings old(2)
        krm om_at_def)
  moreover have "dom (map_of (key_replication_map ?s)) = {''k''}"
    by (simp add: krm)
  ultimately show ?thesis
    using old sample_local_tids by (simp add: cluster_ok_def sample_departed sample_single_rings)
qed


lemma depart_keys_total:
  assumes "cluster_ok (w_env W) s" "\<forall>key \<in> set keys. key \<noteq> []"
  shows "\<exists>m' s'. rfold (depart_key W) keys (m, s) = Inr (m', s')"
  using assms
proof (induction keys arbitrary: m s)
  case (Cons key keys)
  obtain threads succeed s1 where look: "lookup_threads W key kAllTiers s = Inr ((threads, succeed), s1)"
    using lookup_threads_total [OF Cons.prems(1), of key kAllTiers] Cons.prems(2) by auto
  have "cluster_ok (w_env W) s1"
    using cluster_ok_agree [OF ctx_agree_rings [OF lookup_threads_Inr(2) [OF look]] Cons.prems(1)] .
  then show ?case
    using Cons.IH Cons.prems(2) look by (simp add: depart_key_def)
qed simp

theorem self_depart_hands_over_witness:
  "\<exists>s'. self_depart_handler sample_worker ''tcp://8.8.8.8:6700'' sample_single = Inr s'
    \<and> last (outbox s') = (''tcp://8.8.8.8:6700'', ''5.5.5.5_a_MEMORY'')"
proof -
  let ?W = sample_worker and ?msg = "''tcp://8.8.8.8:6700''"
  have W: "kSelfTier (w_env ?W) = MEMORY" "env_hash (w_env ?W) = sample_hash" "public_ip ?W = ''5.5.5.5''"
      "private_ip ?W = ''a''" "Tier_Name MEMORY = ''MEMORY''"
    by (simp_all add: sample_worker_def sample_env_def)
  let ?ring = "hr_remove (GlobalHasher sample_hash) ''5.5.5.5'' ''a'' 0 sample_ring"
  let ?s1 = "set_global_ring MEMORY ?ring sample_single"
  let ?s2 = "if thread_id ?W = 0 then notify_depart ?W ?msg ?s1 else ?s1"
  have sent: "only_sends ?s1 ?s2"
    by (simp add: only_sends_notify_depart)
  have more: "ring_ctx.more ?s2 = ring_ctx.more sample_holding"
    using sent by (simp add: only_sends_def sample_single_def)
  have keys: "map fst (stored_key_map ?s2) = [''k'']"
    using server_more_eq(6) [OF more] sample_holding_fields(1) by simp
  have ok: "cluster_ok (w_env ?W) ?s2"
    using cluster_ok_agree [OF only_sends_agree [OF sent] sample_single_departs_ok] .
  obtain m s3 where loop: "rfold (depart_key ?W) [''k''] ([], ?s2) = Inr (m, s3)"
    using depart_keys_total [OF ok, of "[''k'']" "[]"] by auto
  then have "ctx_agree ?s2 s3" "om_wf m"
    using depart_keys_Inr [OF loop] by (simp_all add: om_wf_def)
  moreover from this have "ring_ctx.more s3 = ring_ctx.more sample_holding"
    using more by (simp add: ctx_agree_def)
  then have "reads_pure ?W s3"
    using sample_holding_pure server_more_eq [of s3 sample_holding] by (simp add: reads_pure_def)
  ultimately obtain s4 where "send_gossip ?W m s3 = Inr s4"
    using send_gossip_spec by blast
  then have run: "self_depart_handler ?W ?msg sample_single =
      Inr (send_string ''5.5.5.5_a_MEMORY'' ?msg s4)"
    using loop keys by (simp add: self_depart_handler_def Let_def W sample_single_rings(1) cong: if_cong split del: if_split)
  have "reads_pure ?W sample_single"
    using sample_holding_pure by (simp add: reads_pure_def sample_single_def)
  from self_depart_hands_over [OF run this refl] show ?thesis
    using run by (simp add: W)
qed



end
