(* ===== verification/Anna_Caches.thy ===== *)
theory Anna_Caches
  imports Anna_Membership
begin

text \<open>
  The record of which function-node caches hold which keys: reports of the caches
  (\<^verbatim>\<open>src/kvs/cache_ip_response_handler.cpp\<close>) and the list of function nodes from the management node
  (\<^verbatim>\<open>src/kvs/management_node_response_handler.cpp\<close>). A thread keeps one index from caches to keys and
  one from keys to caches.

  The lemmas show that the two indexes stay inverse to each other, that a report is recorded exactly,
  and what happens to caches that disappear.
\<close>

section \<open>The handlers\<close>

definition learn_cached_keys ::
    "Address \<Rightarrow> Key list \<Rightarrow> (Address, Key list) omap \<times> (Key, Address list) omap
      \<Rightarrow> (Address, Key list) omap \<times> (Key, Address list) omap" where
  "learn_cached_keys ip keys = (\<lambda>(ip_to_keys, key_to_ips).
     let deleted_keys = fold removeAll keys (om_at [] ip_to_keys ip);
         key_to_ips = fold (\<lambda>key. om_modify [] key (removeAll ip)) deleted_keys key_to_ips;
         ip_to_keys = AList.update ip [] ip_to_keys
     in (fold (\<lambda>key. om_modify [] ip (List.insert key)) keys ip_to_keys,
         fold (\<lambda>key. om_modify [] key (List.insert ip)) keys key_to_ips))"

definition cache_ip_tuple :: "codec \<Rightarrow> KeyTuple \<Rightarrow> 'st server \<Rightarrow> 'st server" where
  "cache_ip_tuple C tuple s =
     (if kt_error tuple = NO_ERROR
      then let ip = get_key_from_user_metadata (kt_key tuple);
               lww_value = snd (parse_LWWValue C (kt_payload tuple));
               key_set = snd (parse_StringSet C (lwwv_value lww_value));
               (ip_to_keys, key_to_ips) = learn_cached_keys ip (strs_keys key_set)
                 (cache_ip_to_keys s, key_to_cache_ips s)
           in s\<lparr>cache_ip_to_keys := ip_to_keys, key_to_cache_ips := key_to_ips\<rparr>
      else s)"

definition cache_ip_response_handler :: "'st worker \<Rightarrow> string \<Rightarrow> 'st server \<Rightarrow> 'st server" where
  "cache_ip_response_handler W serialized s =
     fold (cache_ip_tuple (env_codec (w_env W)))
       (rs_tuples (snd (parse_KeyResponse (env_codec (w_env W)) serialized))) s"

definition drop_cache ::
    "Address \<Rightarrow> (Address, Key list) omap \<times> (Key, Address list) omap
      \<Rightarrow> (Address, Key list) omap \<times> (Key, Address list) omap" where
  "drop_cache ip = (\<lambda>(ip_to_keys, key_to_ips).
     (AList.delete ip ip_to_keys, map (\<lambda>(key, ips). (key, removeAll ip ips)) key_to_ips))"

definition request_cached_keys ::
    "'st worker \<Rightarrow> Address \<Rightarrow> (Address, KeyRequest) omap \<times> 'st server
      \<Rightarrow> ((Address, KeyRequest) omap \<times> 'st server) res" where
  "request_cached_keys W ip = (\<lambda>(addr_request_map, s).
     let key = get_user_metadata_key ip cache_ip
     in rbind (prepare_metadata_get_request (w_env W) key (global_ring MEMORY s) (local_ring MEMORY s)
            addr_request_map (cache_ip_response_connect_address (wt W)) (rid s)
            (touch_local_ring MEMORY (touch_global_ring MEMORY s)))
          (\<lambda>(addr_request_map, new_rid, s). Inr (addr_request_map, s\<lparr>rid := new_rid\<rparr>)))"

definition management_node_response_handler :: "'st worker \<Rightarrow> string \<Rightarrow> 'st server \<Rightarrow> 'st server res" where
  "management_node_response_handler W serialized s =
     (let func_nodes = strs_keys (snd (parse_StringSet (env_codec (w_env W)) serialized));
          deleted_caches = fold removeAll func_nodes (extant_caches s);
          extant = fold List.insert func_nodes [];
          (ip_to_keys, key_to_ips) = fold drop_cache deleted_caches (cache_ip_to_keys s, key_to_cache_ips s);
          s = s\<lparr>extant_caches := extant, cache_ip_to_keys := ip_to_keys, key_to_cache_ips := key_to_ips\<rparr>
      in rbind (rfold (request_cached_keys W) (extant_caches s) ([], s))
           (\<lambda>(addr_request_map, s). Inr (send_requests (w_env W) addr_request_map s)))"

section \<open>The two indexes are inverse to each other\<close>

definition cache_index :: "(Address, Key list) omap \<times> (Key, Address list) omap \<Rightarrow> bool" where
  "cache_index = (\<lambda>(ip_to_keys, key_to_ips).
     \<forall>ip key. key \<in> set (om_at [] ip_to_keys ip) \<longleftrightarrow> ip \<in> set (om_at [] key_to_ips key))"

lemma set_fold_removeAll: "set (fold removeAll xs ys) = set ys - set xs"
  by (induction xs arbitrary: ys) auto

lemma om_at_fold_erase:
  "set (om_at [] (fold (\<lambda>key. om_modify [] key (removeAll ip)) keys m) k) =
     (if k \<in> set keys then set (om_at [] m k) - {ip} else set (om_at [] m k))"
  by (induction keys arbitrary: m) auto

lemma om_at_fold_add:
  "set (om_at [] (fold (\<lambda>key. om_modify [] key (List.insert ip)) keys m) k) =
     (if k \<in> set keys then insert ip (set (om_at [] m k)) else set (om_at [] m k))"
  by (induction keys arbitrary: m) auto

lemma om_at_fold_collect:
  "set (om_at [] (fold (\<lambda>key. om_modify [] ip (List.insert key)) keys m) a) =
     (if a = ip then set keys \<union> set (om_at [] m a) else set (om_at [] m a))"
  by (induction keys arbitrary: m) auto

lemma learn_cached_keys_sets:
  assumes "learn_cached_keys ip keys (c2k, k2c) = (c2k', k2c')"
  shows "set (om_at [] c2k' a) = (if a = ip then set keys else set (om_at [] c2k a))"
    "set (om_at [] k2c' k) = (if k \<in> set keys then insert ip (set (om_at [] k2c k))
      else if k \<in> set (om_at [] c2k ip) then set (om_at [] k2c k) - {ip} else set (om_at [] k2c k))"
  using assms
  by (auto simp: learn_cached_keys_def Let_def om_at_fold_collect om_at_fold_add om_at_fold_erase set_fold_removeAll)

lemma learn_cached_keys_index:
  assumes "cache_index (c2k, k2c)" "learn_cached_keys ip keys (c2k, k2c) = (c2k', k2c')"
  shows "cache_index (c2k', k2c')"
  using assms(1) by (auto simp: cache_index_def learn_cached_keys_sets [OF assms(2)])

lemma om_at_map_values:
  "om_at [] (map (\<lambda>(key, ips). (key, f ips)) m) k = (if k \<in> dom (map_of m) then f (om_at [] m k) else [])"
  by (induction m) (auto simp: om_at_def)

lemma om_at_delete: "om_at d (AList.delete k m) k' = (if k' = k then d else om_at d m k')"
  by (simp add: om_at_def delete_conv')

lemma drop_cache_sets:
  assumes "drop_cache ip (c2k, k2c) = (c2k', k2c')"
  shows "om_at [] c2k' a = (if a = ip then [] else om_at [] c2k a)"
    "set (om_at [] k2c' k) = set (om_at [] k2c k) - {ip}"
proof -
  show "om_at [] c2k' a = (if a = ip then [] else om_at [] c2k a)"
    using assms by (auto simp: drop_cache_def om_at_delete)
  have "k2c' = map (\<lambda>(key, ips). (key, removeAll ip ips)) k2c"
    using assms by (simp add: drop_cache_def)
  then show "set (om_at [] k2c' k) = set (om_at [] k2c k) - {ip}"
    by (cases "map_of k2c k") (simp_all add: om_at_map_values domIff, simp_all add: om_at_def)
qed

lemma drop_caches_sets:
  assumes "fold drop_cache ips (c2k, k2c) = (c2k', k2c')"
  shows "om_at [] c2k' a = (if a \<in> set ips then [] else om_at [] c2k a)
    \<and> set (om_at [] k2c' k) = set (om_at [] k2c k) - set ips"
  using assms
proof (induction ips arbitrary: c2k k2c)
  case (Cons ip ips)
  obtain c2k1 k2c1 where step: "drop_cache ip (c2k, k2c) = (c2k1, k2c1)"
    by force
  show ?case
    using Cons.IH [of c2k1 k2c1] Cons.prems drop_cache_sets [OF step] step by auto
qed simp

lemma drop_caches_index:
  assumes "cache_index (c2k, k2c)" "fold drop_cache ips (c2k, k2c) = (c2k', k2c')"
  shows "cache_index (c2k', k2c')"
  using assms(1) drop_caches_sets [OF assms(2)] by (auto simp: cache_index_def)

section \<open>What the handlers change\<close>

definition caches_of :: "'st server \<Rightarrow> (Address, Key list) omap \<times> (Key, Address list) omap" where
  "caches_of s = (cache_ip_to_keys s, key_to_cache_ips s)"

lemma cache_ip_tuple_index: "cache_index (caches_of s) \<Longrightarrow> cache_index (caches_of (cache_ip_tuple C tuple s))"
  using learn_cached_keys_index
  by (auto simp: caches_of_def cache_ip_tuple_def Let_def split: prod.splits)

lemma cache_ip_response_index:
  "cache_index (caches_of s) \<Longrightarrow> cache_index (caches_of (cache_ip_response_handler W serialized s))"
proof -
  have "cache_index (caches_of (fold (cache_ip_tuple C) tuples s))" if "cache_index (caches_of s)" for C tuples
    using that by (induction tuples arbitrary: s) (simp_all add: cache_ip_tuple_index)
  then show "cache_index (caches_of s) \<Longrightarrow> cache_index (caches_of (cache_ip_response_handler W serialized s))"
    by (simp add: cache_ip_response_handler_def)
qed

lemma prepare_metadata_request_Inr:
  assumes "prepare_metadata_request E key g l m addr n type ctx = Inr (target, m', n', ctx')"
  shows "\<exists>r. ctx' = ctx\<lparr>rand_state := r\<rparr>"
  using assms
  by (auto simp: prepare_metadata_request_def res_simps Let_def split: if_splits prod.splits option.splits
      intro: exI [of _ "rand_state ctx"])

lemma request_cached_keys_Inr:
  assumes "request_cached_keys W ip (m, s) = Inr (m', s')"
  shows "rings_agree s s' \<and> outbox s' = outbox s \<and> extant_caches s' = extant_caches s \<and> caches_of s' = caches_of s"
proof -
  let ?s = "touch_local_ring MEMORY (touch_global_ring MEMORY s)"
  obtain n r where s': "s' = ?s\<lparr>rand_state := r, rid := n\<rparr>"
    using assms prepare_metadata_request_Inr
    by (fastforce simp: request_cached_keys_def prepare_metadata_get_request_def Let_def res_simps)
  have "ctx_agree s ?s"
    by (intro agree_intros)
  moreover have "rings_agree ?s s'"
    by (rule same_ctx_agree) (simp add: s' same_ctx_def)
  ultimately show ?thesis
    using ctx_agree_server [of s ?s] rings_agree_trans [OF ctx_agree_rings] by (simp add: s' caches_of_def)
qed


lemma request_all_cached_keys_Inr:
  assumes "rfold (request_cached_keys W) ips (m, s) = Inr (m', s')"
  shows "rings_agree s s' \<and> outbox s' = outbox s \<and> extant_caches s' = extant_caches s \<and> caches_of s' = caches_of s"
  using assms
proof (induction ips arbitrary: m s)
  case (Cons ip ips)
  then obtain m1 s1 where "request_cached_keys W ip (m, s) = Inr (m1, s1)"
      "rfold (request_cached_keys W) ips (m1, s1) = Inr (m', s')"
    by (auto simp: res_simps)
  then show ?case
    using Cons.IH [of m1 s1] request_cached_keys_Inr [of W ip m s m1 s1] rings_agree_trans by auto
qed simp

lemma management_response_Inr:
  assumes "management_node_response_handler W serialized s = Inr s'"
    and "nodes = strs_keys (snd (parse_StringSet (env_codec (w_env W)) serialized))"
  shows "rings_agree s s' \<and> set (extant_caches s') = set nodes
    \<and> (\<exists>ips. set ips = set (extant_caches s) - set nodes \<and> caches_of s' = fold drop_cache ips (caches_of s))"
proof -
  let ?ips = "fold removeAll nodes (extant_caches s)"
  obtain c2k k2c where drop: "fold drop_cache ?ips (cache_ip_to_keys s, key_to_cache_ips s) = (c2k, k2c)"
    by force
  let ?s = "s\<lparr>extant_caches := fold List.insert nodes [], cache_ip_to_keys := c2k, key_to_cache_ips := k2c\<rparr>"
  obtain m s1 where loop: "rfold (request_cached_keys W) (extant_caches ?s) ([], ?s) = Inr (m, s1)"
      and s': "s' = send_requests (w_env W) m s1"
    using assms(1) drop unfolding assms(2) by (auto simp: management_node_response_handler_def Let_def res_simps)
  note R = request_all_cached_keys_Inr [OF loop]
  have sent: "caches_of s' = caches_of s1" "extant_caches s' = extant_caches s1" "rings_agree s1 s'"
    using same_ctx_agree [OF send_requests_frame(1)] by (simp_all add: s' caches_of_def send_requests_server)
  have "rings_agree s ?s"
    by (rule same_ctx_agree) (simp add: same_ctx_def)
  then have "rings_agree s s'"
    using R sent(3) rings_agree_trans by blast
  then show ?thesis
    using R sent drop
    by (auto simp: set_fold_insert set_fold_removeAll caches_of_def intro!: exI [of _ ?ips])
qed

text \<open>
  C11. The two indexes that record which cache holds which key stay inverse to each other, whatever
  lists of keys the caches report and whatever nodes the management node lists. After the latter,
  exactly the listed nodes are known as caches, a node that disappeared is not recorded for any key,
  and the record of every other node is unchanged.
\<close>

theorem cache_index_invariant:
  assumes "cache_index (cache_ip_to_keys s, key_to_cache_ips s)"
  shows "cache_index (cache_ip_to_keys (cache_ip_response_handler W serialized s),
      key_to_cache_ips (cache_ip_response_handler W serialized s))
    \<and> (\<forall>s' nodes. management_node_response_handler W serialized s = Inr s'
        \<and> nodes = strs_keys (snd (parse_StringSet (env_codec (w_env W)) serialized)) \<longrightarrow>
      cache_index (cache_ip_to_keys s', key_to_cache_ips s') \<and> set (extant_caches s') = set nodes
      \<and> (\<forall>ip. om_at [] (cache_ip_to_keys s') ip =
          (if ip \<in> set (extant_caches s) - set nodes then [] else om_at [] (cache_ip_to_keys s) ip)))"
proof -
  have "cache_index (caches_of s') \<and> set (extant_caches s') = set nodes
      \<and> (\<forall>ip. om_at [] (cache_ip_to_keys s') ip =
          (if ip \<in> set (extant_caches s) - set nodes then [] else om_at [] (cache_ip_to_keys s) ip))"
    if run: "management_node_response_handler W serialized s = Inr s'"
      and nodes: "nodes = strs_keys (snd (parse_StringSet (env_codec (w_env W)) serialized))" for s' nodes
  proof -
    obtain ips where ips: "set ips = set (extant_caches s) - set nodes"
        "fold drop_cache ips (cache_ip_to_keys s, key_to_cache_ips s) = (cache_ip_to_keys s', key_to_cache_ips s')"
      using management_response_Inr [OF run nodes] by (auto simp: caches_of_def)
    show ?thesis
      using management_response_Inr [OF run nodes] drop_caches_index [OF assms ips(2)] drop_caches_sets [OF ips(2)] ips(1)
      by (simp add: caches_of_def)
  qed
  then show ?thesis
    using cache_ip_response_index [of s] assms by (simp add: caches_of_def)
qed

theorem cache_index_invariant_witness:
  "cache_index (cache_ip_to_keys (cache_ip_response_handler sample_worker ''report'' sample_server),
      key_to_cache_ips (cache_ip_response_handler sample_worker ''report'' sample_server))"
  using cache_index_invariant [of sample_server sample_worker "''report''"]
  by (simp add: sample_server_def cache_index_def)

text \<open>
  A node that is recorded in the index but no longer counts as a cache, because its report arrived
  after the management node had dropped it, stays recorded whatever the management node answers.
\<close>

lemma stale_cache_kept:
  assumes "management_node_response_handler W serialized s = Inr s'" "ip \<notin> set (extant_caches s)"
  shows "om_at [] (cache_ip_to_keys s') ip = om_at [] (cache_ip_to_keys s) ip"
proof -
  obtain ips where ips: "set ips = set (extant_caches s) -
        set (strs_keys (snd (parse_StringSet (env_codec (w_env W)) serialized)))"
      "fold drop_cache ips (cache_ip_to_keys s, key_to_cache_ips s) = (cache_ip_to_keys s', key_to_cache_ips s')"
    using management_response_Inr [OF assms(1) refl] by (auto simp: caches_of_def)
  then show ?thesis
    using drop_caches_sets [OF ips(2)] assms(2) by simp
qed

text \<open>
  A cache that reports its keys is recorded with exactly these: afterwards a key lists the cache
  if and only if the report contains it, and what is recorded for other caches is unchanged.
\<close>

theorem cache_report_learned:
  assumes "cache_index (cache_ip_to_keys s, key_to_cache_ips s)"
    and "rs_tuples (snd (parse_KeyResponse (env_codec (w_env W)) serialized)) = [tuple]" "kt_error tuple = NO_ERROR"
    and "kt_key tuple = get_user_metadata_key ip cache_ip"
    and "keys = strs_keys (snd (parse_StringSet (env_codec (w_env W))
           (lwwv_value (snd (parse_LWWValue (env_codec (w_env W)) (kt_payload tuple))))))"
    and "s' = cache_ip_response_handler W serialized s"
  shows "(\<forall>key. ip \<in> set (om_at [] (key_to_cache_ips s') key) \<longleftrightarrow> key \<in> set keys)
    \<and> set (om_at [] (cache_ip_to_keys s') ip) = set keys
    \<and> (\<forall>other key. other \<noteq> ip \<longrightarrow>
        (other \<in> set (om_at [] (key_to_cache_ips s') key) \<longleftrightarrow> other \<in> set (om_at [] (key_to_cache_ips s) key)))"
proof -
  obtain c2k k2c where learn: "learn_cached_keys ip keys (cache_ip_to_keys s, key_to_cache_ips s) = (c2k, k2c)"
    by force
  have s': "s' = s\<lparr>cache_ip_to_keys := c2k, key_to_cache_ips := k2c\<rparr>"
    using assms(2-6) learn
    by (simp add: cache_ip_response_handler_def cache_ip_tuple_def get_key_from_user_metadata_key Let_def)
  show ?thesis
    using assms(1) learn_cached_keys_sets [OF learn] by (auto simp: s' cache_index_def)
qed


theorem cache_report_learned_witness:
  "let report = \<lparr>strs_keys = [''k'']\<rparr>;
       tuple = empty_KeyTuple\<lparr>kt_key := get_user_metadata_key ''4.4.4.4'' cache_ip,
         kt_payload := ser_LWWValue wire_codec \<lparr>lwwv_timestamp = 1, lwwv_value = ser_StringSet wire_codec report\<rparr>\<rparr>;
       msg = ser_KeyResponse wire_codec (empty_KeyResponse\<lparr>rs_tuples := [tuple]\<rparr>);
       s' = cache_ip_response_handler sample_worker msg sample_server
   in ''4.4.4.4'' \<in> set (om_at [] (key_to_cache_ips s') ''k'')"
proof -
  let ?report = "\<lparr>strs_keys = [''k'']\<rparr>"
  let ?tuple = "empty_KeyTuple\<lparr>kt_key := get_user_metadata_key ''4.4.4.4'' cache_ip,
      kt_payload := ser_LWWValue wire_codec \<lparr>lwwv_timestamp = 1, lwwv_value = ser_StringSet wire_codec ?report\<rparr>\<rparr>"
  let ?msg = "ser_KeyResponse wire_codec (empty_KeyResponse\<lparr>rs_tuples := [?tuple]\<rparr>)"
  let ?s' = "cache_ip_response_handler sample_worker ?msg sample_server"
  have "cache_index (cache_ip_to_keys sample_server, key_to_cache_ips sample_server)"
    by (simp add: sample_server_def cache_index_def)
  moreover have "rs_tuples (snd (parse_KeyResponse (env_codec (w_env sample_worker)) ?msg)) = [?tuple]"
    by (simp add: sample_worker_codec)
  moreover have "kt_error ?tuple = NO_ERROR" "kt_key ?tuple = get_user_metadata_key ''4.4.4.4'' cache_ip"
    by (simp_all add: empty_KeyTuple_def)
  moreover have "[''k''] = strs_keys (snd (parse_StringSet (env_codec (w_env sample_worker))
      (lwwv_value (snd (parse_LWWValue (env_codec (w_env sample_worker)) (kt_payload ?tuple))))))"
    by (simp add: sample_worker_codec)
  ultimately have "\<forall>key. ''4.4.4.4'' \<in> set (om_at [] (key_to_cache_ips ?s') key) \<longleftrightarrow> key \<in> set [''k'']"
    using cache_report_learned [of sample_server sample_worker ?msg ?tuple "''4.4.4.4''" "[''k'']" ?s'] by blast
  then show ?thesis
    by (simp add: Let_def)
qed

end
