(* ===== verification/Anna_Disk.thy ===== *)
theory Anna_Disk
  imports Anna_KVStore
begin

text \<open>
  The disk storage of a server thread: the six disk serializers of \<^verbatim>\<open>include/kvs/server_utils.hpp\<close>,
  which keep every value in a file of its own. The files are a map from names to contents. What the
  operating system decides is in the record \<open>disk_env\<close>: which files can be created, and what
  \<^verbatim>\<open>tellp\<close> of an input stream returns after a message was parsed from it. An existing file can
  always be read and written.

  The six classes repeat the same \<^verbatim>\<open>get\<close> and, but for priorities, the same \<^verbatim>\<open>put\<close>; \<open>disk_get\<close> and
  \<open>disk_put\<close> are that code, with the message type and the merge as arguments.

  The lemmas show that a disk on which files can be created is a storage backend in the sense of the
  server, that for last-writer-wins values it cannot be told apart from the memory store, and that
  first writes of priority values are lost.
\<close>

section \<open>Files\<close>

type_synonym disk = "(string, string) omap"

record disk_env =
  de_codec :: codec
  de_ebs_root :: string
  de_tid :: u32
  de_creatable :: "string \<Rightarrow> bool"
  de_read_tellp :: "string \<Rightarrow> u32"

definition disk_root :: "string \<Rightarrow> string res" where
  "disk_root ebs =
     (if ebs = [] then Inl OutOfRange
      else Inr (if last ebs \<noteq> CHR ''/'' then ebs @ ''/'' else ebs))"

definition fname :: "disk_env \<Rightarrow> Key \<Rightarrow> string" where
  "fname D key = de_ebs_root D @ ''ebs_'' @ to_string (de_tid D) @ ''/'' @ key"

text \<open>
  Opening for reading needs the file. Opening for writing truncates or creates the file. When it
  cannot be created nothing is written and \<^verbatim>\<open>tellp\<close> is \<open>-1\<close>, which the return type turns into the
  largest unsigned number.
\<close>

definition write_file :: "disk_env \<Rightarrow> string \<Rightarrow> string \<Rightarrow> disk \<Rightarrow> u32 \<times> disk" where
  "write_file D name bytes fs =
     (if name \<in> dom (map_of fs) \<or> de_creatable D name
      then (of_nat (length bytes), AList.update name bytes fs)
      else (- 1, fs))"

definition remove_file :: "disk_env \<Rightarrow> disk \<Rightarrow> Key \<Rightarrow> disk" where
  "remove_file D fs key = AList.delete (fname D key) fs"

section \<open>Serializers\<close>

definition disk_get ::
    "disk_env \<Rightarrow> (string \<Rightarrow> bool \<times> 'm) \<Rightarrow> ('m \<Rightarrow> string) \<Rightarrow> ('m \<Rightarrow> bool)
      \<Rightarrow> disk \<Rightarrow> Key \<Rightarrow> AnnaError \<Rightarrow> string \<times> AnnaError \<times> disk" where
  "disk_get D parse ser blank fs key error =
     (case map_of fs (fname D key) of
        None \<Rightarrow> ([], KEY_DNE, fs)
      | Some bytes \<Rightarrow>
          let (parsed, val) = parse bytes
          in if \<not> parsed then ([], KEY_DNE, fs)
             else if blank val then ([], KEY_DNE, fs)
             else (ser val, error, fs))"

definition disk_put ::
    "disk_env \<Rightarrow> (string \<Rightarrow> bool \<times> 'm) \<Rightarrow> ('m \<Rightarrow> string) \<Rightarrow> ('m \<Rightarrow> 'm \<Rightarrow> 'm option)
      \<Rightarrow> disk \<Rightarrow> Key \<Rightarrow> string \<Rightarrow> u32 \<times> disk" where
  "disk_put D parse ser combine fs key serialized =
     (let input_value = snd (parse serialized); name = fname D key
      in case map_of fs name of
           None \<Rightarrow> write_file D name (ser input_value) fs
         | Some bytes \<Rightarrow>
             let (parsed, original_value) = parse bytes
             in if \<not> parsed then (0, fs)
                else case combine original_value input_value of
                       None \<Rightarrow> (de_read_tellp D bytes, fs)
                     | Some new_value \<Rightarrow> write_file D name (ser new_value) fs)"

definition lww_combine :: "LWWValue \<Rightarrow> LWWValue \<Rightarrow> LWWValue option" where
  "lww_combine original_value input_value =
     (if lwwv_timestamp input_value \<ge> lwwv_timestamp original_value then Some input_value else None)"

definition DiskLWWSerializer :: "disk_env \<Rightarrow> disk serializer" where
  "DiskLWWSerializer D = (let C = de_codec D in \<lparr>
     sz_get = disk_get D (parse_LWWValue C) (ser_LWWValue C) (\<lambda>v. lwwv_value v = []),
     sz_put = disk_put D (parse_LWWValue C) (ser_LWWValue C) lww_combine,
     sz_remove = remove_file D\<rparr>)"

definition set_combine :: "SetValue \<Rightarrow> SetValue \<Rightarrow> SetValue option" where
  "set_combine original_value input_value =
     (let set_union = fold List.insert (setv_values original_value) [];
          set_union = fold List.insert (setv_values input_value) set_union
      in Some \<lparr>setv_values = set_union\<rparr>)"

definition DiskSetSerializer :: "disk_env \<Rightarrow> disk serializer" where
  "DiskSetSerializer D = (let C = de_codec D in \<lparr>
     sz_get = disk_get D (parse_SetValue C) (ser_SetValue C) (\<lambda>v. setv_values v = []),
     sz_put = disk_put D (parse_SetValue C) (ser_SetValue C) set_combine,
     sz_remove = remove_file D\<rparr>)"

definition ordered_set_combine :: "SetValue \<Rightarrow> SetValue \<Rightarrow> SetValue option" where
  "ordered_set_combine original_value input_value =
     (let set_union = fold insort_insert (setv_values original_value) [];
          set_union = fold insort_insert (setv_values input_value) set_union
      in Some \<lparr>setv_values = set_union\<rparr>)"

definition DiskOrderedSetSerializer :: "disk_env \<Rightarrow> disk serializer" where
  "DiskOrderedSetSerializer D = (let C = de_codec D in \<lparr>
     sz_get = disk_get D (parse_SetValue C) (ser_SetValue C) (\<lambda>_. False),
     sz_put = disk_put D (parse_SetValue C) (ser_SetValue C) ordered_set_combine,
     sz_remove = remove_file D\<rparr>)"

definition sk_combine :: "SingleKeyCausalValue \<Rightarrow> SingleKeyCausalValue \<Rightarrow> SingleKeyCausalValue option" where
  "sk_combine original_value input_value =
     (let orig_pair = \<lparr>vcp_vector_clock = to_vector_clock (skcv_vector_clock original_value),
            vcp_value = foldl set_insert [] (skcv_values original_value)\<rparr>;
          input_pair = \<lparr>vcp_vector_clock = to_vector_clock (skcv_vector_clock input_value),
            vcp_value = foldl set_insert [] (skcv_values input_value)\<rparr>;
          orig = sk_do_merge set_do_merge orig_pair input_pair
      in Some \<lparr>skcv_vector_clock = proto_map (vcp_vector_clock orig), skcv_values = vcp_value orig\<rparr>)"

definition DiskSingleKeyCausalSerializer :: "disk_env \<Rightarrow> disk serializer" where
  "DiskSingleKeyCausalSerializer D = (let C = de_codec D in \<lparr>
     sz_get = disk_get D (parse_SingleKeyCausalValue C) (ser_SingleKeyCausalValue C) (\<lambda>v. skcv_values v = []),
     sz_put = disk_put D (parse_SingleKeyCausalValue C) (ser_SingleKeyCausalValue C) sk_combine,
     sz_remove = remove_file D\<rparr>)"

definition mk_combine :: "MultiKeyCausalValue \<Rightarrow> MultiKeyCausalValue \<Rightarrow> MultiKeyCausalValue option" where
  "mk_combine original_value input_value =
     (let payload = (\<lambda>v. \<lparr>mkp_vector_clock = to_vector_clock (mkcv_vector_clock v),
            mkp_dependencies =
              fold (\<lambda>dep. map_insert vc_merge (kv_key dep) (to_vector_clock (kv_vector_clock dep)))
                (mkcv_dependencies v) [],
            mkp_value = foldl set_insert [] (mkcv_values v)\<rparr>);
          orig = mk_do_merge set_do_merge (payload original_value) (payload input_value)
      in Some \<lparr>mkcv_vector_clock = proto_map (mkp_vector_clock orig),
           mkcv_dependencies =
             map (\<lambda>(k, vc). \<lparr>kv_key = k, kv_vector_clock = proto_map vc\<rparr>) (mkp_dependencies orig),
           mkcv_values = mkp_value orig\<rparr>)"

definition DiskMultiKeyCausalSerializer :: "disk_env \<Rightarrow> disk serializer" where
  "DiskMultiKeyCausalSerializer D = (let C = de_codec D in \<lparr>
     sz_get = disk_get D (parse_MultiKeyCausalValue C) (ser_MultiKeyCausalValue C) (\<lambda>v. mkcv_values v = []),
     sz_put = disk_put D (parse_MultiKeyCausalValue C) (ser_MultiKeyCausalValue C) mk_combine,
     sz_remove = remove_file D\<rparr>)"

text \<open>
  The priority serializer creates an empty file before it reads, so a new key is compared with the
  message that the empty file decodes to.
\<close>

definition priority_disk_put :: "disk_env \<Rightarrow> disk \<Rightarrow> Key \<Rightarrow> string \<Rightarrow> u32 \<times> disk" where
  "priority_disk_put D fs key serialized =
     (let C = de_codec D; input_value = snd (parse_PriorityValue C serialized); name = fname D key
      in if name \<notin> dom (map_of fs) \<and> \<not> de_creatable D name then (0, fs)
         else
           let fs = om_touch [] name fs; bytes = om_at [] fs name;
               (parsed, original_value) = parse_PriorityValue C bytes
           in if \<not> parsed \<or> priov_priority input_value < priov_priority original_value
              then write_file D name (ser_PriorityValue C input_value) fs
              else (of_nat (length bytes), fs))"

definition DiskPrioritySerializer :: "disk_env \<Rightarrow> disk serializer" where
  "DiskPrioritySerializer D = (let C = de_codec D in \<lparr>
     sz_get = disk_get D (parse_PriorityValue C) (ser_PriorityValue C) (\<lambda>v. priov_value v = []),
     sz_put = priority_disk_put D,
     sz_remove = remove_file D\<rparr>)"

definition disk_serializers :: "disk_env \<Rightarrow> disk SerializerMap" where
  "disk_serializers D type = (case type of
     LWW \<Rightarrow> Some (DiskLWWSerializer D)
   | SET \<Rightarrow> Some (DiskSetSerializer D)
   | ORDERED_SET \<Rightarrow> Some (DiskOrderedSetSerializer D)
   | SINGLE_CAUSAL \<Rightarrow> Some (DiskSingleKeyCausalSerializer D)
   | MULTI_CAUSAL \<Rightarrow> Some (DiskMultiKeyCausalSerializer D)
   | PRIORITY \<Rightarrow> Some (DiskPrioritySerializer D)
   | NONE \<Rightarrow> None)"

section \<open>What a disk serializer does to the files\<close>

lemma fname_inj [simp]: "fname D k = fname D k' \<longleftrightarrow> k = k'"
  by (simp add: fname_def)

lemma disk_get_unchanged [simp]: "snd (snd (disk_get D parse ser blank fs key e)) = fs"
  by (auto simp: disk_get_def split_beta Let_def split: option.split)

lemma map_of_write_file:
  "de_creatable D name \<Longrightarrow> map_of (snd (write_file D name bytes fs)) = (map_of fs)(name \<mapsto> bytes)"
  by (simp add: write_file_def update_conv')

lemma map_of_remove_file: "map_of (remove_file D fs key) = (map_of fs)(fname D key := None)"
  by (simp add: remove_file_def)

text \<open>The bytes that the file of a key holds after a write.\<close>

definition bytes_after ::
    "(string \<Rightarrow> bool \<times> 'm) \<Rightarrow> ('m \<Rightarrow> string) \<Rightarrow> ('m \<Rightarrow> 'm \<Rightarrow> 'm option) \<Rightarrow> string \<Rightarrow> string option \<Rightarrow> string" where
  "bytes_after parse ser combine serialized old =
     (case old of
        None \<Rightarrow> ser (snd (parse serialized))
      | Some bytes \<Rightarrow>
          (if \<not> fst (parse bytes) then bytes
           else case combine (snd (parse bytes)) (snd (parse serialized)) of
                  None \<Rightarrow> bytes | Some v \<Rightarrow> ser v))"

lemma map_of_disk_put:
  assumes "de_creatable D (fname D key)"
  shows "map_of (snd (disk_put D parse ser combine fs key serialized)) =
    (map_of fs)(fname D key \<mapsto> bytes_after parse ser combine serialized (map_of fs (fname D key)))"
  using assms
  by (auto simp: disk_put_def bytes_after_def Let_def split_beta map_of_write_file fun_upd_idem_iff
      split: option.split)

lemma map_of_touch_upd: "map_of (om_touch d k m) = (map_of m)(k \<mapsto> om_at d m k)"
  by (rule ext) (auto simp: map_of_touch)

lemma map_of_priority_put:
  assumes "de_creatable D (fname D key)"
  shows "map_of (snd (priority_disk_put D fs key serialized)) =
    (map_of fs)(fname D key \<mapsto>
      (let old = parse_PriorityValue (de_codec D) (om_at [] fs (fname D key));
           new = snd (parse_PriorityValue (de_codec D) serialized)
       in if \<not> fst old \<or> priov_priority new < priov_priority (snd old) then ser_PriorityValue (de_codec D) new
          else om_at [] fs (fname D key)))"
  using assms by (simp add: priority_disk_put_def Let_def split_beta map_of_write_file map_of_touch_upd)

lemmas disk_serializer_defs = disk_serializers_def DiskLWWSerializer_def DiskSetSerializer_def
  DiskOrderedSetSerializer_def DiskSingleKeyCausalSerializer_def DiskMultiKeyCausalSerializer_def
  DiskPrioritySerializer_def

definition disk_holds :: "disk_env \<Rightarrow> LatticeType \<Rightarrow> disk \<Rightarrow> Key \<Rightarrow> bool" where
  "disk_holds D type fs key \<longleftrightarrow> fname D key \<in> dom (map_of fs)"

lemma disk_put_files:
  assumes "disk_serializers D t = Some sz" "de_creatable D (fname D k)"
  shows "\<exists>bytes. map_of (snd (sz_put sz fs k x)) = (map_of fs)(fname D k \<mapsto> bytes)"
  using assms
  by (cases t) (auto simp: disk_serializer_defs Let_def map_of_disk_put map_of_priority_put)

lemma disk_get_files: "disk_serializers D t = Some sz \<Longrightarrow> snd (snd (sz_get sz fs k e)) = fs"
  by (cases t) (auto simp: disk_serializer_defs Let_def)

lemma disk_remove_files: "disk_serializers D t = Some sz \<Longrightarrow> sz_remove sz = remove_file D"
  by (cases t) (auto simp: disk_serializer_defs Let_def)

text \<open>A disk on which every file can be created is a storage backend of the server.\<close>

abbreviation open_disk :: "disk_env \<Rightarrow> disk_env" where
  "open_disk D \<equiv> D\<lparr>de_creatable := \<lambda>_. True\<rparr>"

interpretation disk_backend: kv_backend "disk_serializers (open_disk D)" "disk_holds (open_disk D)" for D
proof (unfold_locales, goal_cases)
  case (3 t sz st k x)
  then show ?case
    using disk_put_files [of "open_disk D" t sz k st x] by (auto simp: disk_holds_def)
next
  case (4 t sz t' st k' k x)
  then show ?case
    using disk_put_files [of "open_disk D" t sz k st x] by (auto simp: disk_holds_def)
qed (auto simp: disk_holds_def disk_get_files disk_remove_files map_of_remove_file)

section \<open>Stores that cannot be told apart\<close>

datatype store_op = OpGet Key | OpPut Key string | OpRemove Key

fun run_op :: "'st serializer \<Rightarrow> store_op \<Rightarrow> 'st \<Rightarrow> (string \<times> AnnaError) list \<times> 'st" where
  "run_op sz (OpGet k) s = (let (r, e, s) = sz_get sz s k NO_ERROR in ([(r, e)], s))"
| "run_op sz (OpPut k p) s = ([], snd (sz_put sz s k p))"
| "run_op sz (OpRemove k) s = ([], sz_remove sz s k)"

primrec run_ops :: "'st serializer \<Rightarrow> store_op list \<Rightarrow> 'st \<Rightarrow> (string \<times> AnnaError) list" where
  "run_ops sz [] s = []"
| "run_ops sz (op # ops) s = (let (rs, s) = run_op sz op s in rs @ run_ops sz ops s)"

text \<open>
  One store refines another when related states answer reads alike and stay related under every
  operation.
\<close>

locale store_refinement =
  fixes spec :: "'a serializer" and impl :: "'b serializer"
    and rel :: "'a \<Rightarrow> 'b \<Rightarrow> bool"
    and same :: "string \<times> AnnaError \<Rightarrow> string \<times> AnnaError \<Rightarrow> bool"
  assumes rel_put: "rel s t \<Longrightarrow> rel (snd (sz_put spec s k p)) (snd (sz_put impl t k p))"
    and rel_get: "rel s t \<Longrightarrow> rel (snd (snd (sz_get spec s k e))) (snd (snd (sz_get impl t k e)))"
    and same_get: "rel s t \<Longrightarrow> same (reply (sz_get spec s k NO_ERROR)) (reply (sz_get impl t k NO_ERROR))"
    and rel_remove: "rel s t \<Longrightarrow> rel (sz_remove spec s k) (sz_remove impl t k)"
begin

lemma refines: "rel s t \<Longrightarrow> list_all2 same (run_ops spec ops s) (run_ops impl ops t)"
proof (induction ops arbitrary: s t)
  case (Cons op ops)
  show ?case
  proof (cases op)
    case (OpGet k)
    then show ?thesis
      using Cons.IH [OF rel_get [OF Cons.prems, of k NO_ERROR]] same_get [OF Cons.prems, of k]
      by (simp add: split_beta reply_def)
  qed (use Cons.IH [OF rel_put [OF Cons.prems]] Cons.IH [OF rel_remove [OF Cons.prems]] in auto)
qed simp

end

text \<open>A failed read returns the encoded default from memory and an empty string from disk.\<close>

definition same_reply :: "string \<times> AnnaError \<Rightarrow> string \<times> AnnaError \<Rightarrow> bool" where
  "same_reply r r' \<longleftrightarrow> snd r = snd r' \<and> (snd r = NO_ERROR \<longrightarrow> fst r = fst r')"

definition lww_refines :: "disk_env \<Rightarrow> MemoryLWWKVS \<Rightarrow> disk \<Rightarrow> bool" where
  "lww_refines D kvs fs \<longleftrightarrow>
     (\<forall>m. parse_LWWValue (de_codec D) (ser_LWWValue (de_codec D) m) = (True, m))
     \<and> (\<forall>k. de_creatable D (fname D k))
     \<and> (\<forall>k. case map_of fs (fname D k) of
          None \<Rightarrow> om_at lww_bot kvs k = lww_bot
        | Some b \<Rightarrow> b = serialize_lww (de_codec D) (om_at lww_bot kvs k))"

lemma LWWValue_eta: "\<lparr>lwwv_timestamp = lwwv_timestamp v, lwwv_value = lwwv_value v\<rparr> = v"
  by (cases v) simp

interpretation lww_disk: store_refinement "MemoryLWWSerializer (de_codec D)" "DiskLWWSerializer D"
  "lww_refines D" same_reply for D
proof (unfold_locales, goal_cases)
  case (1 s t k p)
  let ?C = "de_codec D"
  have P: "parse_LWWValue ?C (ser_LWWValue ?C m) = (True, m)" for m
    using 1 by (simp add: lww_refines_def)
  have cr: "de_creatable D (fname D k)"
    using 1 by (simp add: lww_refines_def)
  have "case map_of t (fname D k) of None \<Rightarrow> om_at lww_bot s k = lww_bot
      | Some b \<Rightarrow> b = serialize_lww ?C (om_at lww_bot s k)"
    using 1 by (simp add: lww_refines_def)
  then have "bytes_after (parse_LWWValue ?C) (ser_LWWValue ?C) lww_combine p (map_of t (fname D k)) =
      serialize_lww ?C (lww_do_merge (om_at lww_bot s k) (deserialize_lww ?C p))"
    by (cases "map_of t (fname D k)")
      (auto simp: bytes_after_def P lww_combine_def serialize_lww_def lww_do_merge_def lww_bot_def deserialize_lww_def
        Let_def LWWValue_eta)
  then show ?case
    using 1
    by (auto simp: lww_refines_def DiskLWWSerializer_def MemoryLWWSerializer_def sz_simps map_of_disk_put [OF cr]
        cong: option.case_cong)
next
  case (2 s t k e)
  then show ?case
    by (simp add: lww_refines_def DiskLWWSerializer_def MemoryLWWSerializer_def sz_simps cong: option.case_cong)
next
  case (3 s t k)
  let ?C = "de_codec D"
  have P: "parse_LWWValue ?C (ser_LWWValue ?C m) = (True, m)" for m
    using 3 by (simp add: lww_refines_def)
  have "case map_of t (fname D k) of None \<Rightarrow> om_at lww_bot s k = lww_bot
      | Some b \<Rightarrow> b = serialize_lww ?C (om_at lww_bot s k)"
    using 3 by (simp add: lww_refines_def)
  then show ?case
    by (auto simp: DiskLWWSerializer_def MemoryLWWSerializer_def sz_simps reply_def same_reply_def disk_get_def
        serialize_lww_def P lww_bot_def om_at_def split: option.splits)
next
  case (4 s t k)
  then show ?case
    by (auto simp: lww_refines_def DiskLWWSerializer_def MemoryLWWSerializer_def Let_def map_of_remove_file
        cong: option.case_cong)
qed

text \<open>
  C16. The disk store is a refinement of the memory store for last-writer-wins values: after the same
  reads, writes and removals, starting from an empty memory store and an empty disk, every read
  fails on disk exactly when it fails in memory, and returns the same encoded value when it succeeds.
  The messages are decodable and the files can be created.
\<close>

theorem disk_lww_refines_memory:
  assumes "\<And>m. parse_LWWValue (de_codec D) (ser_LWWValue (de_codec D) m) = (True, m)"
    and "\<And>k. de_creatable D (fname D k)"
  shows "list_all2 same_reply (run_ops (MemoryLWWSerializer (de_codec D)) ops [])
    (run_ops (DiskLWWSerializer D) ops [])"
  using assms by (intro lww_disk.refines) (simp add: lww_refines_def)

section \<open>Priorities on disk\<close>

text \<open>
  C17. On disk the first write of a key with a priority that is not negative is lost. The serializer
  creates an empty file and compares the priority with the one it reads back, and the empty file
  decodes to the default message with priority 0. The write reports zero bytes, and a read after it
  does not find the key.
\<close>

theorem disk_priority_put_lost:
  assumes empty: "parse_PriorityValue (de_codec D) [] = (True, empty_PriorityValue)"
    and sz: "disk_serializers D PRIORITY = Some sz"
    and new: "fname D k \<notin> dom (map_of fs)" "de_creatable D (fname D k)"
    and priority: "priov_priority (snd (parse_PriorityValue (de_codec D) payload)) \<ge> 0"
  shows "fst (sz_put sz fs k payload) = 0
    \<and> reply (sz_get sz (snd (sz_put sz fs k payload)) k NO_ERROR) = ([], KEY_DNE)"
proof -
  have sz_eq: "sz = DiskPrioritySerializer D"
    using sz by (simp add: disk_serializers_def)
  have "om_at [] fs (fname D k) = []"
    using new(1) by (simp add: om_at_def domIff)
  moreover have "\<not> priov_priority (snd (parse_PriorityValue (de_codec D) payload)) < 0"
    using priority by simp
  ultimately have put: "fst (priority_disk_put D fs k payload) = 0"
      "map_of (snd (priority_disk_put D fs k payload)) (fname D k) = Some []"
    using new(2) empty
    by (simp_all add: priority_disk_put_def empty_PriorityValue_def map_of_touch om_at_touch Let_def)
  show ?thesis
    using put empty by (simp add: sz_eq DiskPrioritySerializer_def Let_def disk_get_def reply_def empty_PriorityValue_def)
qed

section \<open>A sample disk\<close>

definition sample_disk :: disk_env where
  "sample_disk = \<lparr>de_codec = wire_codec\<lparr>parse_PriorityValue := \<lambda>_. (True, empty_PriorityValue)\<rparr>,
     de_ebs_root = ''/ebs/'', de_tid = 0, de_creatable = \<lambda>_. True, de_read_tellp = \<lambda>_. - 1\<rparr>"

theorem disk_lww_refines_memory_witness:
  "let a = serialize_timestamped (de_codec sample_disk) 1 ''a'';
       ops = [OpPut ''k'' a, OpGet ''k'', OpRemove ''k'', OpGet ''k'']
   in list_all2 same_reply (run_ops (MemoryLWWSerializer (de_codec sample_disk)) ops [])
        (run_ops (DiskLWWSerializer sample_disk) ops [])"
  unfolding Let_def by (rule disk_lww_refines_memory) (simp_all add: sample_disk_def)

theorem disk_priority_put_lost_witness:
  "reply (sz_get (DiskPrioritySerializer sample_disk)
     (snd (sz_put (DiskPrioritySerializer sample_disk) [] ''k'' ''payload'')) ''k'' NO_ERROR) = ([], KEY_DNE)"
  using disk_priority_put_lost [of sample_disk "DiskPrioritySerializer sample_disk" "''k''" "[]" "''payload''"]
  by (simp add: disk_serializers_def sample_disk_def empty_PriorityValue_def)

end
