(* ===== verification/Anna_Loop.thy ===== *)
theory Anna_Loop
  imports Anna_Caches Anna_Disk
begin

text \<open>
  The event loop of a server thread: \<^verbatim>\<open>run\<close> and \<^verbatim>\<open>main\<close> in \<^verbatim>\<open>src/kvs/server.cpp\<close>. A thread asks the seed node
  for the cluster (\<open>start_thread\<close>), builds its rings and tells the others, and then goes round its
  loop (\<open>loop_round\<close>): it takes at most one message from each of its nine sockets, gossips its changes
  every ten seconds, reports statistics every fifteen, and redistributes data after a join. What the
  sockets hold at the top of a round is the record \<open>polled\<close>; the clock counts nanoseconds.

  The lemmas of the locale \<open>server_invariant\<close> show that a predicate that survives the few operations the
  handlers are made of survives every handler, every phase and every round. Its interpretations are
  the well-formedness of the rings, the agreement of the two cache indexes, and the agreement of the
  stored keys with the store, for the memory and for the disk store.
\<close>

section \<open>Clocks\<close>

text \<open>\<^verbatim>\<open>duration_cast\<close> from nanoseconds to a unit of \<open>u\<close> nanoseconds rounds towards zero.\<close>

definition duration_cast :: "int \<Rightarrow> int \<Rightarrow> int" where
  "duration_cast u d = (if d < 0 then - ((- d) div u) else d div u)"

definition to_micros :: "int \<Rightarrow> int" where
  "to_micros d = duration_cast 1000 d"

definition to_millis :: "int \<Rightarrow> int" where
  "to_millis d = duration_cast 1000000 d"

definition to_secs :: "int \<Rightarrow> int" where
  "to_secs d = duration_cast 1000000000 d"

definition PERIOD :: int where
  "PERIOD = 10000000"

definition DATA_REDISTRIBUTE_THRESHOLD :: nat where
  "DATA_REDISTRIBUTE_THRESHOLD = 50"

definition kServerReportThreshold :: int where
  "kServerReportThreshold = 15"

definition kKeyMonitoringThreshold :: int where
  "kKeyMonitoringThreshold = 60"

section \<open>Gossip\<close>

definition gossip_targets :: "'st worker \<Rightarrow> Key \<Rightarrow> AddressKeysetMap \<times> 'st server
    \<Rightarrow> (AddressKeysetMap \<times> 'st server) res" where
  "gossip_targets W key = (\<lambda>(addr_keyset_map, s).
     rbind (lookup_threads W key kAllTiers s)
       (\<lambda>((threads, succeed), s).
          let addr_keyset_map =
                (if succeed then announce key (filter (\<lambda>thread. \<not> st_eq thread (wt W)) threads) addr_keyset_map
                 else addr_keyset_map);
              cache_ips = (case map_of (key_to_cache_ips s) key of None \<Rightarrow> [] | Some ips \<Rightarrow> ips)
          in Inr (fold (\<lambda>ip. om_modify [] (ct_cache_update_connect_address \<lparr>ct_ip = ip, ct_tid = 0\<rparr>)
                    (List.insert key)) cache_ips addr_keyset_map, s)))"

definition gossip_round :: "'st worker \<Rightarrow> 'st server \<Rightarrow> 'st server res" where
  "gossip_round W s =
     (if length (local_changeset s) > 0
      then rbind (rfold (gossip_targets W) (local_changeset s) ([], s))
             (\<lambda>(addr_keyset_map, s).
                rbind (send_gossip W addr_keyset_map s) (\<lambda>s. Inr (s\<lparr>local_changeset := []\<rparr>)))
      else Inr s)"

section \<open>Statistics\<close>

definition storage_consumption :: "(Key, KeyProperty) omap \<Rightarrow> u64" where
  "storage_consumption m = fold (\<lambda>(key, p) consumption. consumption + ucast (kp_size p)) m 0"

definition send_report :: "'st worker \<Rightarrow> u64 \<Rightarrow> MetadataType \<Rightarrow> string \<Rightarrow> 'st server \<Rightarrow> 'st server res" where
  "send_report W ts type serialized_value s =
     (let E = w_env W;
          key = get_metadata_key (wt W) (kSelfTier E) (st_tid (wt W)) type;
          req = prepare_put_tuple (empty_KeyRequest\<lparr>rq_type := PUT\<rparr>) key LWW
            (serialize_timestamped (env_codec E) ts serialized_value)
      in rbind (get_responsible_threads_metadata E key (global_ring MEMORY s) (local_ring MEMORY s))
           (\<lambda>threads.
              let s = touch_local_ring MEMORY (touch_global_ring MEMORY s)
              in if length threads \<noteq> 0
                 then let (n, new_seed) = env_rand_r E (seed s);
                          target_address = key_request_connect_address (threads ! (n mod length threads))
                      in Inr (send_string (ser_KeyRequest (env_codec E) req) target_address (s\<lparr>seed := new_seed\<rparr>))
                 else Inr s))"

definition access_counts :: "int \<Rightarrow> (Key, int list) omap \<Rightarrow> KeyAccessData" where
  "access_counts current_time tracker = \<lparr>kad_keys = map (\<lambda>(key, access_times).
     let access_times =
           (case find (\<lambda>time. to_secs (current_time - time) \<ge> kKeyMonitoringThreshold) access_times of
              None \<Rightarrow> access_times
            | Some time \<Rightarrow> removeAll time access_times)
     in \<lparr>kc_key = key, kc_access_count = of_nat (length access_times)\<rparr>) tracker\<rparr>"

definition primary_sizes :: "'st worker \<Rightarrow> 'st server \<Rightarrow> KeySizeData \<times> 'st server" where
  "primary_sizes W s =
     fold (\<lambda>(key, p) (data, s).
         let (primary, s) = is_primary_replica W key (wt W) s
         in (if primary then data\<lparr>ksd_key_sizes := ksd_key_sizes data @ [\<lparr>ks_key = key, ks_size = kp_size p\<rparr>]\<rparr>
             else data, s))
       (stored_key_map s) (\<lparr>ksd_key_sizes = []\<rparr>, s)"

record 'st loop =
  lp_server :: "'st server"
  gossip_start :: int
  report_start :: int
  working_time :: u64
  working_time_map :: "u64 list"
  epoch :: u32

definition report_stats :: "'st worker \<Rightarrow> int \<Rightarrow> 'st loop \<Rightarrow> 'st loop res" where
  "report_stats W duration l =
     (let C = env_codec (w_env W); epoch' = epoch l + 1; s = lp_server l;
          ms = to_millis (clock_now W s); s = tick s
      in rbind (generate_timestamp (st_tid (wt W)) (word_of_int ms)) (\<lambda>ts.
           let occupancy = real (unat (working_time l)) / (real_of_int duration * 1000000);
               stat = \<lparr>sts_storage_consumption = storage_consumption (stored_key_map s) div 1000,
                 sts_occupancy = occupancy, sts_epoch = epoch', sts_access_count = access_count s\<rparr>
           in rbind (send_report W ts server_stats (ser_ServerThreadStatistics C stat) s) (\<lambda>s.
              let access = access_counts (clock_now W s) (key_access_tracker s); s = tick s
              in rbind (send_report W ts key_access (ser_KeyAccessData C access) s) (\<lambda>s.
                 let (sizes, s) = primary_sizes W s
                 in rbind (send_report W ts key_size (ser_KeySizeData C sizes) s) (\<lambda>s.
                    let now = clock_now W s; s = tick s;
                        s = (if management_ip W \<noteq> ''NULL''
                             then send_string (management_node_response_connect_address (wt W))
                               (get_func_nodes_req_address (management_ip W)) s else s)
                    in Inr (l\<lparr>lp_server := s\<lparr>access_count := 0\<rparr>, report_start := now, working_time := 0,
                         working_time_map := replicate 10 0, epoch := epoch'\<rparr>))))))"

section \<open>Redistribution\<close>

definition redistribute_address ::
    "Address \<times> Key list \<Rightarrow> Address list \<times> AddressKeysetMap \<Rightarrow> Address list \<times> AddressKeysetMap" where
  "redistribute_address = (\<lambda>(address, key_set) (remove_address_set, addr_keyset_map).
     let sent_keys = take DATA_REDISTRIBUTE_THRESHOLD key_set;
         addr_keyset_map = fold (\<lambda>key. om_modify [] address (List.insert key)) sent_keys addr_keyset_map;
         key_set = fold removeAll sent_keys key_set
     in (if length key_set = 0 then List.insert address remove_address_set else remove_address_set,
         addr_keyset_map))"

definition drop_key :: "'st worker \<Rightarrow> Key \<Rightarrow> 'st server \<Rightarrow> 'st server res" where
  "drop_key W key s =
     (case serializers W (kp_type (om_at empty_KeyProperty (stored_key_map s) key)) of
        None \<Rightarrow> Inl NullDeref
      | Some serializer \<Rightarrow> Inr (s\<lparr>store := sz_remove serializer (store s) key,
          stored_key_map := AList.delete key (stored_key_map s)\<rparr>))"

definition redistribute :: "'st worker \<Rightarrow> 'st server \<Rightarrow> 'st server res" where
  "redistribute W s =
     (if length (join_gossip_map s) \<noteq> 0
      then let (remove_address_set, addr_keyset_map) = fold redistribute_address (join_gossip_map s) ([], []);
               s = s\<lparr>join_gossip_map := fold AList.delete remove_address_set (join_gossip_map s)\<rparr>
           in rbind (send_gossip W addr_keyset_map s)
                (\<lambda>s. if length (join_gossip_map s) = 0
                     then rbind (rfold (drop_key W) (join_remove_set s) s)
                            (\<lambda>s. Inr (s\<lparr>join_remove_set := []\<rparr>))
                     else Inr s)
      else Inr s)"

section \<open>One round of the event loop\<close>

record polled =
  in_join :: "string option"
  in_depart :: "string option"
  in_self_depart :: "string option"
  in_request :: "string option"
  in_gossip :: "string option"
  in_replication_response :: "string option"
  in_replication_change :: "string option"
  in_cache_ip_response :: "string option"
  in_management_node_response :: "string option"

definition timed :: "'st worker \<Rightarrow> nat \<Rightarrow> ('st server \<Rightarrow> 'st server res) \<Rightarrow> 'st loop \<Rightarrow> 'st loop res" where
  "timed W event work l =
     (let work_start = clock_now W (lp_server l)
      in rbind (work (tick (lp_server l)))
           (\<lambda>s. let time_elapsed = word_of_int (to_micros (clock_now W s - work_start))
                in Inr (l\<lparr>lp_server := tick s, working_time := working_time l + time_elapsed,
                     working_time_map := (working_time_map l)
                       [event := working_time_map l ! event + time_elapsed]\<rparr>)))"

definition on_message ::
    "'st worker \<Rightarrow> nat \<Rightarrow> (string \<Rightarrow> 'st server \<Rightarrow> 'st server res) \<Rightarrow> string option \<Rightarrow> 'st loop \<Rightarrow> 'st loop res" where
  "on_message W event handler message l =
     (case message of None \<Rightarrow> Inr l | Some serialized \<Rightarrow> timed W event (handler serialized) l)"

definition gossip_phase :: "'st worker \<Rightarrow> 'st loop \<Rightarrow> 'st loop res" where
  "gossip_phase W l =
     (let gossip_end = clock_now W (lp_server l); l = l\<lparr>lp_server := tick (lp_server l)\<rparr>
      in if to_micros (gossip_end - gossip_start l) \<ge> PERIOD
         then rbind (timed W 9 (gossip_round W) l)
                (\<lambda>l. Inr (l\<lparr>gossip_start := clock_now W (lp_server l), lp_server := tick (lp_server l)\<rparr>))
         else Inr l)"

definition report_phase :: "'st worker \<Rightarrow> 'st loop \<Rightarrow> 'st loop res" where
  "report_phase W l =
     (let report_end = clock_now W (lp_server l); l = l\<lparr>lp_server := tick (lp_server l)\<rparr>;
          duration = to_secs (report_end - report_start l)
      in if duration \<ge> kServerReportThreshold then report_stats W duration l else Inr l)"

definition serve_messages :: "'st worker \<Rightarrow> polled \<Rightarrow> 'st loop \<Rightarrow> 'st loop res" where
  "serve_messages W p l =
     rbind (on_message W 3 (user_request_handler W) (in_request p) l) (\<lambda>l.
     rbind (on_message W 4 (gossip_handler W) (in_gossip p) l) (\<lambda>l.
     rbind (on_message W 5 (replication_response_handler W) (in_replication_response p) l) (\<lambda>l.
     rbind (on_message W 6 (replication_change_handler W) (in_replication_change p) l) (\<lambda>l.
     rbind (on_message W 7 (\<lambda>m s. Inr (cache_ip_response_handler W m s)) (in_cache_ip_response p) l) (\<lambda>l.
     on_message W 8 (management_node_response_handler W) (in_management_node_response p) l)))))"

text \<open>The flag tells whether the loop goes on.\<close>

definition loop_round :: "'st worker \<Rightarrow> polled \<Rightarrow> 'st loop \<Rightarrow> (bool \<times> 'st loop) res" where
  "loop_round W p l =
     rbind (on_message W 0 (node_join_handler W) (in_join p) l) (\<lambda>l.
     rbind (on_message W 1 (node_depart_handler W) (in_depart p) l) (\<lambda>l.
       case in_self_depart p of
         Some serialized \<Rightarrow>
           rbind (self_depart_handler W serialized (lp_server l)) (\<lambda>s. Inr (False, l\<lparr>lp_server := s\<rparr>))
       | None \<Rightarrow>
           rbind (serve_messages W p l) (\<lambda>l.
           rbind (gossip_phase W l) (\<lambda>l.
           rbind (report_phase W l) (\<lambda>l.
           rbind (redistribute W (lp_server l)) (\<lambda>s. Inr (True, l\<lparr>lp_server := s\<rparr>)))))))"

section \<open>Starting a thread\<close>

definition insert_global :: "env \<Rightarrow> Tier \<Rightarrow> Address \<Rightarrow> Address \<Rightarrow> int \<Rightarrow> 'a ring_ctx_scheme \<Rightarrow> 'a ring_ctx_scheme" where
  "insert_global E tier pub priv join_count s = set_global_ring tier
     (snd (hr_insert (GlobalHasher (env_hash E)) pub priv join_count 0 (global_ring tier s))) s"

definition insert_local :: "env \<Rightarrow> Tier \<Rightarrow> Address \<Rightarrow> Address \<Rightarrow> u32 \<Rightarrow> 'a ring_ctx_scheme \<Rightarrow> 'a ring_ctx_scheme" where
  "insert_local E tier pub priv tid s = s\<lparr>local_hash_rings := AList.update tier
     (snd (hr_insert (LocalHasher (env_hash E)) pub priv 0 tid (local_ring tier s))) (local_hash_rings s)\<rparr>"

definition populate_addresses :: "env \<Rightarrow> ClusterMembership \<Rightarrow> 'a ring_ctx_scheme \<Rightarrow> 'a ring_ctx_scheme" where
  "populate_addresses E membership s =
     fold (\<lambda>tier. fold (\<lambda>server. insert_global E (tm_tier_id tier) (srv_public_ip server) (srv_private_ip server) 0)
         (tm_servers tier)) (cm_tiers membership) s"

definition form_local_rings :: "env \<Rightarrow> Address \<Rightarrow> Address \<Rightarrow> 'a ring_ctx_scheme \<Rightarrow> 'a ring_ctx_scheme" where
  "form_local_rings E pub priv s =
     fold (\<lambda>(_, tier). fold (\<lambda>tid. insert_local E (tmd_id tier) pub priv (of_nat tid))
         [0..<unat (tmd_thread_number tier)]) (kTierMetadata E) s"

definition announce_self :: "'st worker \<Rightarrow> string \<Rightarrow> 'st server \<Rightarrow> 'st server" where
  "announce_self W count_str s =
     (let msg = Tier_Name (kSelfTier (w_env W)) @ '':'' @ public_ip W @ '':'' @ private_ip W @ '':'' @ count_str;
          others = filter (\<lambda>st. st_private_ip st \<noteq> private_ip W) (all_servers s);
          s = fold (\<lambda>st. send_string msg (node_join_connect_address st)) others s;
          msg = ''join:'' @ msg;
          s = fold (\<lambda>address. send_string msg
                (rt_notify_connect_address \<lparr>rt_ip = address, rt_tid = 0\<rparr>)) (routing_ips W) s
      in fold (\<lambda>address. send_string msg
           (mt_notify_connect_address \<lparr>mt_ip = address\<rparr>)) (monitoring_ips W) s)"

text \<open>
  The variables as \<^verbatim>\<open>run\<close> declares them. \<^verbatim>\<open>access_count\<close> has no initial value there; \<open>garbage\<close> is
  whatever it starts with.
\<close>

definition blank_server :: "'st \<Rightarrow> u32 \<Rightarrow> u32 \<Rightarrow> 'st server" where
  "blank_server st sd garbage = \<lparr>global_hash_rings = [], local_hash_rings = [], key_replication_map = [],
     seed = sd, rand_state = 0, outbox = [], store = st, ticks = 0,
     pending_requests = [], pending_gossip = [], key_access_tracker = [], stored_key_map = [],
     local_changeset = [], access_count = garbage, join_remove_set = [], join_gossip_map = [],
     extant_caches = [], cache_ip_to_keys = [], key_to_cache_ips = [], rid = 0\<rparr>"

definition ask_seed :: "'st worker \<Rightarrow> Address \<Rightarrow> string \<Rightarrow> 'st server \<Rightarrow> string \<times> 'st server" where
  "ask_seed W seed_ip restart_count s =
     (let s = send_string ''join'' (rt_seed_connect_address \<lparr>rt_ip = seed_ip, rt_tid = 0\<rparr>) s
      in if management_ip W \<noteq> ''NULL''
         then (restart_count, send_string (''restart:'' @ private_ip W)
                 (get_join_count_req_address (management_ip W)) s)
         else (''0'', s))"

definition build_rings :: "'st worker \<Rightarrow> string \<Rightarrow> int \<Rightarrow> 'st server \<Rightarrow> 'st server" where
  "build_rings W serialized_addresses count s =
     (let E = w_env W;
          membership = snd (parse_ClusterMembership (env_codec E) serialized_addresses);
          s = populate_addresses E membership s;
          s = insert_global E (kSelfTier E) (public_ip W) (private_ip W) count s
      in form_local_rings E (public_ip W) (private_ip W) s)"

definition start_thread ::
    "'st worker \<Rightarrow> Address \<Rightarrow> string \<Rightarrow> string \<Rightarrow> 'st server \<Rightarrow> ('st worker \<times> 'st server) res" where
  "start_thread W seed_ip serialized_addresses restart_count s =
     (let (count_str, s) = ask_seed W seed_ip restart_count s
      in rbind (stoi count_str) (\<lambda>count.
           let s = build_rings W serialized_addresses count s;
               s = (if thread_id W = 0 then announce_self W count_str s else s)
           in Inr (W\<lparr>self_join_count := count\<rparr>, s)))"

definition enter_loop :: "'st worker \<Rightarrow> 'st server \<Rightarrow> 'st loop" where
  "enter_loop W s = \<lparr>lp_server = tick (tick (tick (tick s))), gossip_start = clock_now W s,
     report_start = clock_now W (tick (tick s)), working_time = 0, working_time_map = replicate 10 0,
     epoch = 0\<rparr>"

inductive thread_reaches :: "'st worker \<Rightarrow> 'st loop \<Rightarrow> 'st loop \<Rightarrow> bool" for W where
  here: "thread_reaches W l l"
| there: "thread_reaches W l0 l \<Longrightarrow> loop_round W p l = Inr (True, l') \<Longrightarrow> thread_reaches W l0 l'"

section \<open>The main program\<close>

definition self_tier :: "string option \<Rightarrow> Tier option" where
  "self_tier stype =
     (case stype of
        None \<Rightarrow> Some MEMORY
      | Some s \<Rightarrow>
          if take 6 s = ''memory'' then Some MEMORY
          else if take 3 s = ''ebs'' then Some DISK
          else None)"

record server_conf =
  cf_memory_threads :: u32
  cf_ebs_threads :: u32
  cf_memory_cap :: u32
  cf_ebs_cap :: u32
  cf_memory_replication :: u32
  cf_ebs_replication :: u32
  cf_local_replication :: u32

definition configure :: "server_conf \<Rightarrow> Tier \<Rightarrow> env \<Rightarrow> env" where
  "configure cf self E =
     (let metadata = [(MEMORY, \<lparr>tmd_id = MEMORY, tmd_thread_number = cf_memory_threads cf,
              tmd_default_replication = cf_memory_replication cf,
              tmd_node_capacity = ucast (cf_memory_cap cf * 1000000)\<rparr>),
            (DISK, \<lparr>tmd_id = DISK, tmd_thread_number = cf_ebs_threads cf,
              tmd_default_replication = cf_ebs_replication cf,
              tmd_node_capacity = ucast (cf_ebs_cap cf * 1000000)\<rparr>)]
      in E\<lparr>kSelfTier := self, kSelfTierIdVector := [self],
           kDefaultLocalReplication := cf_local_replication cf, kTierMetadata := metadata,
           kThreadNum := tmd_thread_number (om_at default_TierMetadata metadata self)\<rparr>)"

text \<open>\<^verbatim>\<open>worker_threads\<close> holds one thread for each of the ids from 1, at the index one below it.\<close>

definition join_workers :: "nat \<Rightarrow> nat list res" where
  "join_workers thread_num =
     (let worker_threads = [1..<thread_num]
      in rfold (\<lambda>tid joined. rbind (vec_at worker_threads tid) (\<lambda>t. Inr (joined @ [t]))) [1..<thread_num] [])"

section \<open>What the handlers are made of\<close>

text \<open>
  Apart from the rings, the store with its key properties, and the cache indexes, a handler only
  keeps books: pending events, change sets, statistics, learned factors, and messages sent.
\<close>

definition bookkeeping :: "'st server \<Rightarrow> 'st server \<Rightarrow> bool" where
  "bookkeeping a b \<longleftrightarrow>
     (\<forall>tier. global_ring tier b = global_ring tier a) \<and> (\<forall>tier. local_ring tier b = local_ring tier a)
   \<and> store b = store a \<and> stored_key_map b = stored_key_map a
   \<and> cache_ip_to_keys b = cache_ip_to_keys a \<and> key_to_cache_ips b = key_to_cache_ips a"

lemma bookkeeping_refl [simp]: "bookkeeping s s"
  by (simp add: bookkeeping_def)

lemma bookkeeping_agree: "ctx_agree s s' \<Longrightarrow> bookkeeping s s'"
  by (simp add: bookkeeping_def ctx_agree_server) (simp add: ctx_agree_def)

lemma bookkeeping_more:
  "same_ctx s s' \<Longrightarrow> ring_ctx.more s' = ring_ctx.more s \<Longrightarrow> bookkeeping s s'"
  using server_more_eq [of s' s] by (simp add: bookkeeping_def same_ctx_def global_ring_def local_ring_def)

lemma bookkeeping_updates [simp]:
  "bookkeeping s (s\<lparr>pending_requests := x1\<rparr>)" "bookkeeping s (s\<lparr>pending_gossip := x2\<rparr>)"
  "bookkeeping s (s\<lparr>ticks := x3\<rparr>)" "bookkeeping s (s\<lparr>local_changeset := x4\<rparr>)"
  "bookkeeping s (s\<lparr>access_count := x5\<rparr>)" "bookkeeping s (s\<lparr>key_replication_map := x6\<rparr>)"
  "bookkeeping s (s\<lparr>extant_caches := x7\<rparr>)" "bookkeeping s (s\<lparr>rid := x8\<rparr>)"
  "bookkeeping s (s\<lparr>join_gossip_map := x9\<rparr>)" "bookkeeping s (s\<lparr>join_remove_set := x10\<rparr>)"
  "bookkeeping s (s\<lparr>join_remove_set := x10, join_gossip_map := x9\<rparr>)"
  "bookkeeping s (tick s)" "bookkeeping s (track_access key now s)" "bookkeeping s (add_to_changeset key s)"
  "bookkeeping s (park_request key r s)" "bookkeeping s (park_gossip key g s)"
  by (simp_all add: bookkeeping_def global_ring_def local_ring_def tick_def track_access_def
      add_to_changeset_def park_request_def park_gossip_def)

lemma bookkeeping_sends [simp]:
  "bookkeeping s (send_string m a s)" "bookkeeping s (send_reply W r tp s)"
  "bookkeeping s (send_requests E requests s)" "bookkeeping s (broadcast_to_threads W f m s)"
  "bookkeeping s (notify_join W m pub priv s)" "bookkeeping s (notify_depart W m s)"
  using only_sends_notify_join [of s W m pub priv] only_sends_notify_depart [of s W m]
  by (auto intro!: bookkeeping_more simp: send_requests_frame broadcast_frame only_sends_def)
    (simp_all add: same_ctx_def send_string_def send_reply_def)

definition store_caches ::
    "(Address, Key list) omap \<times> (Key, Address list) omap \<Rightarrow> 'st server \<Rightarrow> 'st server" where
  "store_caches c s = s\<lparr>cache_ip_to_keys := fst c, key_to_cache_ips := snd c\<rparr>"

lemma store_caches_simps [simp]:
  "caches_of (store_caches c s) = c" "store_caches c (store_caches d s) = store_caches c s"
  "store_caches (caches_of s) s = s"
  by (simp_all add: store_caches_def caches_of_def)

lemma rpost_bind_metadata: "(\<And>x. rpost P (f x)) \<Longrightarrow> rpost P (rbind (is_metadata key) f)"
  by (auto simp: rpost_def rbind_def split: sum.splits)

locale server_invariant =
  fixes W :: "'st worker" and I :: "'st server \<Rightarrow> bool"
  assumes frame: "I s \<Longrightarrow> bookkeeping s s' \<Longrightarrow> I s'"
    and get: "I s \<Longrightarrow> process_get W key type s = Inr (r, s') \<Longrightarrow> I s'"
    and put: "I s \<Longrightarrow> process_put W key type x s = Inr s' \<Longrightarrow> I s'"
    and drop: "I s \<Longrightarrow> drop_key W key s = Inr s' \<Longrightarrow> I s'"
    and join: "I s \<Longrightarrow> I (set_global_ring tier (snd (hr_insert (GlobalHasher (env_hash (w_env W))) pub priv n 0
        (global_ring tier s))) s)"
    and depart: "I s \<Longrightarrow> I (set_global_ring tier (hr_remove (GlobalHasher (env_hash (w_env W))) pub priv 0
        (global_ring tier s)) s)"
    and learn: "I s \<Longrightarrow> I (store_caches (learn_cached_keys ip keys (caches_of s)) s)"
    and forget: "I s \<Longrightarrow> I (store_caches (drop_cache ip (caches_of s)) s)"
begin

lemmas frames [simp] = bookkeeping_updates [THEN frame [rotated]] bookkeeping_sends [THEN frame [rotated]]

lemma lookup_keeps: "I s \<Longrightarrow> rpost (\<lambda>(r, s'). I s') (lookup_threads W key tiers s)"
  by (auto simp: rpost_def intro: frame [OF _ bookkeeping_agree] dest: lookup_threads_Inr)

lemma request_keeps: "I s \<Longrightarrow> rpost I (request_replication W key s)"
  by (auto simp: rpost_def intro: frame [OF _ bookkeeping_agree] dest: request_replication_Inr)

lemma get_keeps: "I s \<Longrightarrow> rpost (\<lambda>(r, s'). I s') (process_get W key type s)"
  by (auto simp: rpost_def intro: get)

lemma put_keeps: "I s \<Longrightarrow> rpost I (process_put W key type x s)"
  by (auto simp: rpost_def intro: put)

lemma drop_keeps: "I s \<Longrightarrow> rpost I (drop_key W key s)"
  by (auto simp: rpost_def intro: drop)

lemma answer_get_keeps: "I s \<Longrightarrow> rpost (\<lambda>(r, s'). I s') (answer_get W key tp s)"
  unfolding answer_get_def
  by (auto split: option.split intro!: rpost_bind [OF get_keeps])

lemma answer_put_keeps: "I s \<Longrightarrow> rpost (\<lambda>(r, s'). I s') (answer_put W key type payload tp s)"
  unfolding answer_put_def
  by (auto intro!: rpost_bind [OF put_keeps])

lemma answer_tuple_keeps: "I s \<Longrightarrow> rpost (\<lambda>(r, s'). I s') (answer_tuple W request tuple threads s)"
  unfolding answer_tuple_def Let_def
  by (rule rpost_bind [where Q = "\<lambda>(r, s'). I s'"])
    (auto split: RequestType.split intro: answer_get_keeps answer_put_keeps frame [OF frame])

lemma user_request_tuple_keeps:
  "I s \<Longrightarrow> rpost (\<lambda>(r, s'). I s') (user_request_tuple W request tuple (response, s))"
  unfolding user_request_tuple_def Let_def
  by (auto intro!: rpost_bind [OF lookup_keeps] rpost_bind_metadata rpost_bind [OF request_keeps]
      rpost_bind [OF answer_tuple_keeps])

lemma user_request_keeps: "I s \<Longrightarrow> rpost I (user_request_handler W serialized s)"
  unfolding user_request_handler_def Let_def
  by (rule rpost_bind [where Q = "\<lambda>(r, s'). I s'"], rule rpost_rfold)
    (auto intro: user_request_tuple_keeps)

lemma gossip_tuple_keeps: "I s \<Longrightarrow> rpost (\<lambda>(r, s'). I s') (gossip_tuple W tuple (gossip_map, s))"
  unfolding gossip_tuple_def Let_def
  by (auto intro!: rpost_bind [OF lookup_keeps] rpost_bind_metadata rpost_bind [OF request_keeps]
      rpost_bind [OF put_keeps])

lemma gossip_keeps: "I s \<Longrightarrow> rpost I (gossip_handler W serialized s)"
  unfolding gossip_handler_def Let_def
  by (rule rpost_bind [where Q = "\<lambda>(r, s'). I s'"], rule rpost_rfold)
    (auto intro: gossip_tuple_keeps)

lemma send_gossip_keeps:
  assumes "I s"
  shows "rpost I (send_gossip W addr_keyset_map s)"
proof -
  have key: "rpost (\<lambda>(m, s). I s) (gossip_key W address key (m, s))" if "I s" for address key m s
    using that unfolding gossip_key_def
    by (auto split: option.split intro!: rpost_bind [OF get_keeps])
  have keys: "rpost (\<lambda>(m, s). I s) (rfold (gossip_key W address) keys (m, s))" if "I s" for address keys m s
    using that key by (intro rpost_rfold) auto
  show ?thesis
    unfolding send_gossip_def
    by (rule rpost_bind [where Q = "\<lambda>(m, s). I s"], rule rpost_rfold)
      (use assms keys in \<open>auto intro: frame\<close>)
qed

end

lemma remove_key_drop:
  "remove_key W key s =
     rbind (drop_key W key s) (\<lambda>s. Inr (s\<lparr>local_changeset := removeAll key (local_changeset s)\<rparr>))"
  by (simp add: remove_key_def drop_key_def split: option.split)

lemma request_cached_keys_books:
  assumes "request_cached_keys W ip (m, s) = Inr (m', s')"
  shows "bookkeeping s s'"
proof -
  let ?s = "touch_local_ring MEMORY (touch_global_ring MEMORY s)"
  obtain n r where s': "s' = ?s\<lparr>rand_state := r, rid := n\<rparr>"
    using assms prepare_metadata_request_Inr
    by (fastforce simp: request_cached_keys_def prepare_metadata_get_request_def Let_def res_simps)
  have "ctx_agree s ?s"
    by (intro agree_intros)
  then have "bookkeeping s ?s"
    by (rule bookkeeping_agree)
  then show ?thesis
    by (simp add: s' bookkeeping_def global_ring_def local_ring_def)
qed

lemma touch_books: "bookkeeping s (touch_local_ring tier (touch_global_ring tier' s))"
  by (intro bookkeeping_agree agree_intros)

lemma rpost_bind_vec: "(\<And>x. rpost P (f x)) \<Longrightarrow> rpost P (rbind (vec_at xs i) f)"
  by (auto simp: rpost_def rbind_def split: sum.splits)

lemma rpost_bind_stoi: "(\<And>x. rpost P (f x)) \<Longrightarrow> rpost P (rbind (stoi str) f)"
  by (auto simp: rpost_def rbind_def split: sum.splits)

context server_invariant
begin

lemma silent_put_keeps: "I s \<Longrightarrow> rpost I (silent_put W key now r s)"
  unfolding silent_put_def by (auto intro!: rpost_bind [OF put_keeps])

lemma answer_pending_keeps: "I s \<Longrightarrow> rpost I (answer_pending W responsible key r s)"
  unfolding answer_pending_def Let_def
  by (auto simp: silent_put_keeps intro!: rpost_bind [OF answer_get_keeps] rpost_bind [OF answer_put_keeps])

lemma answer_pending_requests_keeps:
  assumes "I s"
  shows "rpost I (answer_pending_requests W key s)"
proof -
  have fold: "rpost I (rfold (answer_pending W b key) requests s)" if "I s" for b requests s
    using that by (intro rpost_rfold) (auto intro: answer_pending_keeps)
  show ?thesis
    using assms unfolding answer_pending_requests_def
    by (auto split: option.split intro!: rpost_bind [OF lookup_keeps] rpost_bind [OF fold])
qed

lemma settle_pending_gossip_keeps:
  assumes "I s"
  shows "rpost I (settle_pending_gossip W key s)"
proof -
  have "rpost I (merge_pending W key g s)" if "I s" for g s
    using that by (simp add: merge_pending_def put_keeps)
  then have fold: "rpost I (rfold (merge_pending W key) gossips s)" if "I s" for gossips s
    using that by (intro rpost_rfold) auto
  show ?thesis
    using assms unfolding settle_pending_gossip_def
    by (auto split: option.split intro!: rpost_bind [OF lookup_keeps] rpost_bind [OF fold])
qed

lemma replication_response_keeps: "I s \<Longrightarrow> rpost I (replication_response_handler W serialized s)"
  unfolding replication_response_handler_def serve_pending_def Let_def
  by (auto intro!: rpost_bind_vec rpost_bind [OF answer_pending_requests_keeps]
      intro: settle_pending_gossip_keeps request_keeps)

lemma change_key_keeps: "I s \<Longrightarrow> rpost (\<lambda>(r, s'). I s') (change_key W rep ((m, rs), s))"
  unfolding change_key_def Let_def
  by (auto split: option.split prod.split intro!: rpost_bind [OF lookup_keeps] rpost_bind_vec)

lemma remove_key_keeps: "I s \<Longrightarrow> rpost I (remove_key W key s)"
  unfolding remove_key_drop by (auto intro!: rpost_bind [OF drop_keeps])

lemma replication_change_keeps:
  assumes "I s"
  shows "rpost I (replication_change_handler W serialized s)"
proof -
  have fold: "rpost (\<lambda>(r, s'). I s') (rfold (change_key W) reps (r, s))" if "I s" for reps r s
    using that change_key_keeps by (intro rpost_rfold) auto
  have remove: "rpost I (rfold (remove_key W) keys s)" if "I s" for keys s
    using that by (intro rpost_rfold) (auto intro: remove_key_keeps)
  show ?thesis
    using assms unfolding replication_change_handler_def Let_def
    by (auto intro!: rpost_bind [OF fold] rpost_bind [OF send_gossip_keeps] remove)
qed

lemma rebalance_key_keeps: "I s \<Longrightarrow> rpost I (rebalance_key W n priv key s)"
  unfolding rebalance_key_def by (auto intro!: rpost_bind [OF lookup_keeps])

lemma admit_server_keeps:
  assumes "I s"
  shows "rpost I (admit_server W serialized tier pub priv n s)"
proof -
  have fold: "rpost I (rfold (rebalance_key W n priv) keys s)" if "I s" for keys s
    using that by (intro rpost_rfold) (auto intro: rebalance_key_keeps)
  show ?thesis
    using join [OF assms, of tier pub priv n] unfolding admit_server_def Let_def split_beta
    by (auto intro!: fold)
qed

lemma node_join_keeps: "I s \<Longrightarrow> rpost I (node_join_handler W serialized s)"
  unfolding node_join_handler_def Let_def
  by (auto split: option.split intro!: rpost_bind_vec rpost_bind_stoi admit_server_keeps)

lemma node_depart_keeps: "I s \<Longrightarrow> rpost I (node_depart_handler W serialized s)"
  unfolding node_depart_handler_def Let_def
  by (auto split: option.split intro!: rpost_bind_vec simp: depart)

lemma self_depart_keeps:
  assumes "I s"
  shows "rpost I (self_depart_handler W serialized s)"
proof -
  have "rpost (\<lambda>(m, s). I s) (depart_key W key (m, s))" if "I s" for key m s
    using that unfolding depart_key_def by (auto intro!: rpost_bind [OF lookup_keeps])
  then have fold: "rpost (\<lambda>(m, s). I s) (rfold (depart_key W) keys (m, s))" if "I s" for keys m s
    using that by (intro rpost_rfold) auto
  show ?thesis
    using assms unfolding self_depart_handler_def Let_def
    by (auto intro!: rpost_bind [OF fold] rpost_bind [OF send_gossip_keeps] simp: depart)
qed

lemma cache_ip_response_keeps:
  assumes "I s"
  shows "I (cache_ip_response_handler W serialized s)"
proof -
  have "I (cache_ip_tuple C tuple s)" if "I s" for C tuple s
    using that learn [OF that]
    by (auto simp: cache_ip_tuple_def Let_def split_beta store_caches_def caches_of_def)
  then have "I (fold (cache_ip_tuple C) tuples s)" if "I s" for C tuples s
    using that by (induction tuples arbitrary: s) auto
  then show ?thesis
    using assms by (simp add: cache_ip_response_handler_def)
qed

lemma management_response_keeps:
  assumes "I s"
  shows "rpost I (management_node_response_handler W serialized s)"
proof -
  have drops: "I (store_caches (fold drop_cache ips (caches_of s)) s)" if "I s" for ips s
    using that
  proof (induction ips arbitrary: s)
    case (Cons ip ips)
    from Cons.IH [OF forget [OF Cons.prems, of ip]] show ?case
      by simp
  qed simp
  have "rpost (\<lambda>(m, s). I s) (request_cached_keys W ip (m, s))" if "I s" for ip m s
    using that by (auto simp: rpost_def intro: frame [OF _ request_cached_keys_books])
  then have fold: "rpost (\<lambda>(m, s). I s) (rfold (request_cached_keys W) ips (m, s))" if "I s" for ips m s
    using that by (intro rpost_rfold) auto
  show ?thesis
    using drops [OF frames(7) [OF assms]] unfolding management_node_response_handler_def Let_def split_beta
    by (auto intro!: rpost_bind [OF fold] simp: store_caches_def caches_of_def)
qed

end

section \<open>The loop preserves every invariant of the handlers\<close>

context server_invariant
begin

lemma gossip_targets_keeps: "I s \<Longrightarrow> rpost (\<lambda>(m, s). I s) (gossip_targets W key (m, s))"
  unfolding gossip_targets_def by (auto intro!: rpost_bind [OF lookup_keeps])

lemma gossip_round_keeps:
  assumes "I s"
  shows "rpost I (gossip_round W s)"
proof -
  have fold: "rpost (\<lambda>(m, s). I s) (rfold (gossip_targets W) keys (m, s))" if "I s" for keys m s
    using that gossip_targets_keeps by (intro rpost_rfold) auto
  show ?thesis
    using assms unfolding gossip_round_def
    by (auto intro!: rpost_bind [OF fold] rpost_bind [OF send_gossip_keeps])
qed

lemma seed_keeps: "I s \<Longrightarrow> I (s\<lparr>seed := x\<rparr>)"
  by (erule frame) (simp add: bookkeeping_def global_ring_def local_ring_def)

lemma send_report_keeps: "I s \<Longrightarrow> rpost I (send_report W ts type x s)"
  using frame [OF _ touch_books, of s MEMORY MEMORY]
  unfolding send_report_def Let_def
  by (auto intro!: rpost_bind [where Q = "\<lambda>_. True"] simp: seed_keeps split: prod.split) (simp add: rpost_def)

lemma touch_keeps [simp]:
  "I s \<Longrightarrow> I (touch_global_rep key tier s)" "I s \<Longrightarrow> I (touch_global_ring tier s)"
  "I s \<Longrightarrow> I (touch_local_ring tier s)"
  by (erule frame, simp add: bookkeeping_def global_ring_def local_ring_def touch_global_rep_def
      touch_global_ring_def touch_local_ring_def)+

lemma is_primary_keeps: "I s \<Longrightarrow> I (snd (is_primary_replica W key st s))"
proof -
  assume "I s"
  then have "I (fold (\<lambda>tier s. if P tier then touch_global_rep key tier s else s) tiers (touch_global_rep key t s))"
    for P tiers t
    by (intro fold_invariant [where Q = "\<lambda>_. True" and P = I]) auto
  with \<open>I s\<close> show ?thesis
    by (simp add: is_primary_replica_def Let_def)
qed

lemma primary_sizes_keeps: "I s \<Longrightarrow> I (snd (primary_sizes W s))"
  unfolding primary_sizes_def
  by (rule fold_invariant [where Q = "\<lambda>_. True" and P = "\<lambda>x. I (snd x)"])
    (auto simp: split_beta is_primary_keeps)

lemma report_stats_keeps: "I (lp_server l) \<Longrightarrow> rpost (\<lambda>l. I (lp_server l)) (report_stats W duration l)"
  unfolding report_stats_def Let_def split_beta
  by (rule rpost_bind [where Q = "\<lambda>_. True"], simp add: rpost_def, rule rpost_bind [OF send_report_keeps], simp,
      rule rpost_bind [OF send_report_keeps], simp, rule rpost_bind [OF send_report_keeps],
      simp add: primary_sizes_keeps, simp)

lemma redistribute_keeps:
  assumes "I s"
  shows "rpost I (redistribute W s)"
proof -
  have fold: "rpost I (rfold (drop_key W) keys s)" if "I s" for keys s
    using that by (intro rpost_rfold) (auto intro: drop_keeps)
  show ?thesis
    using assms unfolding redistribute_def Let_def split_beta
    by (auto intro!: rpost_bind [OF send_gossip_keeps] rpost_bind [OF fold])
qed

lemma timed_keeps:
  assumes "\<And>s. I s \<Longrightarrow> rpost I (work s)" "I (lp_server l)"
  shows "rpost (\<lambda>l. I (lp_server l)) (timed W event work l)"
  using assms unfolding timed_def Let_def by (auto intro!: rpost_bind [of I])

lemma on_message_keeps:
  assumes "\<And>m s. I s \<Longrightarrow> rpost I (handler m s)" "I (lp_server l)"
  shows "rpost (\<lambda>l. I (lp_server l)) (on_message W event handler message l)"
  using assms unfolding on_message_def by (auto split: option.split intro: timed_keeps)

lemma gossip_phase_keeps: "I (lp_server l) \<Longrightarrow> rpost (\<lambda>l. I (lp_server l)) (gossip_phase W l)"
  unfolding gossip_phase_def Let_def
  by (auto intro!: rpost_bind [OF timed_keeps] gossip_round_keeps)

lemma report_phase_keeps: "I (lp_server l) \<Longrightarrow> rpost (\<lambda>l. I (lp_server l)) (report_phase W l)"
  unfolding report_phase_def Let_def by (auto intro!: report_stats_keeps)

lemmas message_keeps =
  on_message_keeps [of "user_request_handler W", OF user_request_keeps]
  on_message_keeps [of "gossip_handler W", OF gossip_keeps]
  on_message_keeps [of "replication_response_handler W", OF replication_response_keeps]
  on_message_keeps [of "replication_change_handler W", OF replication_change_keeps]
  on_message_keeps [of "management_node_response_handler W", OF management_response_keeps]
  on_message_keeps [of "node_join_handler W", OF node_join_keeps]
  on_message_keeps [of "node_depart_handler W", OF node_depart_keeps]

lemma cache_message_keeps:
  "I (lp_server l) \<Longrightarrow>
   rpost (\<lambda>l. I (lp_server l)) (on_message W event (\<lambda>m s. Inr (cache_ip_response_handler W m s)) message l)"
  by (rule on_message_keeps) (simp_all add: cache_ip_response_keeps)

lemma serve_messages_keeps: "I (lp_server l) \<Longrightarrow> rpost (\<lambda>l. I (lp_server l)) (serve_messages W p l)"
  unfolding serve_messages_def
  by (rule rpost_bind [OF message_keeps(1)], assumption, assumption, rule rpost_bind [OF message_keeps(2)], assumption, assumption,
      rule rpost_bind [OF message_keeps(3)], assumption, assumption, rule rpost_bind [OF message_keeps(4)], assumption, assumption,
      rule rpost_bind [OF cache_message_keeps], assumption, rule message_keeps(5), assumption, assumption)

lemma periodic_keeps:
  assumes "I (lp_server l)"
  shows "rpost (\<lambda>(b, l). I (lp_server l)) (rbind (serve_messages W p l) (\<lambda>l. rbind (gossip_phase W l) (\<lambda>l.
    rbind (report_phase W l) (\<lambda>l. rbind (redistribute W (lp_server l)) (\<lambda>s. Inr (True, l\<lparr>lp_server := s\<rparr>))))))"
  using assms
  by - (rule rpost_bind [OF serve_messages_keeps], assumption, rule rpost_bind [OF gossip_phase_keeps], assumption,
      rule rpost_bind [OF report_phase_keeps], assumption, rule rpost_bind [OF redistribute_keeps], assumption, simp)

lemma loop_round_keeps: "I (lp_server l) \<Longrightarrow> rpost (\<lambda>(b, l). I (lp_server l)) (loop_round W p l)"
  unfolding loop_round_def
  by (rule rpost_bind [OF message_keeps(6)], assumption, assumption, rule rpost_bind [OF message_keeps(7)], assumption, assumption)
    (auto split: option.split intro!: rpost_bind [OF self_depart_keeps] periodic_keeps)

lemma reachable:
  assumes "thread_reaches W l0 l" "I (lp_server l0)"
  shows "I (lp_server l)"
  using assms
proof (induction rule: thread_reaches.induct)
  case (there l0 l p l')
  then show ?case
    using loop_round_keeps [of l p]
    by (auto simp: rpost_def)
qed

end

section \<open>The invariants\<close>

lemma rings_ok_books: "rings_ok E s \<Longrightarrow> bookkeeping s s' \<Longrightarrow> rings_ok E s'"
  by (simp add: rings_ok_def bookkeeping_def)

interpretation ring_invariant: server_invariant W "rings_ok (w_env W)" for W
proof (unfold_locales, goal_cases)
  case (2 s key type r s')
  then show ?case by (auto dest!: process_get_Inr simp: rings_ok_def global_ring_def local_ring_def)
next
  case (3 s key type x s')
  then show ?case by (auto dest!: process_put_Inr simp: rings_ok_def global_ring_def local_ring_def)
next
  case (4 s key s')
  then show ?case
    by (auto simp: drop_key_def rings_ok_def global_ring_def local_ring_def split: option.splits)
next
  case (5 s tier pub priv n)
  then show ?case by (intro rings_ok_set_global_ring hr_inv_insert) (simp_all add: rings_ok_def)
next
  case (6 s tier pub priv)
  then show ?case by (intro rings_ok_set_global_ring hr_inv_remove) (simp_all add: rings_ok_def)
next
  case (1 s s')
  then show ?case by (rule rings_ok_books)
qed (simp_all add: rings_ok_def store_caches_def global_ring_def local_ring_def)

interpretation cache_invariant: server_invariant W "\<lambda>s. cache_index (caches_of s)" for W
proof (unfold_locales, goal_cases)
  case (2 s key type r s')
  then show ?case by (auto dest!: process_get_Inr simp: caches_of_def)
next
  case (3 s key type x s')
  then show ?case by (auto dest!: process_put_Inr simp: caches_of_def)
next
  case (7 s ip keys)
  then show ?case
    using learn_cached_keys_index [of "cache_ip_to_keys s" "key_to_cache_ips s" ip keys]
    by (cases "learn_cached_keys ip keys (caches_of s)") (simp add: caches_of_def store_caches_def)
next
  case (8 s ip)
  then show ?case using drop_caches_index [of "cache_ip_to_keys s" "key_to_cache_ips s" "[ip]"]
    by (cases "drop_cache ip (caches_of s)") (simp add: caches_of_def store_caches_def)
qed (auto simp: bookkeeping_def drop_key_def caches_of_def set_global_ring_def split: option.splits)

definition keys_ok :: "(LatticeType \<Rightarrow> 'st \<Rightarrow> Key \<Rightarrow> bool) \<Rightarrow> 'st server \<Rightarrow> bool" where
  "keys_ok holds s \<longleftrightarrow> om_wf (stored_key_map s) \<and> stored_held holds s"

context kv_backend
begin

lemma drop_key_held:
  assumes "serializers W = backend" "drop_key W key s = Inr s'" "stored_held holds s"
  shows "stored_held holds s'"
proof -
  obtain t sz where "backend t = Some sz" "s' = s\<lparr>store := sz_remove sz (store s) key,
      stored_key_map := AList.delete key (stored_key_map s)\<rparr>"
    using assms(1,2) by (auto simp: drop_key_def split: option.splits)
  then show ?thesis
    using assms(3) remove_keeps [of t sz _ "store s" _ key] by (simp add: stored_held_def)
qed

lemma keys_invariant:
  assumes W: "serializers W = backend" and none: "backend NONE = None"
  shows "server_invariant W (keys_ok holds)"
proof (unfold_locales, goal_cases)
  case (2 s key type r s')
  then show ?case
    using process_get_held [OF W 2(2)] by (auto simp: keys_ok_def dest!: process_get_Inr)
next
  case (3 s key type x s')
  then have "type \<noteq> NONE"
    using none by (auto simp: W dest!: process_put_Inr)
  with 3 show ?case
    using process_put_held [OF W 3(2)] by (auto simp: keys_ok_def dest!: process_put_Inr)
next
  case (4 s key s')
  then show ?case
    using drop_key_held [OF W 4(2)] by (auto simp: keys_ok_def drop_key_def split: option.splits)
next
  case (1 s s')
  then show ?case by (simp add: bookkeeping_def keys_ok_def stored_held_def)
qed (simp_all add: keys_ok_def stored_held_def set_global_ring_def store_caches_def)

end

interpretation mem_keys: server_invariant "W\<lparr>serializers := memory_serializers C\<rparr>" "keys_ok mem_holds" for W C
  by (rule mem_backend.keys_invariant) (simp_all add: memory_serializers_def)

interpretation disk_keys: server_invariant "W\<lparr>serializers := disk_serializers (open_disk D)\<rparr>"
  "keys_ok (disk_holds (open_disk D))" for W D
  by (rule disk_backend.keys_invariant) (simp_all add: disk_serializers_def)

section \<open>Startup establishes the invariants\<close>

lemma insert_global_simps [simp]:
  "ring_ctx.more (insert_global E tier pub priv n s) = ring_ctx.more s"
  "outbox (insert_global E tier pub priv n s) = outbox s"
  "local_ring t (insert_global E tier pub priv n s) = local_ring t s"
  by (simp_all add: insert_global_def)

lemma insert_local_simps [simp]:
  "ring_ctx.more (insert_local E tier pub priv tid s) = ring_ctx.more s"
  "outbox (insert_local E tier pub priv tid s) = outbox s"
  "global_ring t (insert_local E tier pub priv tid s) = global_ring t s"
  "all_servers (insert_local E tier pub priv tid s) = all_servers s"
  by (simp_all add: insert_local_def global_ring_def all_servers_def)

lemma rings_ok_insert_global: "rings_ok E s \<Longrightarrow> rings_ok E (insert_global E tier pub priv n s)"
  unfolding insert_global_def by (intro rings_ok_set_global_ring hr_inv_insert) (simp_all add: rings_ok_def)

lemma rings_ok_insert_local: "rings_ok E s \<Longrightarrow> rings_ok E (insert_local E tier pub priv tid s)"
  by (auto simp: rings_ok_def insert_local_def global_ring_def local_ring_def hr_inv_insert)

lemma fold_keeps: "P s \<Longrightarrow> (\<And>x s. P s \<Longrightarrow> P (f x s)) \<Longrightarrow> P (fold f xs s)"
  by (induction xs arbitrary: s) auto

definition readied :: "env \<Rightarrow> 'a ring_ctx_scheme \<Rightarrow> 'a ring_ctx_scheme \<Rightarrow> bool" where
  "readied E s s' \<longleftrightarrow> rings_ok E s' \<and> ring_ctx.more s' = ring_ctx.more s \<and> outbox s' = outbox s"

lemma populate_addresses_readied: "rings_ok E s \<Longrightarrow> readied E s (populate_addresses E membership s)"
  unfolding populate_addresses_def
  by (rule fold_keeps, simp add: readied_def, rule fold_keeps)
    (simp_all add: readied_def rings_ok_insert_global)

lemma form_local_rings_readied: "rings_ok E s \<Longrightarrow> readied E s (form_local_rings E pub priv s)"
  unfolding form_local_rings_def
  by (rule fold_keeps, simp add: readied_def, unfold split_beta, rule fold_keeps)
    (simp_all add: readied_def rings_ok_insert_local)

lemma form_local_rings_servers:
  "all_servers (form_local_rings E pub priv s) = all_servers s
    \<and> (\<forall>t. global_ring t (form_local_rings E pub priv s) = global_ring t s)"
  unfolding form_local_rings_def
  by (rule fold_keeps, simp, unfold split_beta, rule fold_keeps) simp_all

lemma only_sends_announce_self: "only_sends s (announce_self W count_str s)"
proof -
  have fold: "only_sends s (fold (\<lambda>x. send_string msg (f x)) xs s')" if "only_sends s s'" for f xs msg s'
    using that by (rule only_sends_trans) (rule only_sends_fold)
  show ?thesis
    unfolding announce_self_def Let_def by (intro fold) simp
qed

lemma ask_seed_sends: "only_sends s (snd (ask_seed W seed_ip count s))"
  by (auto simp: ask_seed_def Let_def intro: only_sends_trans only_sends_send)

lemma build_rings_readied:
  assumes "rings_ok (w_env W) s"
  shows "readied (w_env W) s (build_rings W addresses n s)"
proof -
  let ?E = "w_env W"
  let ?s = "populate_addresses ?E (snd (parse_ClusterMembership (env_codec ?E) addresses)) s"
  let ?s' = "insert_global ?E (kSelfTier ?E) (public_ip W) (private_ip W) n ?s"
  have "readied ?E s ?s'"
    using populate_addresses_readied [OF assms, of "snd (parse_ClusterMembership (env_codec ?E) addresses)"]
    by (simp add: readied_def rings_ok_insert_global)
  then show ?thesis
    using form_local_rings_readied [of ?E ?s' "public_ip W" "private_ip W"]
    by (simp add: build_rings_def Let_def readied_def)
qed

lemma start_thread_Inr:
  assumes "start_thread W seed_ip addresses count s = Inr (W', s')" "rings_ok (w_env W) s"
  shows "\<exists>n. W' = W\<lparr>self_join_count := n\<rparr>" "rings_ok (w_env W) s'" "ring_ctx.more s' = ring_ctx.more s"
proof -
  obtain str s1 where s1: "ask_seed W seed_ip count s = (str, s1)"
    by (cases "ask_seed W seed_ip count s")
  have sends: "only_sends s s1"
    using ask_seed_sends [of s W seed_ip count] by (simp add: s1)
  obtain n where n: "W' = W\<lparr>self_join_count := n\<rparr>"
    and s': "s' = (if thread_id W = 0 then announce_self W str (build_rings W addresses n s1)
      else build_rings W addresses n s1)"
    using assms(1) by (auto simp: start_thread_def s1 Let_def res_simps)
  have "rings_ok (w_env W) s1"
    using assms(2) only_sends_agree [OF sends] by (rule rings_ok_agree [rotated])
  then have s2: "readied (w_env W) s1 (build_rings W addresses n s1)"
    by (rule build_rings_readied)
  have "only_sends (build_rings W addresses n s1) s'"
    by (simp add: s' only_sends_announce_self)
  then have "rings_ok (w_env W) s'" "ring_ctx.more s' = ring_ctx.more s1"
    using s2 rings_ok_agree [OF only_sends_agree, of "build_rings W addresses n s1" s']
    by (simp_all add: readied_def only_sends_def)
  then show "\<exists>n. W' = W\<lparr>self_join_count := n\<rparr>" "rings_ok (w_env W) s'" "ring_ctx.more s' = ring_ctx.more s"
    using n sends by (auto simp: only_sends_def)
qed

lemma blank_server_fields:
  "rings_ok E (blank_server st sd g)" "stored_key_map (blank_server st sd g) = []"
  "caches_of (blank_server st sd g) = ([], [])" "store (blank_server st sd g) = st"
  by (simp_all add: rings_ok_def blank_server_def global_ring_def local_ring_def caches_of_def)

lemma enter_loop_server:
  "global_hash_rings (lp_server (enter_loop W s)) = global_hash_rings s"
  "local_hash_rings (lp_server (enter_loop W s)) = local_hash_rings s"
  "stored_key_map (lp_server (enter_loop W s)) = stored_key_map s"
  "store (lp_server (enter_loop W s)) = store s"
  "caches_of (lp_server (enter_loop W s)) = caches_of s"
  by (simp_all add: enter_loop_def tick_def caches_of_def)

text \<open>
  C12. Whatever messages a memory server thread receives, in whatever order, between its start and the
  top of any round of its event loop: the hash rings are well formed, no key is listed twice among the stored
  keys, every stored key has a lattice type and a value under this type in the store, so that reading
  it leaves the store as it is, and the two indexes of cached keys are inverse to each other.
\<close>

theorem thread_invariant:
  assumes "serializers W = memory_serializers C"
    and "start_thread W seed_ip addresses count (blank_server empty_mem_store sd garbage) = Inr (W', s)"
    and "thread_reaches W' (enter_loop W' s) l"
  shows "rings_ok (w_env W) (lp_server l) \<and> keys_ok mem_holds (lp_server l) \<and> reads_pure W (lp_server l)
    \<and> cache_index (caches_of (lp_server l))"
proof -
  note start = start_thread_Inr [OF assms(2) blank_server_fields(1)]
  obtain n where W': "W' = W\<lparr>self_join_count := n\<rparr>"
    using start(1) by blast
  have same: "stored_key_map s = []" "caches_of s = ([], [])"
    using server_more_eq [OF start(3)] blank_server_fields by (simp_all add: caches_of_def)
  have W'_mem: "W' = W'\<lparr>serializers := memory_serializers C\<rparr>"
    using assms(1) by (simp add: W')
  have "rings_ok (w_env W') (lp_server l)"
    using start(2) W' by (intro ring_invariant.reachable [OF assms(3)])
      (simp add: rings_ok_def enter_loop_server global_ring_def local_ring_def)
  moreover have "cache_index (caches_of (lp_server l))"
    using same by (intro cache_invariant.reachable [OF assms(3)])
      (simp add: enter_loop_server cache_index_def)
  moreover have keys: "keys_ok mem_holds (lp_server l)"
    using same by (intro mem_keys.reachable [where W = W' and C = C, folded W'_mem, OF assms(3)])
      (simp add: keys_ok_def stored_held_def enter_loop_server)
  moreover have "reads_pure W (lp_server l)"
    using keys assms(1) by (intro mem_backend.held_reads_pure [of W C])
      (simp_all add: keys_ok_def memory_serializers_ok [of W C])
  ultimately show ?thesis
    by (simp add: W')
qed

definition sample_membership :: ClusterMembership where
  "sample_membership = \<lparr>cm_tiers = [\<lparr>tm_tier_id = MEMORY,
     tm_servers = [\<lparr>srv_public_ip = ''6.6.6.6'', srv_private_ip = ''bb''\<rparr>]\<rparr>]\<rparr>"

lemma stoi_zero: "stoi ''0'' = Inr 0"
proof -
  have "nat_to_string 0 = ''0''"
    by code_simp
  then show ?thesis
    using stoi_nat_to_string [of 0] by simp
qed

lemma sample_starts:
  "\<exists>s. start_thread sample_worker ''7.7.7.7'' (ser_ClusterMembership wire_codec sample_membership) ''0''
     (blank_server empty_mem_store 0 0) = Inr (sample_worker\<lparr>self_join_count := 0\<rparr>, s)"
  by (simp add: start_thread_def ask_seed_def Let_def sample_worker_def stoi_zero)

theorem thread_invariant_witness:
  "\<exists>W' s. start_thread sample_worker ''7.7.7.7'' (ser_ClusterMembership wire_codec sample_membership) ''0''
      (blank_server empty_mem_store 0 0) = Inr (W', s)
    \<and> rings_ok (w_env sample_worker) (lp_server (enter_loop W' s))
    \<and> keys_ok mem_holds (lp_server (enter_loop W' s))"
proof -
  obtain s where s: "start_thread sample_worker ''7.7.7.7'' (ser_ClusterMembership wire_codec sample_membership) ''0''
      (blank_server empty_mem_store 0 0) = Inr (sample_worker\<lparr>self_join_count := 0\<rparr>, s)"
    using sample_starts by blast
  have "serializers sample_worker = memory_serializers wire_codec"
    by (simp add: sample_worker_def)
  from thread_invariant [OF this s thread_reaches.here] s show ?thesis
    by blast
qed

end
