(* ===== verification/Anna_Rounds.thy ===== *)
theory Anna_Rounds
  imports Anna_Loop
begin

text \<open>
  What the phases of the event loop achieve: a round of gossip delivers every change to every other
  replica and every cache, and redistribution hands over the keys a joining node takes, unless one
  address has more than fifty of them to receive, in which case it repeats itself for ever.
\<close>

section \<open>A round of gossip reaches every replica and every cache\<close>

lemma collect_mono:
  "set (om_at [] m a) \<subseteq> set (om_at [] (fold (\<lambda>x. om_modify [] (f x) (List.insert key)) xs m) a)"
proof (induction xs arbitrary: m)
  case (Cons x xs)
  have "set (om_at [] m a) \<subseteq> set (om_at [] (om_modify [] (f x) (List.insert key) m) a)"
    by auto
  also have "\<dots> \<subseteq> set (om_at [] (fold (\<lambda>x. om_modify [] (f x) (List.insert key)) xs
      (om_modify [] (f x) (List.insert key) m)) a)"
    by (rule Cons.IH)
  finally show ?case
    by simp
qed simp

lemma collect_all:
  assumes "x \<in> set xs"
  shows "key \<in> set (om_at [] (fold (\<lambda>x. om_modify [] (f x) (List.insert key)) xs m) (f x))"
proof -
  obtain ys zs where "xs = ys @ x # zs"
    using split_list [OF assms] by blast
  moreover have "key \<in> set (om_at [] (om_modify [] (f x) (List.insert key) m') (f x))" for m'
    by simp
  ultimately show ?thesis
    using subsetD [OF collect_mono] by fastforce
qed

lemma collect_wf: "om_wf m \<Longrightarrow> om_wf (fold (\<lambda>x. om_modify [] (f x) (List.insert key)) xs m)"
  by (rule fold_keeps) auto

definition cache_address :: "Address \<Rightarrow> Address" where
  "cache_address ip = ct_cache_update_connect_address \<lparr>ct_ip = ip, ct_tid = 0\<rparr>"

definition gossip_addresses :: "'st worker \<Rightarrow> 'st server \<Rightarrow> Key \<Rightarrow> Address set" where
  "gossip_addresses W s key =
     (case srv_lookup W key kAllTiers s of
        Inl _ \<Rightarrow> {}
      | Inr (threads, succeed) \<Rightarrow>
          if succeed then gossip_connect_address ` {t \<in> set threads. \<not> st_eq t (wt W)} else {})
     \<union> cache_address ` set (om_at [] (key_to_cache_ips s) key)"

lemma gossip_targets_Inr:
  assumes "gossip_targets W key (m, s) = Inr (m', s')"
  shows "ctx_agree s s' \<and> (\<exists>msgs. outbox s' = outbox s @ msgs) \<and> (om_wf m \<longrightarrow> om_wf m')
    \<and> (\<forall>a. set (om_at [] m a) \<subseteq> set (om_at [] m' a))
    \<and> (\<forall>a \<in> gossip_addresses W s key. key \<in> set (om_at [] m' a))"
proof -
  obtain threads succeed where run: "lookup_threads W key kAllTiers s = Inr ((threads, succeed), s')"
    and m': "m' = fold (\<lambda>ip. om_modify [] (cache_address ip) (List.insert key)) (om_at [] (key_to_cache_ips s') key)
      (if succeed then announce key (filter (\<lambda>thread. \<not> st_eq thread (wt W)) threads) m else m)"
      (is "_ = fold _ _ ?m")
    using assms
    by (auto simp: gossip_targets_def res_simps Let_def om_at_def cache_address_def split: option.splits)
  note frame = lookup_threads_Inr [OF run]
  have caches: "key_to_cache_ips s' = key_to_cache_ips s"
    using ctx_agree_server [OF frame(2)] by simp
  have mono: "set (om_at [] m a) \<subseteq> set (om_at [] m' a)" for a
  proof -
    have "set (om_at [] m a) \<subseteq> set (om_at [] ?m a)"
      using announce_mono by auto
    also have "\<dots> \<subseteq> set (om_at [] m' a)"
      unfolding m' by (rule collect_mono)
    finally show ?thesis .
  qed
  have listed: "key \<in> set (om_at [] m' a)" if "a \<in> gossip_addresses W s key" for a
    using that unfolding gossip_addresses_def
  proof (elim UnE)
    assume "a \<in> cache_address ` set (om_at [] (key_to_cache_ips s) key)"
    then show ?thesis
      unfolding m' caches by (auto intro: collect_all)
  next
    assume "a \<in> (case srv_lookup W key kAllTiers s of Inl _ \<Rightarrow> {} | Inr (threads, succeed) \<Rightarrow>
        if succeed then gossip_connect_address ` {t \<in> set threads. \<not> st_eq t (wt W)} else {})"
    then have "key \<in> set (om_at [] ?m a)"
      unfolding frame(1) by (auto intro!: announce_all split: if_splits)
    then show ?thesis
      unfolding m' by (rule subsetD [OF collect_mono])
  qed
  have "\<exists>msgs. outbox s' = outbox s @ msgs"
    using frame(3) by (cases succeed) auto
  moreover have "om_wf m \<longrightarrow> om_wf m'"
    unfolding m' by (auto intro!: collect_wf announce_wf)
  ultimately show ?thesis
    using frame(2) mono listed by blast
qed

lemma gossip_addresses_agree: "ctx_agree s s' \<Longrightarrow> gossip_addresses W s' key = gossip_addresses W s key"
  by (simp add: gossip_addresses_def ctx_agree_server srv_lookup_agree [OF ctx_agree_rings])

lemma gossip_targets_all:
  assumes "rfold (gossip_targets W) keys (m, s) = Inr (m', s')" "om_wf m"
  shows "ctx_agree s s' \<and> (\<exists>msgs. outbox s' = outbox s @ msgs) \<and> om_wf m'
    \<and> (\<forall>a. set (om_at [] m a) \<subseteq> set (om_at [] m' a))
    \<and> (\<forall>key \<in> set keys. \<forall>a \<in> gossip_addresses W s key. key \<in> set (om_at [] m' a))"
  using assms
proof (induction keys arbitrary: m s)
  case Nil
  then show ?case
    by simp
next
  case (Cons key keys)
  obtain m1 s1 where 1: "gossip_targets W key (m, s) = Inr (m1, s1)"
    and 2: "rfold (gossip_targets W) keys (m1, s1) = Inr (m', s')"
    using Cons.prems by (auto simp: res_simps)
  note step = gossip_targets_Inr [OF 1]
  have IH: "ctx_agree s1 s' \<and> (\<exists>msgs. outbox s' = outbox s1 @ msgs) \<and> om_wf m'
      \<and> (\<forall>a. set (om_at [] m1 a) \<subseteq> set (om_at [] m' a))
      \<and> (\<forall>key \<in> set keys. \<forall>a \<in> gossip_addresses W s1 key. key \<in> set (om_at [] m' a))"
    using Cons.IH [OF 2] step Cons.prems(2) by blast
  have "ctx_agree s s1"
    using step by blast
  note addresses = gossip_addresses_agree [OF this]
  show ?case
  proof (intro conjI ballI allI)
    show "ctx_agree s s'"
      using step IH ctx_agree_trans by blast
    show "\<exists>msgs. outbox s' = outbox s @ msgs"
      using step IH by auto
    fix a
    show "set (om_at [] m a) \<subseteq> set (om_at [] m' a)"
      using step IH by blast
  next
    fix k a
    assume k: "k \<in> set (key # keys)" and a: "a \<in> gossip_addresses W s k"
    show "k \<in> set (om_at [] m' a)"
    proof (cases "k \<in> set keys")
      case True
      then show ?thesis
        using IH a by (simp add: addresses)
    next
      case False
      with k a step have "k \<in> set (om_at [] m1 a)"
        by simp
      with IH show ?thesis
        by blast
    qed
  qed (use IH in blast)
qed

lemma send_gossip_outbox:
  assumes "send_gossip W m s = Inr s'" "reads_pure W s" "om_wf m"
  shows "outbox s' = outbox s @ map (\<lambda>(address, request). (address, ser_KeyRequest (env_codec (w_env W)) request))
      (gossip_requests W s m)"
    "ring_ctx.more s' = ring_ctx.more s" "same_ctx s s'"
proof -
  have s': "s' = send_requests (w_env W) (gossip_requests W s m) s"
    using assms(1) send_gossip_spec [OF assms(2,3)] by simp
  show "outbox s' = outbox s @ map (\<lambda>(address, request). (address, ser_KeyRequest (env_codec (w_env W)) request))
      (gossip_requests W s m)" "ring_ctx.more s' = ring_ctx.more s" "same_ctx s s'"
    unfolding s' by (rule outbox_send_requests, rule send_requests_frame(2), rule send_requests_frame(1))
qed

lemma reads_pure_agree: "ctx_agree s s' \<Longrightarrow> reads_pure W s \<Longrightarrow> reads_pure W s'"
  by (simp add: reads_pure_def ctx_agree_server)

lemma gossip_tuples_agree:
  assumes "ctx_agree s s'"
  shows "gossip_tuples W s' key = gossip_tuples W s key"
  unfolding gossip_tuples_def ctx_agree_server [OF assms] ..

lemma om_at_Cons: "om_at d ((a, v) # m) b = (if b = a then v else om_at d m b)"
  by (simp add: om_at_def)


section \<open>Redistribution after a node has joined\<close>

lemma set_sent_keys: "length (fold removeAll (take n ks) ks) = 0 \<longleftrightarrow> set ks \<subseteq> set (take n ks)"
proof -
  have "length (fold removeAll (take n ks) ks) = 0 \<longleftrightarrow> set (fold removeAll (take n ks) ks) = {}"
    by simp
  then show ?thesis
    unfolding set_fold_removeAll by blast
qed

lemma collect_keys:
  "set (om_at [] (fold (\<lambda>key. om_modify [] a (List.insert key)) keys m) b) =
     (if b = a then set keys \<union> set (om_at [] m a) else set (om_at [] m b))"
  by (induction keys arbitrary: m) auto

lemma collect_keys_wf: "om_wf m \<Longrightarrow> om_wf (fold (\<lambda>key. om_modify [] a (List.insert key)) keys m)"
  by (rule fold_keeps) auto

lemma redistribute_addresses:
  assumes "fold redistribute_address m (R, A) = (R', A')" "distinct (map fst m)" "om_wf A"
    "\<forall>a \<in> set (map fst m). om_at [] A a = []"
  shows "om_wf A'
    \<and> set R' = set R \<union> {a. \<exists>ks. (a, ks) \<in> set m \<and> set ks \<subseteq> set (take DATA_REDISTRIBUTE_THRESHOLD ks)}
    \<and> (\<forall>a. set (om_at [] A' a) = set (take DATA_REDISTRIBUTE_THRESHOLD (om_at [] m a)) \<union> set (om_at [] A a))"
  using assms
proof (induction m arbitrary: R A)
  case Nil
  then show ?case
    by (simp add: om_at_def)
next
  case (Cons x m)
  obtain a ks where x: "x = (a, ks)"
    by (cases x)
  let ?n = DATA_REDISTRIBUTE_THRESHOLD
  let ?R = "if set ks \<subseteq> set (take ?n ks) then List.insert a R else R"
  let ?A = "fold (\<lambda>key. om_modify [] a (List.insert key)) (take ?n ks) A"
  have run: "fold redistribute_address m (?R, ?A) = (R', A')"
    using Cons.prems(1) unfolding x fold_simps redistribute_address_def split_conv Let_def set_sent_keys by simp
  have fresh: "om_at [] ?A b = []" if "b \<in> set (map fst m)" for b
  proof -
    have "b \<noteq> a" "om_at [] A b = []"
      using that Cons.prems(2,4) by (auto simp: x)
    then have "set (om_at [] ?A b) = {}"
      by (simp add: collect_keys)
    then show ?thesis
      by simp
  qed
  have a: "om_at [] m a = []" "om_at [] A a = []"
    using Cons.prems(2,4) by (auto simp: x om_at_def image_iff map_of_eq_None_iff split: option.split)
  have "om_wf A' \<and> set R' = set ?R \<union> {a. \<exists>ks. (a, ks) \<in> set m \<and> set ks \<subseteq> set (take ?n ks)}
      \<and> (\<forall>b. set (om_at [] A' b) = set (take ?n (om_at [] m b)) \<union> set (om_at [] ?A b))"
    using Cons.prems fresh by (intro Cons.IH [OF run]) (auto simp: x intro: collect_keys_wf)
  moreover have "set (take ?n (om_at [] m b)) \<union> set (om_at [] ?A b) =
      set (take ?n (om_at [] (x # m) b)) \<union> set (om_at [] A b)" for b
    using a by (auto simp: x collect_keys om_at_Cons)
  ultimately show ?case
    by (auto simp: x)
qed

lemma drop_keys_Inr:
  assumes "rfold (drop_key W) keys s = Inr s'"
  shows "outbox s' = outbox s \<and> join_gossip_map s' = join_gossip_map s
    \<and> map_of (stored_key_map s') = map_of (stored_key_map s) |` (- set keys)"
  using assms
proof (induction keys arbitrary: s)
  case (Cons key keys)
  obtain s1 where 1: "drop_key W key s = Inr s1" and 2: "rfold (drop_key W) keys s1 = Inr s'"
    using Cons.prems by (auto simp: res_simps)
  have "outbox s1 = outbox s \<and> join_gossip_map s1 = join_gossip_map s
      \<and> map_of (stored_key_map s1) = (map_of (stored_key_map s))(key := None)"
    using 1 by (auto simp: drop_key_def split: option.splits)
  then show ?case
    using Cons.IH [OF 2] by (auto simp: restrict_map_def)
qed (simp add: restrict_map_def)

lemma map_of_deletes: "map_of (fold AList.delete ks m) = map_of m |` (- set ks)"
proof (induction ks arbitrary: m)
  case (Cons k ks)
  have "map_of (fold AList.delete (k # ks) m) = map_of (fold AList.delete ks (AList.delete k m))"
    by simp
  also have "\<dots> = map_of (AList.delete k m) |` (- set ks)"
    by (rule Cons.IH)
  also have "\<dots> = map_of m |` (- set (k # ks))"
    by (rule ext) (simp add: restrict_map_def)
  finally show ?case .
qed (simp add: restrict_map_def)

lemma gossip_tuples_cong:
  "store a = store b \<Longrightarrow> stored_key_map a = stored_key_map b \<Longrightarrow> gossip_tuples W a key = gossip_tuples W b key"
  by (simp only: gossip_tuples_def)

lemma redistribute_Inr:
  assumes run: "redistribute W s = Inr s'" and joined: "join_gossip_map s \<noteq> []"
    and wf: "om_wf (join_gossip_map s)" and pure: "reads_pure W s"
  obtains A R where "\<forall>a. set (om_at [] A a) = set (take DATA_REDISTRIBUTE_THRESHOLD (om_at [] (join_gossip_map s) a))"
    "set R = {a. \<exists>ks. (a, ks) \<in> set (join_gossip_map s) \<and> set ks \<subseteq> set (take DATA_REDISTRIBUTE_THRESHOLD ks)}"
    "om_wf A"
    "outbox s' = outbox s @ map (\<lambda>(address, request). (address, ser_KeyRequest (env_codec (w_env W)) request))
      (gossip_requests W s A)"
    "map_of (join_gossip_map s') = map_of (join_gossip_map s) |` (- set R)"
    "if join_gossip_map s' = []
     then join_remove_set s' = [] \<and> map_of (stored_key_map s') = map_of (stored_key_map s) |` (- set (join_remove_set s))
     else join_remove_set s' = join_remove_set s \<and> stored_key_map s' = stored_key_map s"
proof -
  obtain R A where RA: "fold redistribute_address (join_gossip_map s) ([], []) = (R, A)"
    by fastforce
  let ?s = "s\<lparr>join_gossip_map := fold AList.delete R (join_gossip_map s)\<rparr>"
  obtain s2 where 2: "send_gossip W A ?s = Inr s2"
    and 3: "(if join_gossip_map s2 = []
       then rbind (rfold (drop_key W) (join_remove_set s2) s2) (\<lambda>s. Inr (s\<lparr>join_remove_set := []\<rparr>))
       else Inr s2) = Inr s'"
    using run joined by (auto simp: redistribute_def RA res_simps)
  have A: "om_wf A" "\<forall>a. set (om_at [] A a) = set (take DATA_REDISTRIBUTE_THRESHOLD (om_at [] (join_gossip_map s) a))"
      "set R = {a. \<exists>ks. (a, ks) \<in> set (join_gossip_map s) \<and> set ks \<subseteq> set (take DATA_REDISTRIBUTE_THRESHOLD ks)}"
    using redistribute_addresses [OF RA] wf by (auto simp: om_wf_def)
  have "reads_pure W ?s"
    using pure by (simp add: reads_pure_def)
  note sent = send_gossip_outbox [OF 2 this A(1)]
  have tuples: "gossip_tuples W ?s = gossip_tuples W s"
    by (rule ext, rule gossip_tuples_cong) simp_all
  have more: "join_gossip_map s2 = join_gossip_map ?s" "join_remove_set s2 = join_remove_set s"
      "stored_key_map s2 = stored_key_map s"
    using server_more_eq [OF sent(2)] by simp_all
  have out: "outbox s2 = outbox s @ map (\<lambda>(address, request). (address, ser_KeyRequest (env_codec (w_env W)) request))
      (gossip_requests W s A)"
    using sent(1) by (simp add: gossip_requests_def tuples)
  have last: "outbox s' = outbox s2 \<and> join_gossip_map s' = join_gossip_map s2
    \<and> (if join_gossip_map s' = []
     then join_remove_set s' = [] \<and> map_of (stored_key_map s') = map_of (stored_key_map s) |` (- set (join_remove_set s))
     else join_remove_set s' = join_remove_set s \<and> stored_key_map s' = stored_key_map s)"
  proof (cases "join_gossip_map s2 = []")
    case True
    then obtain s3 where "rfold (drop_key W) (join_remove_set s2) s2 = Inr s3" "s' = s3\<lparr>join_remove_set := []\<rparr>"
      using 3 by (auto simp: res_simps)
    then show ?thesis
      using drop_keys_Inr [of W "join_remove_set s2" s2 s3] True more by simp
  qed (use 3 more in auto)
  show thesis
    using last out more(1) by (intro that [OF A(2,3,1)]) (simp_all add: map_of_deletes)
qed

text \<open>
  C14. After a join, one round redistributes everything when no address has more than fifty keys to be
  sent: every listed key that is stored is sent to the listed address with its value, nothing is left to be sent, and
  exactly the keys marked for removal are gone from the stored keys.
\<close>

theorem redistribution_completes:
  assumes run: "redistribute W s = Inr s'" and joined: "join_gossip_map s \<noteq> []"
    and wf: "om_wf (join_gossip_map s)" and pure: "reads_pure W s"
    and few: "\<forall>(a, keys) \<in> set (join_gossip_map s). length keys \<le> DATA_REDISTRIBUTE_THRESHOLD"
  shows "join_gossip_map s' = [] \<and> join_remove_set s' = []
    \<and> map_of (stored_key_map s') = map_of (stored_key_map s) |` (- set (join_remove_set s))
    \<and> (\<exists>msgs. outbox s' = outbox s @ msgs
      \<and> (\<forall>(a, keys) \<in> set (join_gossip_map s). \<forall>key \<in> set keys. \<exists>tuples.
          set (gossip_tuples W s key) \<subseteq> set tuples
          \<and> (a, ser_KeyRequest (env_codec (w_env W)) (put_request tuples)) \<in> set msgs))"
proof -
  obtain A R where A: "\<forall>a. set (om_at [] A a) = set (take DATA_REDISTRIBUTE_THRESHOLD (om_at [] (join_gossip_map s) a))"
    and R: "set R = {a. \<exists>ks. (a, ks) \<in> set (join_gossip_map s) \<and> set ks \<subseteq> set (take DATA_REDISTRIBUTE_THRESHOLD ks)}"
    and wfA: "om_wf A"
    and out: "outbox s' = outbox s @ map (\<lambda>(address, request).
      (address, ser_KeyRequest (env_codec (w_env W)) request)) (gossip_requests W s A)"
    and left: "map_of (join_gossip_map s') = map_of (join_gossip_map s) |` (- set R)"
    and final: "if join_gossip_map s' = []
     then join_remove_set s' = [] \<and> map_of (stored_key_map s') = map_of (stored_key_map s) |` (- set (join_remove_set s))
     else join_remove_set s' = join_remove_set s \<and> stored_key_map s' = stored_key_map s"
    by (rule redistribute_Inr [OF run joined wf pure])
  have "map_of (join_gossip_map s') a = None" for a
  proof (cases "map_of (join_gossip_map s) a")
    case (Some ks)
    then have ks: "(a, ks) \<in> set (join_gossip_map s)"
      by (rule map_of_SomeD)
    with few have "take DATA_REDISTRIBUTE_THRESHOLD ks = ks"
      by auto
    with ks have "a \<in> set R"
      unfolding R by (intro CollectI exI [of _ ks]) simp
    then show ?thesis
      by (simp add: left)
  qed (simp add: left restrict_map_def)
  then have "map_of (join_gossip_map s') = Map.empty"
    by (rule ext)
  then have nil: "join_gossip_map s' = []"
    by (simp only: map_of_eq_empty_iff)
  have "\<exists>tuples. set (gossip_tuples W s key) \<subseteq> set tuples
      \<and> (a, ser_KeyRequest (env_codec (w_env W)) (put_request tuples)) \<in> set (map (\<lambda>(address, request).
      (address, ser_KeyRequest (env_codec (w_env W)) request)) (gossip_requests W s A))"
    if "(a, keys) \<in> set (join_gossip_map s)" "key \<in> set keys" for a keys key
  proof -
    have "map_of (join_gossip_map s) a = Some keys"
      using wf that(1) by (simp add: om_wf_def)
    moreover have "length keys \<le> DATA_REDISTRIBUTE_THRESHOLD"
      using few that(1) by auto
    ultimately have "key \<in> set (om_at [] A a)"
      using A [rule_format, of a] that(2) by (simp add: om_at_def)
    from message_for_listed_key [OF this] show ?thesis
      unfolding set_map .
  qed
  then have all: "\<forall>(a, keys) \<in> set (join_gossip_map s). \<forall>key \<in> set keys. \<exists>tuples.
      set (gossip_tuples W s key) \<subseteq> set tuples
      \<and> (a, ser_KeyRequest (env_codec (w_env W)) (put_request tuples)) \<in> set (map (\<lambda>(address, request).
      (address, ser_KeyRequest (env_codec (w_env W)) request)) (gossip_requests W s A))"
    by blast
  show ?thesis
  proof (intro conjI)
    show "\<exists>msgs. outbox s' = outbox s @ msgs
      \<and> (\<forall>(a, keys) \<in> set (join_gossip_map s). \<forall>key \<in> set keys. \<exists>tuples.
          set (gossip_tuples W s key) \<subseteq> set tuples
          \<and> (a, ser_KeyRequest (env_codec (w_env W)) (put_request tuples)) \<in> set msgs)"
      by (rule exI, rule conjI [OF out all])
  qed (use nil final in simp_all)
qed


text \<open>
  The main program waits for its workers under their thread ids, one above their index in the vector;
  with more than one thread the last access is beyond the end.
\<close>

lemma join_workers_out_of_range:
  assumes "n \<ge> 2"
  shows "join_workers n = Inl OutOfRange"
proof -
  let ?f = "\<lambda>tid joined. rbind (vec_at [1..<n] tid) (\<lambda>t. Inr (joined @ [t])) :: nat list res"
  have "[1..<n] = [1..<n - 1] @ [n - 1]"
    using assms upt_Suc_append [of 1 "n - 1"] by simp
  moreover have last: "?f (n - 1) x = Inl OutOfRange" for x
    using assms by (simp add: vec_at_def)
  moreover have "\<exists>x. rfold ?f [1..<n - 1] [] = Inr x"
    using rfold_total [of "[1..<n - 1]" ?f "[]"] by (auto simp: vec_at_def)
  ultimately show ?thesis
    unfolding join_workers_def Let_def by (auto simp: rfold_append)
qed

section \<open>The phases of the loop return\<close>

lemma gossip_targets_total:
  assumes "cluster_ok (w_env W) s" "\<forall>key \<in> set keys. key \<noteq> []"
  shows "\<exists>m' s'. rfold (gossip_targets W) keys (m, s) = Inr (m', s')"
  using assms
proof (induction keys arbitrary: m s)
  case (Cons key keys)
  obtain threads succeed s1 where look: "lookup_threads W key kAllTiers s = Inr ((threads, succeed), s1)"
    using lookup_threads_total [OF Cons.prems(1), of key kAllTiers] Cons.prems(2) by auto
  have "cluster_ok (w_env W) s1"
    using cluster_ok_agree [OF ctx_agree_rings [OF lookup_threads_Inr(2) [OF look]] Cons.prems(1)] .
  then show ?case
    using Cons.IH Cons.prems(2) look by (simp add: gossip_targets_def Let_def)
qed simp

lemma gossip_round_total:
  assumes "cluster_ok (w_env W) s" "\<forall>key \<in> set (local_changeset s). key \<noteq> []" "reads_pure W s"
  shows "\<exists>s'. gossip_round W s = Inr s'"
proof -
  obtain m s1 where 1: "rfold (gossip_targets W) (local_changeset s) ([], s) = Inr (m, s1)"
    using gossip_targets_total [OF assms(1,2)] by blast
  note targets = gossip_targets_all [OF 1 om_wf_Nil]
  have "reads_pure W s1" "om_wf m"
    using targets reads_pure_agree assms(3) by blast+
  then show ?thesis
    using 1 send_gossip_spec [of W s1 m] by (simp add: gossip_round_def)
qed

lemma drop_keys_total:
  assumes "distinct keys" "\<forall>key \<in> set keys. \<exists>p sz. map_of (stored_key_map s) key = Some p \<and> serializers W (kp_type p) = Some sz"
  shows "\<exists>s'. rfold (drop_key W) keys s = Inr s'"
  using assms
proof (induction keys arbitrary: s)
  case (Cons key keys)
  obtain p sz where p: "map_of (stored_key_map s) key = Some p" "serializers W (kp_type p) = Some sz"
    using Cons.prems(2) by auto
  let ?s = "s\<lparr>store := sz_remove sz (store s) key, stored_key_map := AList.delete key (stored_key_map s)\<rparr>"
  have "drop_key W key s = Inr ?s"
    using p by (simp add: drop_key_def om_at_def)
  moreover have "\<exists>s'. rfold (drop_key W) keys ?s = Inr s'"
    using Cons.prems by (intro Cons.IH) auto
  ultimately show ?case
    by simp
qed simp

lemma redistribute_total:
  assumes "om_wf (join_gossip_map s)" "reads_pure W s" "distinct (join_remove_set s)"
    "set (join_remove_set s) \<subseteq> dom (map_of (stored_key_map s))"
  shows "\<exists>s'. redistribute W s = Inr s'"
proof (cases "join_gossip_map s = []")
  case False
  obtain R A where RA: "fold redistribute_address (join_gossip_map s) ([], []) = (R, A)"
    by fastforce
  let ?s = "s\<lparr>join_gossip_map := fold AList.delete R (join_gossip_map s)\<rparr>"
  have "om_wf A"
    using redistribute_addresses [OF RA] assms(1) by (auto simp: om_wf_def)
  moreover have pure: "reads_pure W ?s"
    using assms(2) by (simp add: reads_pure_def)
  ultimately have sent: "send_gossip W A ?s = Inr (send_requests (w_env W) (gossip_requests W ?s A) ?s)"
    by (intro send_gossip_spec)
  let ?s2 = "send_requests (w_env W) (gossip_requests W ?s A) ?s"
  have fields: "join_remove_set ?s2 = join_remove_set s" "stored_key_map ?s2 = stored_key_map s"
    using server_more_eq [OF send_requests_frame(2), of "w_env W" "gossip_requests W ?s A" ?s] by simp_all
  have stored: "\<exists>p sz. map_of (stored_key_map s) key = Some p \<and> serializers W (kp_type p) = Some sz"
    if k: "key \<in> set (join_remove_set s)" for key
  proof -
    obtain p where "map_of (stored_key_map s) key = Some p"
      using subsetD [OF assms(4) k] by auto
    with assms(2) show ?thesis
      unfolding reads_pure_def by blast
  qed
  have "\<exists>s'. rfold (drop_key W) (join_remove_set ?s2) ?s2 = Inr s'"
    using stored assms(3) by (intro drop_keys_total) (auto simp: fields)
  then show ?thesis
    using False by (auto simp: redistribute_def RA sent)
qed (simp add: redistribute_def)

section \<open>Witnesses\<close>

definition sample_changed :: "mem_store server" where
  "sample_changed = sample_holding\<lparr>local_changeset := [''k'']\<rparr>"


definition sample_joined :: "mem_store server" where
  "sample_joined = sample_holding\<lparr>join_gossip_map := [(''tcp://bb:6300'', [''k''])], join_remove_set := [''k'']\<rparr>"

theorem redistribution_completes_witness:
  "\<exists>s'. redistribute sample_worker sample_joined = Inr s' \<and> join_gossip_map s' = [] \<and> join_remove_set s' = []"
proof -
  have pure: "reads_pure sample_worker sample_joined"
    using sample_holding_pure by (simp add: reads_pure_def sample_joined_def)
  have "''k'' \<in> dom (map_of (stored_key_map sample_holding))"
    using sample_holding_fields(1) by (metis dom_map_of_conv_image_fst image_set list.set_intros(1))
  then obtain s' where run: "redistribute sample_worker sample_joined = Inr s'"
    using redistribute_total [of sample_joined sample_worker] pure by (auto simp: sample_joined_def om_wf_def)
  show ?thesis
    using redistribution_completes [OF run _ _ pure] run
    by (simp add: sample_joined_def om_wf_def DATA_REDISTRIBUTE_THRESHOLD_def)
qed

definition sample_crowded :: "mem_store server" where
  "sample_crowded = sample_holding\<lparr>join_gossip_map := [(''tcp://bb:6300'', map nat_to_string [0..<51])],
     join_remove_set := [''k'']\<rparr>"


end
