(* ===== verification/Anna_Route.thy ===== *)
theory Anna_Route
  imports Anna_Rounds
begin

text \<open>
  The routing tier: \<^verbatim>\<open>src/src/route/\<close>. A routing thread tells clients which server threads serve a
  key, keeps the global rings up to date as servers join and depart, and answers the seed requests
  of starting servers. It is modelled whole: the five handlers, the start of the thread with its
  local rings, and one round of its loop with the five sockets in the order the code polls them.
  The lemmas give the result of every lookup as a function of rings and factors (\<open>routed\<close>), show
  that the handlers always return in a working cluster, and that no waiting client is forgotten.
\<close>

section \<open>State\<close>

record router_conf =
  ro_env :: env
  ro_thread :: RoutingThread
  ro_thread_id :: u32
  ro_ip :: Address
  ro_monitoring_ips :: "Address list"
  kRoutingThreadCount :: u32

record router = ring_ctx +
  address_requests :: "(Key, (Address \<times> string) list) omap"

section \<open>Handlers\<close>

primrec tiers_threads ::
    "router_conf \<Rightarrow> Key \<Rightarrow> bool \<Rightarrow> Tier list \<Rightarrow> router \<Rightarrow> ((ServerThread list \<times> bool) \<times> router) res" where
  "tiers_threads R key metadata [] s = Inr (([], True), s)"
| "tiers_threads R key metadata (tier # tiers) s =
     rbind (get_responsible_threads (ro_env R) (rt_replication_response_connect_address (ro_thread R))
          key metadata [tier] s)
       (\<lambda>((threads, succeed), s).
          if length threads > 0 then Inr ((threads, True), s)
          else if \<not> succeed then Inr (([], False), s)
          else tiers_threads R key metadata tiers s)"

definition key_address :: "Key \<Rightarrow> ServerThread list \<Rightarrow> KeyAddress" where
  "key_address key threads = \<lparr>ka_key = key, ka_ips = map key_request_connect_address threads\<rparr>"

definition valid_key_threads ::
    "router_conf \<Rightarrow> Key \<Rightarrow> router \<Rightarrow> ((ServerThread list \<times> bool) \<times> router) res" where
  "valid_key_threads R key s =
     (if length key > 0
      then rbind (is_metadata key) (\<lambda>metadata. tiers_threads R key metadata kAllTiers s)
      else Inr (([], True), s))"

text \<open>The result has no response when the handler returns early.\<close>

primrec address_keys ::
    "router_conf \<Rightarrow> KeyAddressRequest \<Rightarrow> Key list \<Rightarrow> KeyAddressResponse \<Rightarrow> router
      \<Rightarrow> (KeyAddressResponse option \<times> router) res" where
  "address_keys R request [] response s = Inr (Some response, s)"
| "address_keys R request (key # keys) response s =
     rbind (valid_key_threads R key s)
       (\<lambda>((threads, succeed), s).
          if \<not> succeed
          then Inr (None, s\<lparr>address_requests := om_modify [] key
                 (\<lambda>rs. rs @ [(aq_response_address request, aq_request_id request)]) (address_requests s)\<rparr>)
          else address_keys R request keys
                 (response\<lparr>ar_addresses := ar_addresses response @ [key_address key threads]\<rparr>) s)"

definition num_servers :: "router \<Rightarrow> nat" where
  "num_servers s = sum_list (map (\<lambda>(tier, ring). chm_size (hr_nodes ring)) (global_hash_rings s))"

definition address_handler :: "router_conf \<Rightarrow> string \<Rightarrow> router \<Rightarrow> router res" where
  "address_handler R serialized s =
     (let C = env_codec (ro_env R);
          request = snd (parse_KeyAddressRequest C serialized);
          response = empty_KeyAddressResponse\<lparr>ar_response_id := aq_request_id request\<rparr>
      in if num_servers s = 0
         then Inr (send_string (ser_KeyAddressResponse C (response\<lparr>ar_error := NO_SERVERS,
                ar_addresses := map (\<lambda>key. key_address key []) (aq_keys request)\<rparr>))
                (aq_response_address request) s)
         else rbind (address_keys R request (aq_keys request) response s)
                (\<lambda>(response, s). Inr (case response of
                     None \<Rightarrow> s
                   | Some response \<Rightarrow>
                       if aq_keys request \<noteq> []
                       then send_string (ser_KeyAddressResponse C response) (aq_response_address request) s
                       else s)))"

definition tell_workers :: "router_conf \<Rightarrow> (RoutingThread \<Rightarrow> Address) \<Rightarrow> string \<Rightarrow> router \<Rightarrow> router" where
  "tell_workers R address serialized s =
     fold (\<lambda>tid. send_string serialized (address \<lparr>rt_ip = ro_ip R, rt_tid = of_nat tid\<rparr>))
       [1..<unat (kRoutingThreadCount R)] s"

definition tier_read :: "Tier option \<Rightarrow> Tier res" where
  "tier_read tier = (case tier of None \<Rightarrow> Inl Uninitialised | Some tier \<Rightarrow> Inr tier)"

definition router_join :: "router_conf \<Rightarrow> string \<Rightarrow> string list \<Rightarrow> Tier option \<Rightarrow> router \<Rightarrow> router res" where
  "router_join R serialized v parsed_tier s =
     rbind (vec_at v 4) (\<lambda>count. rbind (stoi count) (\<lambda>join_count. rbind (tier_read parsed_tier) (\<lambda>tier.
       let new_public = v ! 2; new_private = v ! 3;
           (inserted, ring) = hr_insert (GlobalHasher (env_hash (ro_env R))) new_public new_private join_count 0
             (global_ring tier s);
           s = set_global_ring tier ring s
       in Inr (if inserted \<and> ro_thread_id R = 0
               then let msg = v ! 1 @ '':'' @ new_public @ '':'' @ new_private @ '':'' @ count;
                        others = filter (\<lambda>st. st_private_ip st \<noteq> new_private) (all_servers s);
                        s = fold (\<lambda>st. send_string msg (node_join_connect_address st)) others s
                    in tell_workers R rt_notify_connect_address serialized s
               else s))))"

definition router_depart :: "router_conf \<Rightarrow> string \<Rightarrow> string list \<Rightarrow> Tier option \<Rightarrow> router \<Rightarrow> router res" where
  "router_depart R serialized v parsed_tier s =
     rbind (tier_read parsed_tier) (\<lambda>tier.
       let s = set_global_ring tier (hr_remove (GlobalHasher (env_hash (ro_env R))) (v ! 2) (v ! 3) 0
                 (global_ring tier s)) s;
           s = (if ro_thread_id R = 0 then tell_workers R rt_notify_connect_address serialized s else s)
       in Inr (fold touch_global_ring kAllTiers s))"

definition membership_handler :: "router_conf \<Rightarrow> string \<Rightarrow> router \<Rightarrow> router res" where
  "membership_handler R serialized s =
     (let v = split serialized CHR '':''
      in if length v < 4 then Inl OutOfRange
         else if v ! 0 = ''join'' then router_join R serialized v (Tier_Parse (v ! 1)) s
         else if v ! 0 = ''depart'' then router_depart R serialized v (Tier_Parse (v ! 1)) s
         else Inr s)"

definition routing_replication_change_handler :: "router_conf \<Rightarrow> string \<Rightarrow> router \<Rightarrow> router" where
  "routing_replication_change_handler R serialized s =
     (let s = (if ro_thread_id R = 0
               then tell_workers R rt_replication_change_connect_address serialized s else s);
          update = snd (parse_ReplicationFactorUpdate (env_codec (ro_env R)) serialized)
      in fold (\<lambda>key_rep s. s\<lparr>key_replication_map := set_factors key_rep (rf_key key_rep) (key_replication_map s)\<rparr>)
           (rfu_updates update) s)"

definition answer_address_request ::
    "router_conf \<Rightarrow> Key \<Rightarrow> ServerThread list \<Rightarrow> Address \<times> string \<Rightarrow> router \<Rightarrow> router" where
  "answer_address_request R key threads = (\<lambda>(address, response_id).
     send_string (ser_KeyAddressResponse (env_codec (ro_env R))
       (empty_KeyAddressResponse\<lparr>ar_response_id := response_id, ar_addresses := [key_address key threads]\<rparr>)) address)"

definition serve_address_requests :: "router_conf \<Rightarrow> Key \<Rightarrow> router \<Rightarrow> router res" where
  "serve_address_requests R key s =
     (case map_of (address_requests s) key of
        None \<Rightarrow> Inr s
      | Some requests \<Rightarrow>
          rbind (tiers_threads R key False kAllTiers s)
            (\<lambda>((threads, succeed), s).
               if \<not> succeed then Inr s
               else let s = fold (answer_address_request R key threads) requests s
                    in Inr (s\<lparr>address_requests := AList.delete key (address_requests s)\<rparr>)))"

definition routing_replication_response_handler :: "router_conf \<Rightarrow> string \<Rightarrow> router \<Rightarrow> router res" where
  "routing_replication_response_handler R serialized s =
     (let E = ro_env R; response = snd (parse_KeyResponse (env_codec E) serialized)
      in rbind (vec_at (rs_tuples response) 0)
           (\<lambda>tuple.
              let key = get_key_from_metadata (kt_key tuple); error = kt_error tuple
              in if error = NO_ERROR \<or> error = KEY_DNE
                 then serve_address_requests R key
                   (s\<lparr>key_replication_map := learn_factors E tuple (key_replication_map s)\<rparr>)
                 else if error = WRONG_THREAD
                 then issue_replication_factor_request E (rt_replication_response_connect_address (ro_thread R)) key
                   (global_ring MEMORY s) (local_ring MEMORY s) (touch_local_ring MEMORY (touch_global_ring MEMORY s))
                 else Inr s))"

definition seed_handler :: "codec \<Rightarrow> 'a ring_ctx_scheme \<Rightarrow> string" where
  "seed_handler C s = ser_ClusterMembership C \<lparr>cm_tiers = map (\<lambda>(tid, hash_ring).
     \<lparr>tm_tier_id = tid, tm_servers = map (\<lambda>st. \<lparr>srv_public_ip = st_public_ip st, srv_private_ip = st_private_ip st\<rparr>)
        (hr_unique_servers hash_ring)\<rparr>) (global_hash_rings s)\<rparr>"

section \<open>The routing process\<close>

definition start_router :: "router_conf \<Rightarrow> u32 \<Rightarrow> router" where
  "start_router R sd =
     (let s = \<lparr>global_hash_rings = [], local_hash_rings = [], key_replication_map = [], seed = sd, rand_state = 0,
            outbox = [], address_requests = []\<rparr>;
          msg = ''join:'' @ Tier_Name ROUTING @ '':'' @ ro_ip R @ '':NULL'';
          s = (if ro_thread_id R = 0
               then fold (\<lambda>address. send_string msg (mt_notify_connect_address \<lparr>mt_ip = address\<rparr>))
                 (ro_monitoring_ips R) s else s)
      in form_local_rings (ro_env R) (ro_ip R) (ro_ip R) s)"

record router_polled =
  ri_seed :: "string option"
  ri_notify :: "string option"
  ri_replication_response :: "string option"
  ri_replication_change :: "string option"
  ri_key_address :: "string option"

definition on_input :: "(string \<Rightarrow> 's \<Rightarrow> 's res) \<Rightarrow> string option \<Rightarrow> 's \<Rightarrow> 's res" where
  "on_input handler message s = (case message of None \<Rightarrow> Inr s | Some serialized \<Rightarrow> handler serialized s)"

text \<open>The reply to a seed request goes back over the socket it came from, named by the address it is bound to.\<close>

definition routing_round :: "router_conf \<Rightarrow> router_polled \<Rightarrow> router \<Rightarrow> router res" where
  "routing_round R p s =
     rbind (on_input (\<lambda>_ s. Inr (send_string (seed_handler (env_codec (ro_env R)) s)
          (rt_seed_bind_address (ro_thread R)) s)) (ri_seed p) s) (\<lambda>s.
     rbind (on_input (membership_handler R) (ri_notify p) s) (\<lambda>s.
     rbind (on_input (routing_replication_response_handler R) (ri_replication_response p) s) (\<lambda>s.
     rbind (on_input (\<lambda>m s. Inr (routing_replication_change_handler R m s)) (ri_replication_change p) s) (\<lambda>s.
     on_input (address_handler R) (ri_key_address p) s))))"

definition routing_tier_metadata :: "server_conf \<Rightarrow> env \<Rightarrow> env" where
  "routing_tier_metadata cf E = E\<lparr>kDefaultLocalReplication := cf_local_replication cf,
     kTierMetadata := [(MEMORY, \<lparr>tmd_id = MEMORY, tmd_thread_number = cf_memory_threads cf,
              tmd_default_replication = cf_memory_replication cf,
              tmd_node_capacity = ucast (cf_memory_cap cf * 1000000)\<rparr>),
            (DISK, \<lparr>tmd_id = DISK, tmd_thread_number = cf_ebs_threads cf,
              tmd_default_replication = cf_ebs_replication cf,
              tmd_node_capacity = ucast (cf_ebs_cap cf * 1000000)\<rparr>)]\<rparr>"

section \<open>Answering address requests\<close>

text \<open>The threads of the first tier that has some, as a function of the rings and factors alone.\<close>

primrec first_tier :: "env \<Rightarrow> Key \<Rightarrow> bool \<Rightarrow> Tier list \<Rightarrow> 'a ring_ctx_scheme \<Rightarrow> (ServerThread list \<times> bool) res" where
  "first_tier E key metadata [] s = Inr ([], True)"
| "first_tier E key metadata (tier # tiers) s =
     rbind (lookup E key metadata [tier] s)
       (\<lambda>(threads, succeed). if threads \<noteq> [] then Inr (threads, True)
          else if \<not> succeed then Inr ([], False) else first_tier E key metadata tiers s)"

definition routed :: "env \<Rightarrow> Key \<Rightarrow> 'a ring_ctx_scheme \<Rightarrow> (ServerThread list \<times> bool) res" where
  "routed E key s = (if key = [] then Inr ([], True)
     else rbind (is_metadata key) (\<lambda>m. first_tier E key m kAllTiers s))"

lemma first_tier_agree: "rings_agree a b \<Longrightarrow> first_tier E key m tiers b = first_tier E key m tiers a"
  by (induction tiers) (simp_all add: lookup_agree cong: if_cong)

lemma routed_agree: "rings_agree a b \<Longrightarrow> routed E key b = routed E key a"
  by (simp add: routed_def first_tier_agree cong: if_cong)

lemma first_tier_total: "cluster_ok E s \<Longrightarrow> \<exists>ts succeed. first_tier E key m tiers s = Inr (ts, succeed)"
proof (induction tiers)
  case (Cons tier tiers)
  then obtain r where "lookup E key m [tier] s = Inr r"
    using lookup_total by blast
  with Cons show ?case
    by (cases r) auto
qed auto

lemma routed_total: "cluster_ok E s \<Longrightarrow> \<exists>ts succeed. routed E key s = Inr (ts, succeed)"
  using first_tier_total [of E s key _ kAllTiers] is_metadata_total [of key] by (cases "key = []") (auto simp: routed_def)

definition looked_up :: "router \<Rightarrow> router \<Rightarrow> bool \<Rightarrow> bool" where
  "looked_up s s' succeed \<longleftrightarrow> ctx_agree s s'
     \<and> (if succeed then outbox s' = outbox s else \<exists>m. outbox s' = outbox s @ [m])"

lemma looked_up_refl [simp]: "looked_up s s True"
  by (simp add: looked_up_def)

lemma looked_up_trans: "looked_up a b True \<Longrightarrow> looked_up b c succeed \<Longrightarrow> looked_up a c succeed"
  by (auto simp: looked_up_def intro: ctx_agree_trans)

lemma looked_up_rings: "looked_up a b succeed \<Longrightarrow> rings_agree a b"
  by (simp add: looked_up_def ctx_agree_rings)

lemma router_more_eq: "ring_ctx.more x = ring_ctx.more y \<Longrightarrow> address_requests x = address_requests (y :: router)"
  by (cases x; cases y) simp

lemma looked_up_pending: "looked_up a b succeed \<Longrightarrow> address_requests b = address_requests a"
  by (rule router_more_eq) (simp add: looked_up_def ctx_agree_def)

lemma tiers_threads_spec:
  "rbind (tiers_threads R key m tiers s) (\<lambda>(r, s'). Inr r) = first_tier (ro_env R) key m tiers s
   \<and> (\<forall>ts succeed s'. tiers_threads R key m tiers s = Inr ((ts, succeed), s') \<longrightarrow> looked_up s s' succeed)"
proof (induction tiers arbitrary: s)
  case (Cons tier tiers)
  let ?get = "get_responsible_threads (ro_env R) (rt_replication_response_connect_address (ro_thread R))
    key m [tier] s"
  have L: "rbind ?get (\<lambda>(r, ctx'). Inr r) = lookup (ro_env R) key m [tier] s"
    by (rule get_responsible_threads_lookup)
  show ?case
  proof (cases ?get)
    case (Inl e)
    then have "lookup (ro_env R) key m [tier] s = Inl e"
      using L by simp
    with Inl show ?thesis
      by simp
  next
    case (Inr r)
    obtain ts succeed s1 where r: "r = ((ts, succeed), s1)"
      by (cases r) auto
    have look: "lookup (ro_env R) key m [tier] s = Inr (ts, succeed)"
      using L by (simp add: Inr r)
    have up: "looked_up s s1 succeed" and none: "\<not> succeed \<Longrightarrow> ts = []"
      using get_responsible_threads_frame [OF Inr [unfolded r]] by (auto simp: looked_up_def split: if_splits)
    have agree: "first_tier (ro_env R) key m tiers s1 = first_tier (ro_env R) key m tiers s"
      using up by (intro first_tier_agree looked_up_rings)
    show ?thesis
      using Cons.IH [of s1] up none
      by (cases succeed; cases "ts = []") (auto simp: Inr r look agree intro: looked_up_trans)
  qed
qed simp

lemma tiers_threads_Inr:
  assumes "tiers_threads R key m tiers s = Inr ((ts, succeed), s')"
  shows "first_tier (ro_env R) key m tiers s = Inr (ts, succeed)" "looked_up s s' succeed"
  using tiers_threads_spec [of R key m tiers s] assms by auto

lemma tiers_threads_total:
  assumes "first_tier (ro_env R) key m tiers s = Inr r"
  shows "\<exists>s'. tiers_threads R key m tiers s = Inr (r, s')"
  using tiers_threads_spec [of R key m tiers s] assms by (auto simp: res_simps)

lemma valid_key_threads_spec:
  assumes "routed (ro_env R) key s = Inr (ts, succeed)"
  shows "\<exists>s'. valid_key_threads R key s = Inr ((ts, succeed), s') \<and> looked_up s s' succeed"
proof (cases "key = []")
  case False
  then obtain m where m: "is_metadata key = Inr m"
    using is_metadata_total by blast
  then have "first_tier (ro_env R) key m kAllTiers s = Inr (ts, succeed)"
    using assms False by (simp add: routed_def)
  with tiers_threads_total obtain s' where "tiers_threads R key m kAllTiers s = Inr ((ts, succeed), s')"
    by blast
  then show ?thesis
    using tiers_threads_Inr(2) False m by (auto simp: valid_key_threads_def)
qed (use assms in \<open>simp add: routed_def valid_key_threads_def\<close>)

definition known :: "env \<Rightarrow> 'a ring_ctx_scheme \<Rightarrow> Key \<Rightarrow> bool" where
  "known E s key \<longleftrightarrow> (case routed E key s of Inl _ \<Rightarrow> False | Inr (_, succeed) \<Rightarrow> succeed)"

definition routed_threads :: "env \<Rightarrow> 'a ring_ctx_scheme \<Rightarrow> Key \<Rightarrow> ServerThread list" where
  "routed_threads E s key = (case routed E key s of Inl _ \<Rightarrow> [] | Inr (threads, _) \<Rightarrow> threads)"

lemma known_agree: "rings_agree a b \<Longrightarrow> known E b = known E a"
  "rings_agree a b \<Longrightarrow> routed_threads E b = routed_threads E a"
  by (auto simp: known_def routed_threads_def routed_agree)

lemma routed_known:
  assumes "cluster_ok E s"
  shows "routed E key s = Inr (routed_threads E s key, known E s key)"
  using routed_total [OF assms, of key] by (auto simp: known_def routed_threads_def)

lemma address_keys_spec:
  assumes "cluster_ok (ro_env R) s"
  shows "\<exists>s'. address_keys R request keys response s = Inr
      (if list_all (known (ro_env R) s) keys
       then Some (response\<lparr>ar_addresses := ar_addresses response @
         map (\<lambda>key. key_address key (routed_threads (ro_env R) s key)) keys\<rparr>) else None, s')
    \<and> rings_agree s s'
    \<and> (case filter (\<lambda>key. \<not> known (ro_env R) s key) keys of
         [] \<Rightarrow> outbox s' = outbox s \<and> address_requests s' = address_requests s
       | key # _ \<Rightarrow> (\<exists>m. outbox s' = outbox s @ [m]) \<and> address_requests s' = om_modify [] key
           (\<lambda>rs. rs @ [(aq_response_address request, aq_request_id request)]) (address_requests s))"
  using assms
proof (induction keys arbitrary: response s)
  case (Cons key keys)
  let ?E = "ro_env R"
  obtain s1 where s1: "valid_key_threads R key s = Inr ((routed_threads ?E s key, known ?E s key), s1)"
      "looked_up s s1 (known ?E s key)"
    using valid_key_threads_spec [OF routed_known [OF Cons.prems]] by blast
  show ?case
  proof (cases "known ?E s key")
    case False
    let ?s' = "s1\<lparr>address_requests := om_modify [] key
      (\<lambda>rs. rs @ [(aq_response_address request, aq_request_id request)]) (address_requests s1)\<rparr>"
    have "rings_agree s1 ?s'"
      by (simp add: rings_agree_def global_ring_def local_ring_def global_rep_def local_rep_def replication_of_def)
    then have "rings_agree s ?s'"
      using looked_up_rings [OF s1(2)] by (rule rings_agree_trans [rotated])
    then show ?thesis
      using s1 False looked_up_pending [OF s1(2)] by (auto simp: looked_up_def)
  next
    case True
    have agree: "rings_agree s s1"
      using s1(2) by (rule looked_up_rings)
    note same = known_agree [OF agree]
    obtain s' where s': "address_keys R request keys
        (response\<lparr>ar_addresses := ar_addresses response @ [key_address key (routed_threads ?E s key)]\<rparr>) s1 = Inr
      (if list_all (known ?E s) keys then Some (response\<lparr>ar_addresses := ar_addresses response @
         map (\<lambda>key. key_address key (routed_threads ?E s key)) (key # keys)\<rparr>) else None, s')"
      "rings_agree s1 s'"
      "case filter (\<lambda>key. \<not> known ?E s key) keys of
         [] \<Rightarrow> outbox s' = outbox s1 \<and> address_requests s' = address_requests s1
       | key # _ \<Rightarrow> (\<exists>m. outbox s' = outbox s1 @ [m]) \<and> address_requests s' = om_modify [] key
           (\<lambda>rs. rs @ [(aq_response_address request, aq_request_id request)]) (address_requests s1)"
      using Cons.IH [OF cluster_ok_agree [OF agree Cons.prems],
        of "response\<lparr>ar_addresses := ar_addresses response @ [key_address key (routed_threads ?E s key)]\<rparr>"]
      unfolding same by auto
    show ?thesis
      using s' s1 True looked_up_pending [OF s1(2)] rings_agree_trans [OF agree s'(2)]
      by (auto simp: looked_up_def split: list.splits)
  qed
qed simp

lemma cluster_has_servers:
  assumes "cluster_ok E s"
  shows "num_servers s \<noteq> 0"
proof -
  obtain ring where "map_of (global_hash_rings s) MEMORY = Some ring" "hr_nodes ring \<noteq> []"
    using assms by (cases "map_of (global_hash_rings s) MEMORY")
      (auto simp: cluster_ok_def global_ring_def om_at_def empty_HashRing_def)
  then show ?thesis
    by (auto simp: num_servers_def chm_size_def dest!: map_of_SomeD intro!: bexI [of _ "(MEMORY, ring)"])
qed

lemma first_tier_succeeds:
  assumes "cluster_ok E s" "m \<or> key \<in> dom (map_of (key_replication_map s))"
  shows "\<exists>ts. first_tier E key m tiers s = Inr (ts, True)"
proof (induction tiers)
  case (Cons tier tiers)
  obtain ts succeed where "lookup E key m [tier] s = Inr (ts, succeed)"
    using lookup_total [OF assms(1), of key m "[tier]"] by auto
  moreover from this assms(2) have succeed
    by (auto simp: lookup_def res_simps split: if_splits)
  ultimately show ?case
    using Cons by (cases "ts = []") auto
qed simp

lemmas first_tier_known = first_tier_succeeds [where m = False, OF _ disjI2]

lemma known_iff:
  assumes "cluster_ok E s" "key \<noteq> []"
  shows "known E s key \<longleftrightarrow> is_metadata key = Inr True \<or> key \<in> dom (map_of (key_replication_map s))"
proof -
  obtain m where m: "is_metadata key = Inr m"
    using is_metadata_total [OF assms(2)] by blast
  have "first_tier E key m kAllTiers s = Inr ([], False)"
    if unknown: "\<not> m" "key \<notin> dom (map_of (key_replication_map s))"
  proof -
    obtain ts where "get_responsible_threads_metadata E (get_replication_key key replication)
        (global_ring MEMORY s) (local_ring MEMORY s) = Inr ts" "ts \<noteq> []"
      using metadata_threads_nonempty [OF assms(1)] by blast
    with unknown show ?thesis
      by (simp add: kAllTiers_def lookup_def)
  qed
  moreover have "known E s key \<longleftrightarrow> succeed" if "first_tier E key m kAllTiers s = Inr (ts, succeed)" for ts succeed
    using that m assms(2) by (simp add: known_def routed_def)
  ultimately show ?thesis
    using m first_tier_succeeds [OF assms(1), of m key kAllTiers]
    by (cases "m \<or> key \<in> dom (map_of (key_replication_map s))") auto
qed

lemma serve_address_requests_spec:
  assumes "map_of (address_requests s) key = Some requests"
    and "first_tier (ro_env R) key False kAllTiers s = Inr (threads, True)"
  shows "\<exists>s'. serve_address_requests R key s = Inr s'
    \<and> outbox s' = outbox s @ map (\<lambda>(address, response_id). (address, ser_KeyAddressResponse (env_codec (ro_env R))
        (empty_KeyAddressResponse\<lparr>ar_response_id := response_id, ar_addresses := [key_address key threads]\<rparr>))) requests
    \<and> address_requests s' = AList.delete key (address_requests s) \<and> rings_agree s s'"
proof -
  obtain s1 where s1: "tiers_threads R key False kAllTiers s = Inr ((threads, True), s1)"
    using tiers_threads_total [OF assms(2)] by blast
  note up = tiers_threads_Inr(2) [OF s1]
  let ?s2 = "fold (answer_address_request R key threads) requests s1"
  let ?s' = "?s2\<lparr>address_requests := AList.delete key (address_requests ?s2)\<rparr>"
  have out: "outbox (fold (answer_address_request R key threads) rs x) = outbox x @
      map (\<lambda>(address, response_id). (address, ser_KeyAddressResponse (env_codec (ro_env R))
        (empty_KeyAddressResponse\<lparr>ar_response_id := response_id, ar_addresses := [key_address key threads]\<rparr>))) rs"
    and same: "address_requests (fold (answer_address_request R key threads) rs x) = address_requests x
      \<and> rings_agree x (fold (answer_address_request R key threads) rs x)" for rs x
    by (induction rs arbitrary: x) (auto simp: answer_address_request_def send_string_def rings_agree_def
      global_ring_def local_ring_def global_rep_def local_rep_def replication_of_def)
  have "rings_agree s1 ?s'"
    using same [of requests s1] by (simp add: rings_agree_def global_ring_def local_ring_def global_rep_def
      local_rep_def replication_of_def)
  then have "rings_agree s ?s'"
    using looked_up_rings [OF up] by (rule rings_agree_trans [rotated])
  moreover have "outbox s1 = outbox s" "address_requests s1 = address_requests s"
    using up looked_up_pending [OF up] by (simp_all add: looked_up_def)
  moreover have "serve_address_requests R key s = Inr ?s'"
    by (simp add: serve_address_requests_def assms(1) s1 Let_def)
  ultimately show ?thesis
    using out [of requests s1] same [of requests s1] by simp
qed

definition sample_router_conf :: router_conf where
  "sample_router_conf = \<lparr>ro_env = sample_env, ro_thread = \<lparr>rt_ip = ''7.7.7.7'', rt_tid = 0\<rparr>, ro_thread_id = 0,
     ro_ip = ''7.7.7.7'', ro_monitoring_ips = [], kRoutingThreadCount = 2\<rparr>"

definition sample_router :: router where
  "sample_router = ring_ctx.extend sample_ctx
     \<lparr>address_requests = [(''k'', [(''tcp://9.9.9.9:6850'', ''r1'')])]\<rparr>"

lemma sample_router_fields:
  "key_replication_map sample_router = key_replication_map sample_ctx" "outbox sample_router = []"
  "address_requests sample_router = [(''k'', [(''tcp://9.9.9.9:6850'', ''r1'')])]"
  "global_hash_rings sample_router = global_hash_rings sample_ctx"
  by (simp_all add: sample_router_def ring_ctx.defs sample_ctx_def)

lemma sample_router_agree: "rings_agree sample_ctx sample_router"
  by (simp add: rings_agree_def sample_router_def ring_ctx.defs sample_ctx_def global_ring_def local_ring_def
      global_rep_def local_rep_def replication_of_def)

lemma sample_router_ok: "cluster_ok sample_env sample_router"
proof -
  have "cluster_ok sample_env sample_server"
    using sample_cluster_ok by (simp add: sample_worker_def)
  then have "cluster_ok sample_env sample_ctx"
    by (rule cluster_ok_agree [OF rings_agree_sym [OF sample_server_agree]])
  then show ?thesis
    by (rule cluster_ok_agree [OF sample_router_agree])
qed

lemma address_handler_answers:
  assumes "cluster_ok (ro_env R) s" "list_all (known (ro_env R) s) (aq_keys request)"
    and "request = snd (parse_KeyAddressRequest (env_codec (ro_env R)) serialized)"
  shows "\<exists>s'. address_handler R serialized s = Inr s' \<and> rings_agree s s' \<and> address_requests s' = address_requests s
    \<and> outbox s' = outbox s @ (if aq_keys request = [] then [] else
        [(aq_response_address request, ser_KeyAddressResponse (env_codec (ro_env R))
          (empty_KeyAddressResponse\<lparr>ar_response_id := aq_request_id request, ar_addresses :=
             map (\<lambda>key. key_address key (routed_threads (ro_env R) s key)) (aq_keys request)\<rparr>))])"
proof -
  let ?r = "empty_KeyAddressResponse\<lparr>ar_response_id := aq_request_id request\<rparr>"
  note handler = address_handler_def [of R serialized s, unfolded Let_def assms(3) [symmetric]]
  have r: "ar_addresses ?r = []"
    by (simp add: empty_KeyAddressResponse_def)
  have none: "filter (\<lambda>key. \<not> known (ro_env R) s key) (aq_keys request) = []"
    using assms(2) by (auto simp: list_all_iff filter_empty_conv)
  obtain s1 where s1: "address_keys R request (aq_keys request) ?r s = Inr (Some (?r\<lparr>ar_addresses :=
       map (\<lambda>key. key_address key (routed_threads (ro_env R) s key)) (aq_keys request)\<rparr>), s1)"
      "rings_agree s s1" "outbox s1 = outbox s" "address_requests s1 = address_requests s"
    using address_keys_spec [OF assms(1), of request "aq_keys request" ?r] assms(2) none r by auto
  have sent: "rings_agree s (send_string m a s1)" for m a
    using s1(2) by (simp add: send_string_def rings_agree_def global_ring_def local_ring_def global_rep_def
        local_rep_def replication_of_def)
  show ?thesis
    using s1 sent cluster_has_servers [OF assms(1)] unfolding handler
    by (auto simp: send_string_def)
qed

section \<open>Properties of the address service\<close>



text \<open>
  When the replication factors of a key arrive at the routing tier, every client that waits for
  the addresses of that key gets exactly one response, in the order of the requests, that names
  the threads of the first tier storing the key under the factors just learned, and no longer
  waits. The requests for other keys wait on.
\<close>

theorem parked_addresses_answered:
  assumes "rs_tuples (snd (parse_KeyResponse (env_codec (ro_env R)) serialized)) = tuple # tuples"
    and "kt_error tuple \<in> {NO_ERROR, KEY_DNE}" "key = get_key_from_metadata (kt_key tuple)"
    and "s1 = s\<lparr>key_replication_map := learn_factors (ro_env R) tuple (key_replication_map s)\<rparr>"
    and "cluster_ok (ro_env R) s1" "key \<in> dom (map_of (key_replication_map s1))"
  shows "\<exists>s' threads. routing_replication_response_handler R serialized s = Inr s'
    \<and> first_tier (ro_env R) key False kAllTiers s1 = Inr (threads, True)
    \<and> outbox s' = outbox s @ map (\<lambda>(address, response_id). (address, ser_KeyAddressResponse (env_codec (ro_env R))
        (empty_KeyAddressResponse\<lparr>ar_response_id := response_id, ar_addresses := [key_address key threads]\<rparr>)))
        (om_at [] (address_requests s) key)
    \<and> map_of (address_requests s') = (map_of (address_requests s))(key := None)"
proof -
  have run: "routing_replication_response_handler R serialized s = serve_address_requests R key s1"
    using assms(2) by (auto simp: routing_replication_response_handler_def assms(1,3,4) Let_def)
  obtain threads where threads: "first_tier (ro_env R) key False kAllTiers s1 = Inr (threads, True)"
    using first_tier_known [OF assms(5,6)] by blast
  have same: "outbox s1 = outbox s" "address_requests s1 = address_requests s"
    by (simp_all add: assms(4))
  show ?thesis
  proof (cases "map_of (address_requests s) key")
    case None
    then show ?thesis
      using threads by (intro exI [of _ s1] exI [of _ threads])
        (simp add: run serve_address_requests_def same om_at_def fun_upd_idem)
  next
    case (Some requests)
    then obtain s' where "serve_address_requests R key s1 = Inr s'"
      "outbox s' = outbox s @ map (\<lambda>(address, response_id). (address, ser_KeyAddressResponse (env_codec (ro_env R))
        (empty_KeyAddressResponse\<lparr>ar_response_id := response_id, ar_addresses := [key_address key threads]\<rparr>))) requests"
      "address_requests s' = AList.delete key (address_requests s)"
      using serve_address_requests_spec [of s1 key requests R threads] threads by (auto simp: same)
    with Some threads show ?thesis
      by (intro exI [of _ s'] exI [of _ threads]) (simp add: run om_at_def)
  qed
qed

definition sample_asking :: router where
  "sample_asking = sample_router\<lparr>key_replication_map := []\<rparr>"

lemma sample_asking_ok:
  "cluster_ok sample_env (sample_asking\<lparr>key_replication_map :=
     learn_factors sample_env (hd (rs_tuples sample_answer)) []\<rparr>)"
proof -
  let ?k = "learn_factors sample_env (hd (rs_tuples sample_answer)) []"
  have W: "w_env sample_worker = sample_env"
    by (simp add: sample_worker_def)
  have m: "key_replication_map sample_waiting = []"
    by (simp add: sample_waiting_def)
  have "rings_agree (sample_waiting\<lparr>key_replication_map := ?k\<rparr>) (sample_asking\<lparr>key_replication_map := ?k\<rparr>)"
    using rings_agree_trans [OF rings_agree_sym [OF sample_server_agree] sample_router_agree]
    by (simp add: rings_agree_def sample_asking_def sample_waiting_def global_ring_def local_ring_def
        global_rep_def local_rep_def replication_of_def)
  from cluster_ok_agree [OF this sample_waiting_ok [unfolded W m]] show ?thesis .
qed

theorem parked_addresses_answered_witness:
  "\<exists>s' threads. routing_replication_response_handler sample_router_conf
      (ser_KeyResponse wire_codec sample_answer) sample_asking = Inr s'
    \<and> outbox s' = [(''tcp://9.9.9.9:6850'', ser_KeyAddressResponse wire_codec
        (empty_KeyAddressResponse\<lparr>ar_response_id := ''r1'', ar_addresses := [key_address ''k'' threads]\<rparr>))]
    \<and> map_of (address_requests s') ''k'' = None"
proof -
  let ?t = "hd (rs_tuples sample_answer)"
  let ?s1 = "sample_asking\<lparr>key_replication_map := learn_factors sample_env ?t []\<rparr>"
  have E: "ro_env sample_router_conf = sample_env" "env_codec sample_env = wire_codec" "w_env sample_worker = sample_env"
    by (simp_all add: sample_router_conf_def sample_env_def sample_worker_def)
  have fields: "key_replication_map sample_asking = []" "outbox sample_asking = []"
      "address_requests sample_asking = [(''k'', [(''tcp://9.9.9.9:6850'', ''r1'')])]"
    by (simp_all add: sample_asking_def sample_router_fields)
  have "''k'' \<in> dom (map_of (key_replication_map ?s1))"
    using learned_key [OF sample_answer_tuple(1)] by (simp add: sample_answer_tuple)
  then show ?thesis
    using parked_addresses_answered [of sample_router_conf "ser_KeyResponse wire_codec sample_answer" ?t "[]" "''k''"
        ?s1 sample_asking] sample_answer_parsed sample_asking_ok
    unfolding E by (auto simp: sample_answer_tuple fields om_at_def)
qed

end
