(* ===== verification/Anna_Cluster.thy ===== *)
theory Anna_Cluster
  imports Anna_Route
begin

text \<open>
  Routers and servers together. The first part shows that what two processes look up agrees as soon
  as the nodes of their global rings, their replication factors, and the order of the thread ids on
  their local rings do (\<open>same_view\<close>). The rest shows how they come to agree: local rings are formed
  alike everywhere, a starting server rebuilds the rings of the seed, and joins are handled
  alike by routers and servers.
\<close>

section \<open>Routers and servers agree on the owners of a key\<close>

text \<open>
  The local rings of different processes hold threads with different addresses, but what a lookup
  reads of a local ring is only the order of the thread ids.
\<close>

definition placement :: "LocalHashRing \<Rightarrow> (u64 \<times> u32) list" where
  "placement ring = map (\<lambda>(h, th). (h, st_tid th)) (hr_nodes ring)"

definition same_view :: "'a ring_ctx_scheme \<Rightarrow> 'b ring_ctx_scheme \<Rightarrow> bool" where
  "same_view a b \<longleftrightarrow>
     (\<forall>tier. hr_nodes (global_ring tier a) = hr_nodes (global_ring tier b))
   \<and> (\<forall>tier. placement (local_ring tier a) = placement (local_ring tier b))
   \<and> (\<forall>key tier. global_rep key tier a = global_rep key tier b)
   \<and> (\<forall>key tier. local_rep key tier a = local_rep key tier b)
   \<and> dom (map_of (key_replication_map a)) = dom (map_of (key_replication_map b))"

definition same_params :: "env \<Rightarrow> env \<Rightarrow> bool" where
  "same_params E E' \<longleftrightarrow> env_hash E = env_hash E' \<and> kDefaultLocalReplication E = kDefaultLocalReplication E'"

lemma responsible_global_nodes:
  "hr_nodes a = hr_nodes b \<Longrightarrow> responsible_global H key rep a = responsible_global H key rep b"
  by (simp add: responsible_global_def Let_def cong: if_cong)

lemma chm_find_fst:
  fixes xs ys :: "('h :: linorder \<times> 'n) list"
  assumes "map fst xs = map fst ys"
  shows "chm_find h xs = chm_find h ys"
proof -
  have "length (takeWhile (\<lambda>(k, _). k < h) zs) = length (takeWhile (\<lambda>k. k < h) (map fst zs))"
    for zs :: "('h \<times> 'n) list"
    by (induction zs) auto
  then have "lower_bound h xs = lower_bound h ys"
    by (simp add: lower_bound_def assms)
  moreover have "length xs = length ys" "xs = [] \<longleftrightarrow> ys = []"
    using map_eq_imp_length_eq [OF assms] by auto
  ultimately show ?thesis
    by (simp add: chm_find_def)
qed

lemma responsible_local_placement:
  assumes "placement a = placement b"
  shows "responsible_local H key rep a = responsible_local H key rep b"
proof -
  have view: "map fst (hr_nodes ring) = map fst (placement ring)"
      "map (\<lambda>(h, th). st_tid th) (hr_nodes ring) = map snd (placement ring)"
      "length (hr_nodes ring) = length (placement ring)" for ring :: LocalHashRing
    by (auto simp: placement_def)
  have "chm_find h (hr_nodes a) = chm_find h (hr_nodes b)" for h
    by (rule chm_find_fst) (simp only: view assms)
  then show ?thesis
    unfolding responsible_local_def view assms by simp
qed

lemma same_view_metadata:
  assumes "same_view a b" "same_params E E'"
  shows "get_responsible_threads_metadata E' key (global_ring MEMORY b) (local_ring MEMORY b) =
    get_responsible_threads_metadata E key (global_ring MEMORY a) (local_ring MEMORY a)"
  using assms responsible_global_nodes [of "global_ring MEMORY a" "global_ring MEMORY b"]
    responsible_local_placement [of "local_ring MEMORY a" "local_ring MEMORY b"]
  by (simp add: same_view_def same_params_def get_responsible_threads_metadata_def cong: if_cong)

lemma same_view_all_threads:
  assumes "same_view a b" "same_params E E'"
  shows "all_threads E' key tiers b = all_threads E key tiers a"
proof -
  have "tier_threads E' key tier b = tier_threads E key tier a" for tier
    using assms responsible_global_nodes [of "global_ring tier a" "global_ring tier b"]
      responsible_local_placement [of "local_ring tier a" "local_ring tier b"]
    by (simp add: same_view_def same_params_def tier_threads_def cong: if_cong)
  then show ?thesis
    by (simp add: all_threads_def)
qed

lemma lookup_same_view:
  "same_view a b \<Longrightarrow> same_params E E' \<Longrightarrow> lookup E' key m tiers b = lookup E key m tiers a"
  using same_view_metadata [of a b E E'] same_view_all_threads [of a b E E' key tiers]
  by (simp add: lookup_def same_view_def cong: if_cong)

lemma threads_of_server:
  "t \<in> set (threads_of servers tids) \<Longrightarrow>
   \<exists>st \<in> set servers. st_public_ip t = st_public_ip st \<and> st_private_ip t = st_private_ip st"
  by (auto simp: threads_of_def server_thread_def)

text \<open>The threads a router names come from one tier, whose lookup gives exactly these threads.\<close>

lemma first_tier_from:
  assumes "first_tier E key m tiers s = Inr (threads, succeed)" "threads \<noteq> []"
  shows "\<exists>tier \<in> set tiers. lookup E key m [tier] s = Inr (threads, True)"
  using assms
proof (induction tiers)
  case (Cons tier tiers)
  obtain ts ok where look: "lookup E key m [tier] s = Inr (ts, ok)"
    using Cons.prems(1) by (auto simp: res_simps)
  moreover have "ok" if "ts \<noteq> []"
    using look that by (auto simp: lookup_def res_simps split: if_splits)
  ultimately show ?case
    using Cons by (cases "ts = []") (auto split: if_splits)
qed simp

lemma lookup_from_ring:
  assumes "cluster_ok E s" "lookup E key False [tier] s = Inr (threads, True)" "t \<in> set threads"
  shows "\<exists>st \<in> snd ` set (hr_nodes (global_ring tier s)).
    st_public_ip t = st_public_ip st \<and> st_private_ip t = st_private_ip st"
proof -
  let ?servers = "take (unat (global_rep key tier s)) (preference (env_hash E) key (global_ring tier s))"
  have known: "key \<in> dom (map_of (key_replication_map s))"
    using assms(2) by (auto simp: lookup_def res_simps split: if_splits)
  then have "all_threads E key [tier] s = Inr (threads_of ?servers
      (take (unat (local_rep key tier s)) (local_preference (env_hash E) key (local_ring tier s))))"
    using all_threads_take [of E s "[tier]" key] assms(1) by (simp add: cluster_ok_def)
  then have "threads = threads_of ?servers
      (take (unat (local_rep key tier s)) (local_preference (env_hash E) key (local_ring tier s)))"
    using assms(2) known by (auto simp: lookup_def)
  with threads_of_server assms(3) obtain st where "st \<in> set ?servers"
      "st_public_ip t = st_public_ip st" "st_private_ip t = st_private_ip st"
    by blast
  then show ?thesis
    using set_preference [of "env_hash E" key "global_ring tier s"] by (blast dest: in_set_takeD)
qed

lemma metadata_from_ring:
  assumes "cluster_ok E s" "lookup E key True tiers s = Inr (threads, True)" "t \<in> set threads"
  shows "\<exists>st \<in> snd ` set (hr_nodes (global_ring MEMORY s)).
    st_public_ip t = st_public_ip st \<and> st_private_ip t = st_private_ip st"
proof -
  have "threads = threads_of (take 1 (preference (env_hash E) key (global_ring MEMORY s)))
      (take (unat (kDefaultLocalReplication E)) (local_preference (env_hash E) key (local_ring MEMORY s)))"
    using assms(2) metadata_threads [of E "global_ring MEMORY s" "local_ring MEMORY s" key] assms(1)
    by (auto simp: lookup_def cluster_ok_def rings_ok_def)
  with threads_of_server assms(3) obtain st where "st \<in> set (take 1 (preference (env_hash E) key (global_ring MEMORY s)))"
      "st_public_ip t = st_public_ip st" "st_private_ip t = st_private_ip st"
    by blast
  then show ?thesis
    using set_preference [of "env_hash E" key "global_ring MEMORY s"] by (blast dest: in_set_takeD)
qed

text \<open>A thread's public address is known to a router only as the address of its own node, in its own tier.\<close>

definition names_own_node :: "'st worker \<Rightarrow> 'a ring_ctx_scheme \<Rightarrow> bool" where
  "names_own_node W s \<longleftrightarrow> (\<forall>tier. \<forall>st \<in> snd ` set (hr_nodes (global_ring tier s)).
     st_public_ip st = st_public_ip (wt W) \<longrightarrow>
       st_private_ip st = st_private_ip (wt W) \<and> tier = kSelfTier (w_env W))"

lemma names_own_nodeD:
  "names_own_node W s \<Longrightarrow> st \<in> snd ` set (hr_nodes (global_ring tier s)) \<Longrightarrow> st_public_ip st = st_public_ip (wt W)
   \<Longrightarrow> st_private_ip st = st_private_ip (wt W) \<and> tier = kSelfTier (w_env W)"
  unfolding names_own_node_def by blast

lemma routed_to_owner:
  assumes "cluster_ok E r" "same_view r s" "same_params E (w_env W)" "names_own_node W r"
    and "kSelfTierIdVector (w_env W) = [kSelfTier (w_env W)]"
    and "key \<noteq> []" "routed E key r = Inr (threads, True)"
    and "key_request_connect_address (wt W) \<in> key_request_connect_address ` set threads"
  shows "srv_lookup W key (kSelfTierIdVector (w_env W)) s = Inr (threads, True) \<and> st_mem (wt W) threads"
proof -
  obtain m where m: "is_metadata key = Inr m"
    using is_metadata_total [OF assms(6)] by blast
  obtain t where t: "t \<in> set threads" "st_public_ip t = st_public_ip (wt W)" "st_tid t = st_tid (wt W)"
    using assms(8) by (auto simp: key_request_connect_address_def tcp_base_inj)
  have "first_tier E key m kAllTiers r = Inr (threads, True)" "threads \<noteq> []"
    using assms(6,7) m t(1) by (auto simp: routed_def)
  from first_tier_from [OF this] obtain tier where tier: "lookup E key m [tier] r = Inr (threads, True)"
    by blast
  have own: "st_private_ip t = st_private_ip (wt W) \<and> lookup E key m [kSelfTier (w_env W)] r = Inr (threads, True)"
  proof (cases m)
    case True
    then obtain st where "st \<in> snd ` set (hr_nodes (global_ring MEMORY r))"
        "st_public_ip t = st_public_ip st" "st_private_ip t = st_private_ip st"
      using metadata_from_ring [OF assms(1), of key "[tier]" threads t] tier t(1) by auto
    then have "st_private_ip t = st_private_ip (wt W)"
      using names_own_nodeD [OF assms(4), of st MEMORY] t(2) by simp
    with tier True show ?thesis
      by (simp add: lookup_def)
  next
    case False
    then obtain st where "st \<in> snd ` set (hr_nodes (global_ring tier r))"
        "st_public_ip t = st_public_ip st" "st_private_ip t = st_private_ip st"
      using lookup_from_ring [OF assms(1), of key tier threads t] tier t(1) by auto
    then have "st_private_ip t = st_private_ip (wt W) \<and> tier = kSelfTier (w_env W)"
      using names_own_nodeD [OF assms(4), of st tier] t(2) by simp
    with tier show ?thesis
      by simp
  qed
  then have "srv_lookup W key (kSelfTierIdVector (w_env W)) s = Inr (threads, True)"
    using lookup_same_view [OF assms(2,3)] m assms(5) by (simp add: srv_lookup_def)
  moreover have "st_eq t (wt W)"
    using own t(3) by (simp add: st_eq_iff)
  ultimately show ?thesis
    using t(1) by (auto simp: st_mem_def list_ex_iff)
qed

lemma user_request_tuple_answers:
  assumes "user_request_tuple W request tuple (response, s) = Inr (response', s')"
    and "srv_lookup W (kt_key tuple) (kSelfTierIdVector (w_env W)) s = Inr (threads, True)" "st_mem (wt W) threads"
  shows "\<exists>s1 tp. answer_tuple W request tuple threads s1 = Inr (tp, s') \<and> ctx_agree s s1 \<and> outbox s1 = outbox s
    \<and> response' = response\<lparr>rs_tuples := rs_tuples response @ [tp]\<rparr>"
proof -
  obtain ts succeed s1 where look:
      "lookup_threads W (kt_key tuple) (kSelfTierIdVector (w_env W)) s = Inr ((ts, succeed), s1)"
    using assms(1) by (auto simp: user_request_tuple_def Let_def res_simps)
  note L = lookup_threads_Inr [OF look]
  have "ts = threads" "succeed"
    using L(1) assms(2) by auto
  with look L assms(1,3) show ?thesis
    by (auto simp: user_request_tuple_def Let_def res_simps)
qed


section \<open>Thread placement is the same in every process\<close>

lemma placement_chm_insert:
  assumes "map (\<lambda>(h, th). (h, st_tid th)) xs = map (\<lambda>(h, th). (h, st_tid th)) ys"
    and "hasher x = hasher y" "st_tid x = st_tid y"
  shows "map (\<lambda>(h, th). (h, st_tid th)) (chm_insert hasher x xs) =
    map (\<lambda>(h, th). (h, st_tid th)) (chm_insert hasher y ys)"
proof -
  have known: "map_of zs h = None \<longleftrightarrow> map_of (map (\<lambda>(h, th). (h, st_tid th)) zs) h = None"
    for zs and h
    by (induction zs) auto
  have insort: "map (\<lambda>(h, th). (h, st_tid th)) (insort_key fst z zs) =
      insort_key fst (fst z, st_tid (snd z)) (map (\<lambda>(h, th). (h, st_tid th)) zs)" for z zs
    by (induction zs) (auto simp: split_beta)
  have "map_of xs (hasher x) = None \<longleftrightarrow> map_of ys (hasher y) = None"
    using known [of xs "hasher x"] known [of ys "hasher y"] assms(1,2) by simp
  then show ?thesis
    by (cases "map_of xs (hasher x)"; cases "map_of ys (hasher y)")
      (auto simp: chm_insert_def Let_def insort assms)
qed

definition placed_alike :: "Address \<Rightarrow> Address \<Rightarrow> LocalHashRing \<Rightarrow> LocalHashRing \<Rightarrow> bool" where
  "placed_alike priv priv' a b \<longleftrightarrow> placement a = placement b
     \<and> map st_tid (hr_unique_servers a) = map st_tid (hr_unique_servers b)
     \<and> (\<forall>st \<in> set (hr_unique_servers a). st_private_ip st = priv)
     \<and> (\<forall>st \<in> set (hr_unique_servers b). st_private_ip st = priv')"

lemma placed_alike_insert:
  assumes "placed_alike priv priv' a b"
  shows "placed_alike priv priv' (snd (hr_insert (LocalHasher H) pub priv n tid a))
    (snd (hr_insert (LocalHasher H) pub' priv' n' tid b))"
proof -
  have mem: "st_mem (server_thread_v p q tid 0) sts \<longleftrightarrow> tid \<in> set (map st_tid sts)"
    if "\<forall>st \<in> set sts. st_private_ip st = q" for p q sts
    using that by (auto simp: st_mem_def list_ex_iff st_eq_iff server_thread_v_def)
  have "st_mem (server_thread_v pub priv tid 0) (hr_unique_servers a) \<longleftrightarrow>
      st_mem (server_thread_v pub' priv' tid 0) (hr_unique_servers b)"
    using assms mem [of "hr_unique_servers a" priv pub] mem [of "hr_unique_servers b" priv' pub']
    by (simp add: placed_alike_def)
  moreover have "map (\<lambda>(h, th). (h, st_tid th)) (fold (chm_insert (LocalHasher H)) (virtual_threads pub priv tid) (hr_nodes a)) =
      map (\<lambda>(h, th). (h, st_tid th)) (fold (chm_insert (LocalHasher H)) (virtual_threads pub' priv' tid) (hr_nodes b))"
  proof -
    have "map (\<lambda>(h, th). (h, st_tid th)) (fold (chm_insert (LocalHasher H)) (map (\<lambda>n. server_thread_v pub priv tid (of_nat n)) ns) xs) =
      map (\<lambda>(h, th). (h, st_tid th)) (fold (chm_insert (LocalHasher H)) (map (\<lambda>n. server_thread_v pub' priv' tid (of_nat n)) ns) ys)"
      if "map (\<lambda>(h, th). (h, st_tid th)) xs = map (\<lambda>(h, th). (h, st_tid th)) ys" for ns xs ys
      using that
    proof (induction ns arbitrary: xs ys)
      case (Cons n ns)
      show ?case
        by (simp, rule Cons.IH, rule placement_chm_insert [OF Cons.prems])
          (simp_all add: LocalHasher_def server_thread_v_def)
    qed simp
    then show ?thesis
      using assms by (simp only: virtual_threads_def placed_alike_def placement_def)
  qed
  ultimately show ?thesis
    using assms by (auto simp: placed_alike_def placement_def hr_insert_def Let_def st_set_insert_def server_thread_v_def)
qed

lemma local_ring_insert_local:
  "local_ring tier (insert_local E t pub priv tid s) = (if tier = t
     then snd (hr_insert (LocalHasher (env_hash E)) pub priv 0 tid (local_ring t s)) else local_ring tier s)"
  by (simp add: local_ring_def insert_local_def om_at_def update_conv')

section \<open>A server that starts learns the ring of the seed\<close>

text \<open>The nodes of a ring are what its servers, joining one after another, put there.\<close>

definition put_servers :: "(ServerThread \<Rightarrow> 'h::linorder) \<Rightarrow> ServerThread list \<Rightarrow> ('h, ServerThread) nodes
    \<Rightarrow> ('h, ServerThread) nodes" where
  "put_servers hasher sts nodes =
     fold (\<lambda>st. fold (chm_insert hasher) (virtual_threads (st_public_ip st) (st_private_ip st) 0)) sts nodes"

definition rebuilt :: "(ServerThread \<Rightarrow> 'h::linorder) \<Rightarrow> 'h HashRing \<Rightarrow> bool" where
  "rebuilt hasher ring \<longleftrightarrow> hr_nodes ring = put_servers hasher (hr_unique_servers ring) []
     \<and> distinct (map st_id (hr_unique_servers ring)) \<and> (\<forall>st \<in> set (hr_unique_servers ring). st_tid st = 0)"

lemma rebuilt_empty [simp]: "rebuilt hasher empty_HashRing"
  by (simp add: rebuilt_def put_servers_def empty_HashRing_def)

lemma st_mem_by_id: "st_mem st sts \<longleftrightarrow> st_id st \<in> set (map st_id sts)"
  by (auto simp: st_mem_def list_ex_iff st_eq_def intro: rev_image_eqI)

lemma rebuilt_join: "rebuilt hasher ring \<Longrightarrow> rebuilt hasher (snd (hr_insert hasher pub priv n 0 ring))"
  by (auto simp: rebuilt_def put_servers_def hr_insert_def Let_def st_set_insert_def st_mem_by_id)
    (simp_all add: server_thread_v_def)

lemma global_ring_insert_global:
  "global_ring tier (insert_global E t pub priv n s) = (if tier = t
     then snd (hr_insert (GlobalHasher (env_hash E)) pub priv n 0 (global_ring t s)) else global_ring tier s)"
  by (simp add: global_ring_def insert_global_def set_global_ring_def om_at_def update_conv')

abbreviation as_server :: "ServerThread \<Rightarrow> Server" where
  "as_server st \<equiv> \<lparr>srv_public_ip = st_public_ip st, srv_private_ip = st_private_ip st\<rparr>"

definition ring_of :: "'a ring_ctx_scheme \<Rightarrow> Tier \<Rightarrow> (u32, ServerThread) nodes \<times> string list" where
  "ring_of s tier = (hr_nodes (global_ring tier s), map st_id (hr_unique_servers (global_ring tier s)))"

lemma populate_tier:
  assumes "distinct (snd (ring_of s t) @ map st_id sts)" "\<forall>st \<in> set sts. st_tid st = 0"
  shows "ring_of (fold (\<lambda>sv. insert_global E t (srv_public_ip sv) (srv_private_ip sv) 0) (map as_server sts) s) tier =
    (if tier = t then (put_servers (GlobalHasher (env_hash E)) sts (fst (ring_of s t)), snd (ring_of s t) @ map st_id sts)
     else ring_of s tier)"
  using assms
proof (induction sts arbitrary: s)
  case (Cons st sts)
  let ?s = "insert_global E t (st_public_ip st) (st_private_ip st) 0 s"
  have id: "st_id (server_thread_v (st_public_ip st) (st_private_ip st) 0 0) = st_id st"
    using Cons.prems(2) by (simp add: st_id_def server_thread_v_def)
  have "\<not> st_mem (server_thread_v (st_public_ip st) (st_private_ip st) 0 0) (hr_unique_servers (global_ring t s))"
    using Cons.prems(1) by (simp add: st_mem_by_id id ring_of_def)
  then have step: "ring_of ?s x = (if x = t
      then (put_servers (GlobalHasher (env_hash E)) [st] (fst (ring_of s t)), snd (ring_of s t) @ [st_id st])
      else ring_of s x)" for x
    by (simp add: ring_of_def global_ring_insert_global hr_insert_def Let_def st_set_insert_def id put_servers_def)
  have "distinct (snd (ring_of ?s t) @ map st_id sts)" "\<forall>st \<in> set sts. st_tid st = 0"
    using Cons.prems by (auto simp: step)
  from Cons.IH [OF this] show ?case
    by (simp add: step put_servers_def)
qed (simp add: put_servers_def)

lemma populate_tiers:
  assumes "distinct (map fst rings)" "\<forall>(t, ring) \<in> set rings. rebuilt (GlobalHasher (env_hash E)) ring"
    and "\<forall>t \<in> set (map fst rings). ring_of s t = ([], [])"
  shows "ring_of (populate_addresses E \<lparr>cm_tiers = map (\<lambda>(t, ring). \<lparr>tm_tier_id = t,
      tm_servers = map as_server (hr_unique_servers ring)\<rparr>) rings\<rparr> s) tier =
    (case map_of rings tier of None \<Rightarrow> ring_of s tier
     | Some ring \<Rightarrow> (hr_nodes ring, map st_id (hr_unique_servers ring)))"
  using assms
proof (induction rings arbitrary: s)
  case Nil
  then show ?case
    by (simp add: populate_addresses_def)
next
  case (Cons x rings)
  obtain t ring where x: "x = (t, ring)"
    by (cases x)
  have ring: "rebuilt (GlobalHasher (env_hash E)) ring"
    using Cons.prems(2) by (simp add: x)
  let ?s = "fold (\<lambda>sv. insert_global E t (srv_public_ip sv) (srv_private_ip sv) 0)
    (map as_server (hr_unique_servers ring)) s"
  have step: "ring_of ?s y = (if y = t then (hr_nodes ring, map st_id (hr_unique_servers ring)) else ring_of s y)" for y
    using populate_tier [of s t "hr_unique_servers ring" E y] ring Cons.prems(3) by (simp add: x rebuilt_def)
  have "\<forall>t \<in> set (map fst rings). ring_of ?s t = ([], [])"
    using Cons.prems(1,3) by (auto simp: x step)
  moreover have "map_of rings t = None"
    using Cons.prems(1) by (simp add: x map_of_eq_None_iff)
  ultimately show ?case
    using Cons.IH [of ?s] Cons.prems(1,2)
    by (cases "tier = t") (simp_all add: populate_addresses_def x step cong: option.case_cong)
qed

lemma hr_insert_ring_of:
  assumes "ring_of a t = ring_of b t"
  shows "hr_nodes (snd (hr_insert hasher pub priv n 0 (global_ring t a))) =
    hr_nodes (snd (hr_insert hasher pub priv n' 0 (global_ring t b)))"
  using assms by (simp add: ring_of_def hr_insert_def Let_def st_mem_by_id)

lemma form_local_rings_global [simp]:
  "global_hash_rings (form_local_rings E pub priv s) = global_hash_rings s"
  "global_ring tier (form_local_rings E pub priv s) = global_ring tier s"
proof -
  show same: "global_hash_rings (form_local_rings E pub priv s) = global_hash_rings s"
    unfolding form_local_rings_def
    by (rule fold_keeps, simp, unfold split_beta, rule fold_keeps) (simp_all add: insert_local_def)
  show "global_ring tier (form_local_rings E pub priv s) = global_ring tier s"
    by (simp add: global_ring_def same)
qed

lemma build_rings_seed:
  assumes "global_hash_rings s = []" "om_wf (global_hash_rings r)"
    and "\<forall>(t, ring) \<in> set (global_hash_rings r). rebuilt (GlobalHasher (env_hash (w_env W))) ring"
    and "\<And>m. snd (parse_ClusterMembership (env_codec (w_env W)) (ser_ClusterMembership (env_codec (w_env W)) m)) = m"
  shows "hr_nodes (global_ring tier (build_rings W (seed_handler (env_codec (w_env W)) r) n s)) =
    hr_nodes (global_ring tier (insert_global (w_env W) (kSelfTier (w_env W)) (public_ip W) (private_ip W) n r))"
proof -
  let ?s = "populate_addresses (w_env W) \<lparr>cm_tiers = map (\<lambda>(t, ring). \<lparr>tm_tier_id = t,
      tm_servers = map as_server (hr_unique_servers ring)\<rparr>) (global_hash_rings r)\<rparr> s"
  have blank: "ring_of s t = ([], [])" for t
    by (simp add: ring_of_def global_ring_def om_at_def assms(1) empty_HashRing_def)
  have "ring_of ?s t = (case map_of (global_hash_rings r) t of None \<Rightarrow> ([], [])
     | Some ring \<Rightarrow> (hr_nodes ring, map st_id (hr_unique_servers ring)))" for t
    using populate_tiers [of "global_hash_rings r" "w_env W" s t] assms(2,3) by (simp add: om_wf_def blank cong: option.case_cong)
  then have same: "ring_of ?s t = ring_of r t" for t
    by (simp add: ring_of_def [of r] global_ring_def om_at_def empty_HashRing_def split: option.splits)
  have "hr_nodes (global_ring t ?s) = hr_nodes (global_ring t r)" for t
    using same [of t] by (simp add: ring_of_def)
  then show ?thesis
    using hr_insert_ring_of [OF same [of "kSelfTier (w_env W)"]]
    by (simp add: build_rings_def Let_def seed_handler_def assms(4) global_ring_insert_global)
qed

lemma stoi_nonempty: "stoi count = Inr n \<Longrightarrow> count \<noteq> []"
  by (auto simp: stoi_def Let_def)

lemma Tier_Name_no_colon: "CHR '':'' \<notin> set (Tier_Name tier)"
  by (cases tier) simp_all

lemma split_announcement:
  assumes "CHR '':'' \<notin> set pub \<union> set priv \<union> set count" "count \<noteq> []"
  shows "split (Tier_Name tier @ '':'' @ pub @ '':'' @ priv @ '':'' @ count) CHR '':'' = [Tier_Name tier, pub, priv, count]"
    "split (''join:'' @ Tier_Name tier @ '':'' @ pub @ '':'' @ priv @ '':'' @ count) CHR '':'' =
      [''join'', Tier_Name tier, pub, priv, count]"
proof -
  show split: "split (Tier_Name tier @ '':'' @ pub @ '':'' @ priv @ '':'' @ count) CHR '':'' = [Tier_Name tier, pub, priv, count]"
    using assms by (simp add: split_item split_last Tier_Name_no_colon)
  show "split (''join:'' @ Tier_Name tier @ '':'' @ pub @ '':'' @ priv @ '':'' @ count) CHR '':'' =
      [''join'', Tier_Name tier, pub, priv, count]"
    using split_item [of "CHR '':''" "''join''"] split by simp
qed

lemma fold_send_rings [simp]: "global_ring tier (fold (\<lambda>x. send_string msg (f x)) xs s) = global_ring tier s"
  using only_sends_agree [OF only_sends_fold, of s msg f xs] by (simp add: rings_agree_simps)

lemma fold_send_ring_map [simp]: "global_hash_rings (fold (\<lambda>x. send_string msg (f x)) xs s) = global_hash_rings s"
  using only_sends_fold [of s msg f xs] by (simp add: only_sends_def same_ctx_def)

lemma membership_handler_join:
  assumes "split serialized CHR '':'' = [''join'', Tier_Name tier, pub, priv, count]" "stoi count = Inr n"
  shows "\<exists>r'. membership_handler R serialized r = Inr r'
    \<and> global_hash_rings r' = global_hash_rings (insert_global (ro_env R) tier pub priv n r)
    \<and> outbox r' = outbox r @
        (if fst (hr_insert (GlobalHasher (env_hash (ro_env R))) pub priv n 0 (global_ring tier r)) \<and> ro_thread_id R = 0
         then map (\<lambda>st. (node_join_connect_address st, Tier_Name tier @ '':'' @ pub @ '':'' @ priv @ '':'' @ count))
             (filter (\<lambda>st. st_private_ip st \<noteq> priv) (all_servers (insert_global (ro_env R) tier pub priv n r)))
           @ map (\<lambda>tid. (rt_notify_connect_address \<lparr>rt_ip = ro_ip R, rt_tid = of_nat tid\<rparr>, serialized))
             [1..<unat (kRoutingThreadCount R)]
         else [])"
proof -
  obtain inserted ring where ring:
      "hr_insert (GlobalHasher (env_hash (ro_env R))) pub priv n 0 (global_ring tier r) = (inserted, ring)"
    by (cases "hr_insert (GlobalHasher (env_hash (ro_env R))) pub priv n 0 (global_ring tier r)")
  show ?thesis
    by (simp add: membership_handler_def router_join_def tier_read_def assms vec_at_def numeral_eq_Suc ring Let_def
        insert_global_def outbox_fold_send tell_workers_def)
qed

lemma rebalance_key_rings:
  assumes "rebalance_key W n priv key s = Inr s'"
  shows "global_ring t s' = global_ring t s"
proof -
  obtain threads succeed s1 where look:
      "lookup_threads W key (kSelfTierIdVector (w_env W)) s = Inr ((threads, succeed), s1)"
    using assms by (auto simp: rebalance_key_def res_simps)
  have "global_ring t s1 = global_ring t s"
    using lookup_threads_Inr(2) [OF look] by (simp add: ctx_agree_simps)
  then show ?thesis
    using assms look by (auto simp: rebalance_key_def global_ring_def split: if_splits)
qed

lemma rebalance_keys_rings:
  "rfold (rebalance_key W n priv) keys s = Inr s' \<Longrightarrow> global_ring t s' = global_ring t s"
  by (induction keys arbitrary: s) (auto simp: res_simps dest!: rebalance_key_rings)

lemma admit_server_rings:
  assumes "admit_server W serialized tier pub priv n s = Inr s'"
  shows "global_ring t s' = global_ring t (insert_global (w_env W) tier pub priv n s)"
proof -
  obtain inserted ring where ring:
      "hr_insert (GlobalHasher (env_hash (w_env W))) pub priv n 0 (global_ring tier s) = (inserted, ring)"
    by (cases "hr_insert (GlobalHasher (env_hash (w_env W))) pub priv n 0 (global_ring tier s)")
  have notify: "global_ring t (notify_join W serialized pub priv x) = global_ring t x" for t x
    by (rule rings_agree_simps(3) [OF only_sends_agree [OF only_sends_notify_join]])
  show ?thesis
    using assms by (auto simp: admit_server_def ring insert_global_def Let_def notify
        dest!: rebalance_keys_rings [where t = t] split: if_splits)
qed


definition sample_seed :: router where
  "sample_seed = insert_global sample_env MEMORY ''6.6.6.6'' ''bb'' 0 (start_router sample_router_conf 0)"

end
