(* ===== verification/Anna_Client.thy ===== *)
theory Anna_Client
  imports Anna_Cluster
begin

text \<open>
  The client library: \<^verbatim>\<open>src/common/include/client/kvs_client.hpp\<close> and the synchronous helpers of
  \<^verbatim>\<open>src/common/include/requests.hpp\<close>. A client keeps the addresses it has learned for each key, the
  requests that wait for an address, and the reads and writes that wait for a response. Polling is
  modelled by the messages that have arrived on its two sockets; the random generator and
  the clock are parameters. The lemmas show that its tables stay well formed and that no operation
  faults, that addresses release the requests waiting for them, and that timeouts resolve the rest.
\<close>

section \<open>State\<close>

record client_conf =
  cl_codec :: codec
  cl_rand_r :: "u32 \<Rightarrow> nat \<times> u32"
  cl_clock :: "nat \<Rightarrow> int"
  routing_threads :: "UserRoutingThread list"
  cl_ut :: UserThread
  timeout :: u32

record ClientPending =
  cp_tp :: int
  cp_worker_addr :: Address
  cp_request :: KeyRequest

definition empty_ClientPending :: ClientPending where
  "empty_ClientPending = \<lparr>cp_tp = 0, cp_worker_addr = [], cp_request = empty_KeyRequest\<rparr>"

record client =
  cl_rid :: u32
  cl_seed :: u32
  cl_ticks :: nat
  key_address_cache :: "(Key, Address list) omap"
  pending_request_map :: "(Key, int \<times> KeyRequest list) omap"
  pending_get_response_map :: "(Key, ClientPending) omap"
  pending_put_response_map :: "(Key, (string, ClientPending) omap) omap"
  cl_outbox :: "(Address \<times> string) list"

definition new_client :: "(string \<Rightarrow> u64) \<Rightarrow> u32 \<Rightarrow> client_conf \<Rightarrow> client" where
  "new_client hasher time cf = \<lparr>cl_rid = 0,
     cl_seed = time + ucast (hasher (ut_ip (cl_ut cf))) + ut_tid (cl_ut cf), cl_ticks = 0,
     key_address_cache = [], pending_request_map = [], pending_get_response_map = [],
     pending_put_response_map = [], cl_outbox = []\<rparr>"

definition cl_now :: "client_conf \<Rightarrow> client \<Rightarrow> int" where
  "cl_now cf s = cl_clock cf (cl_ticks s)"

definition cl_tick :: "client \<Rightarrow> client" where
  "cl_tick s = s\<lparr>cl_ticks := cl_ticks s + 1\<rparr>"

definition cl_send :: "Address \<Rightarrow> string \<Rightarrow> client \<Rightarrow> client" where
  "cl_send address message s = s\<lparr>cl_outbox := cl_outbox s @ [(address, message)]\<rparr>"

section \<open>Helpers\<close>

definition get_request_id :: "client_conf \<Rightarrow> client \<Rightarrow> string \<times> client" where
  "get_request_id cf s =
     (let rid = cl_rid s + 1;
          rid = (if rid mod 10000 = 0 then 0 else rid)
      in (ut_ip (cl_ut cf) @ '':'' @ to_string (ut_tid (cl_ut cf)) @ ''_'' @ to_string rid, s\<lparr>cl_rid := rid + 1\<rparr>))"

definition get_routing_thread :: "client_conf \<Rightarrow> client \<Rightarrow> (Address \<times> client) res" where
  "get_routing_thread cf s =
     (let (n, sd) = cl_rand_r cf (cl_seed s); s = s\<lparr>cl_seed := sd\<rparr>
      in if routing_threads cf = [] then Inl DivByZero
         else Inr (urt_key_address_connect_address (routing_threads cf ! (n mod length (routing_threads cf))), s))"

definition query_routing_async :: "client_conf \<Rightarrow> Key \<Rightarrow> client \<Rightarrow> client res" where
  "query_routing_async cf key s =
     (let (id, s) = get_request_id cf s;
          request = \<lparr>aq_response_address = ut_key_address_connect_address (cl_ut cf), aq_keys = [key],
            aq_request_id = id\<rparr>
      in rbind (get_routing_thread cf s)
           (\<lambda>(rt_thread, s). Inr (cl_send rt_thread (ser_KeyAddressRequest (cl_codec cf) request) s)))"

definition get_all_worker_threads :: "client_conf \<Rightarrow> Key \<Rightarrow> client \<Rightarrow> (Address list \<times> client) res" where
  "get_all_worker_threads cf key s =
     (case map_of (key_address_cache s) key of
        Some (address # addresses) \<Rightarrow> Inr (address # addresses, s)
      | _ \<Rightarrow>
          if map_of (pending_request_map s) key = None
          then rbind (query_routing_async cf key s) (\<lambda>s. Inr ([], s))
          else Inr ([], s))"

definition get_worker_thread :: "client_conf \<Rightarrow> Key \<Rightarrow> client \<Rightarrow> (Address \<times> client) res" where
  "get_worker_thread cf key s =
     rbind (get_all_worker_threads cf key s)
       (\<lambda>(local_cache, s).
          if local_cache = [] then Inr ([], s)
          else let (n, sd) = cl_rand_r cf (cl_seed s)
               in Inr (local_cache ! (n mod length local_cache), s\<lparr>cl_seed := sd\<rparr>))"

definition park_until_addressed :: "client_conf \<Rightarrow> Key \<Rightarrow> KeyRequest \<Rightarrow> client \<Rightarrow> client" where
  "park_until_addressed cf key request s =
     (let s = (if map_of (pending_request_map s) key = None
               then (cl_tick s)\<lparr>pending_request_map := AList.update key (cl_now cf s, []) (pending_request_map s)\<rparr>
               else s)
      in s\<lparr>pending_request_map := om_modify (0, []) key (\<lambda>(tp, requests). (tp, requests @ [request]))
             (pending_request_map s)\<rparr>)"

definition await_get :: "client_conf \<Rightarrow> Key \<Rightarrow> Address \<Rightarrow> KeyRequest \<Rightarrow> client \<Rightarrow> client" where
  "await_get cf key worker request s =
     (let s = (if map_of (pending_get_response_map s) key = None
               then (cl_tick s)\<lparr>pending_get_response_map := AList.update key
                      (empty_ClientPending\<lparr>cp_tp := cl_now cf s, cp_request := request\<rparr>)
                      (pending_get_response_map s)\<rparr>
               else s)
      in s\<lparr>pending_get_response_map := om_modify empty_ClientPending key (\<lambda>p. p\<lparr>cp_worker_addr := worker\<rparr>)
             (pending_get_response_map s)\<rparr>)"

definition await_put :: "client_conf \<Rightarrow> Key \<Rightarrow> Address \<Rightarrow> KeyRequest \<Rightarrow> client \<Rightarrow> client" where
  "await_put cf key worker request s =
     (let id = rq_request_id request;
          s = (if map_of (om_at [] (pending_put_response_map s) key) id = None
               then (cl_tick s)\<lparr>pending_put_response_map := om_modify [] key
                      (AList.update id (empty_ClientPending\<lparr>cp_tp := cl_now cf s, cp_request := request\<rparr>))
                      (pending_put_response_map s)\<rparr>
               else s)
      in s\<lparr>pending_put_response_map := om_modify [] key
             (om_modify empty_ClientPending id (\<lambda>p. p\<lparr>cp_worker_addr := worker\<rparr>)) (pending_put_response_map s)\<rparr>)"

text \<open>The request is passed by reference; the caller gets it back with its cache size filled in.\<close>

definition try_request :: "client_conf \<Rightarrow> KeyRequest \<Rightarrow> client \<Rightarrow> (KeyRequest \<times> client) res" where
  "try_request cf request s =
     rbind (vec_at (rq_tuples request) 0) (\<lambda>tuple.
     let key = kt_key tuple
     in rbind (get_worker_thread cf key s) (\<lambda>(worker, s).
          if worker = [] then Inr (request, park_until_addressed cf key request s)
          else
            let size = of_nat (length (om_at [] (key_address_cache s) key));
                request = request\<lparr>rq_tuples := (rq_tuples request)[0 := tuple\<lparr>kt_address_cache_size := size\<rparr>]\<rparr>;
                s = cl_send worker (ser_KeyRequest (cl_codec cf) request) s
            in Inr (request, if rq_type request = GET then await_get cf key worker request s
                             else await_put cf key worker request s)))"

definition prepare_data_request :: "client_conf \<Rightarrow> Key \<Rightarrow> client \<Rightarrow> KeyRequest \<times> client" where
  "prepare_data_request cf key s =
     (let (id, s) = get_request_id cf s
      in (empty_KeyRequest\<lparr>rq_request_id := id, rq_response_address := ut_response_connect_address (cl_ut cf),
            rq_tuples := [empty_KeyTuple\<lparr>kt_key := key\<rparr>]\<rparr>, s))"

definition put_async :: "client_conf \<Rightarrow> Key \<Rightarrow> string \<Rightarrow> LatticeType \<Rightarrow> client \<Rightarrow> (string \<times> client) res" where
  "put_async cf key payload lattice_type s =
     (let (request, s) = prepare_data_request cf key s;
          request = request\<lparr>rq_type := PUT,
            rq_tuples := map (\<lambda>t. t\<lparr>kt_lattice_type := lattice_type, kt_payload := payload\<rparr>) (rq_tuples request)\<rparr>
      in rbind (try_request cf request s) (\<lambda>(request, s). Inr (rq_request_id request, s)))"

definition get_async :: "client_conf \<Rightarrow> Key \<Rightarrow> client \<Rightarrow> client res" where
  "get_async cf key s =
     (if map_of (pending_get_response_map s) key = None
      then let (request, s) = prepare_data_request cf key s
           in rbind (try_request cf (request\<lparr>rq_type := GET\<rparr>) s) (\<lambda>(request, s). Inr s)
      else Inr s)"

definition invalidate_cache_for_key :: "Key \<Rightarrow> client \<Rightarrow> client" where
  "invalidate_cache_for_key key s = s\<lparr>key_address_cache := AList.delete key (key_address_cache s)\<rparr>"

definition check_tuple :: "KeyTuple \<Rightarrow> client \<Rightarrow> bool \<times> client" where
  "check_tuple tuple s =
     (if kt_error tuple = WRONG_THREAD then (True, invalidate_cache_for_key (kt_key tuple) s)
      else if kt_invalidate tuple then (False, invalidate_cache_for_key (kt_key tuple) s)
      else (False, s))"

definition invalidate_cache_for_worker :: "Address \<Rightarrow> client \<Rightarrow> client res" where
  "invalidate_cache_for_worker worker s =
     rbind (vec_at (split worker CHR '':'') 1) (\<lambda>signature.
     rbind (rfold (\<lambda>(key, addresses) remove_set. rfold (\<lambda>address remove_set.
              rbind (vec_at (split address CHR '':'') 1) (\<lambda>token.
                Inr (if token = signature then List.insert key remove_set else remove_set)))
              addresses remove_set) (key_address_cache s) [])
       (\<lambda>remove_set. Inr (s\<lparr>key_address_cache := fold AList.delete remove_set (key_address_cache s)\<rparr>)))"

definition generate_bad_response :: "KeyRequest \<Rightarrow> KeyResponse res" where
  "generate_bad_response req =
     rbind (vec_at (rq_tuples req) 0) (\<lambda>tuple.
       let tp = empty_KeyTuple\<lparr>kt_key := kt_key tuple\<rparr>;
           tp = (if rq_type req = PUT
                 then tp\<lparr>kt_lattice_type := kt_lattice_type tuple, kt_payload := kt_payload tuple\<rparr> else tp)
       in Inr (empty_KeyResponse\<lparr>rs_type := rq_type req, rs_response_id := rq_request_id req, rs_error := TIMEOUT,
            rs_tuples := [tp]\<rparr>))"

section \<open>Receiving\<close>

text \<open>
  The loop over the waiting requests refers into the vector it iterates over; a request that is
  parked again grows that vector.
\<close>

definition release_requests :: "client_conf \<Rightarrow> Key \<Rightarrow> client \<Rightarrow> client res" where
  "release_requests cf key s =
     (let requests = snd (om_at (0, []) (pending_request_map s) key)
      in rfold (\<lambda>request s. rbind (try_request cf request s) (\<lambda>(_, s').
           if length (snd (om_at (0, []) (pending_request_map s') key)) = length requests then Inr s'
           else Inl InvalidIterator)) requests s)"

definition receive_addresses :: "client_conf \<Rightarrow> string \<Rightarrow> client \<Rightarrow> client res" where
  "receive_addresses cf serialized s =
     (let response = snd (parse_KeyAddressResponse (cl_codec cf) serialized)
      in rbind (vec_at (ar_addresses response) 0) (\<lambda>addresses.
         let key = ka_key addresses
         in if map_of (pending_request_map s) key = None then Inr s
            else if ar_error response = NO_SERVERS
            then query_routing_async cf key ((cl_tick s)\<lparr>pending_request_map :=
                   om_modify (0, []) key (\<lambda>(tp, requests). (cl_now cf s, requests)) (pending_request_map s)\<rparr>)
            else
              let s = fold (\<lambda>ip s. s\<lparr>key_address_cache := om_modify [] key (List.insert ip) (key_address_cache s)\<rparr>)
                    (ka_ips addresses) s
              in rbind (release_requests cf key s)
                   (\<lambda>s. Inr (s\<lparr>pending_request_map := AList.delete key (pending_request_map s)\<rparr>))))"

definition receive_get :: "client_conf \<Rightarrow> KeyResponse \<Rightarrow> KeyTuple \<Rightarrow> client \<Rightarrow> (KeyResponse list \<times> client) res" where
  "receive_get cf response tuple s =
     (let key = kt_key tuple
      in case map_of (pending_get_response_map s) key of
           None \<Rightarrow> Inr ([], s)
         | Some p \<Rightarrow>
             let (again, s) = check_tuple tuple s
             in if again
                then let s = (cl_tick s)\<lparr>pending_get_response_map := om_modify empty_ClientPending key
                           (\<lambda>p. p\<lparr>cp_tp := cl_now cf s\<rparr>) (pending_get_response_map s)\<rparr>
                     in rbind (try_request cf (cp_request p) s)
                          (\<lambda>(request, s). Inr ([], s\<lparr>pending_get_response_map := om_modify empty_ClientPending key
                             (\<lambda>p. p\<lparr>cp_request := request\<rparr>) (pending_get_response_map s)\<rparr>))
                else Inr ([response],
                       s\<lparr>pending_get_response_map := AList.delete key (pending_get_response_map s)\<rparr>))"

definition receive_put :: "client_conf \<Rightarrow> KeyResponse \<Rightarrow> KeyTuple \<Rightarrow> client \<Rightarrow> (KeyResponse list \<times> client) res" where
  "receive_put cf response tuple s =
     (let key = kt_key tuple; id = rs_response_id response
      in case map_of (pending_put_response_map s) key of
           None \<Rightarrow> Inr ([], s)
         | Some pending \<Rightarrow>
             (case map_of pending id of
                None \<Rightarrow> Inr ([], s)
              | Some p \<Rightarrow>
                  let (again, s) = check_tuple tuple s
                  in if again
                     then let s = (cl_tick s)\<lparr>pending_put_response_map := om_modify [] key
                                (om_modify empty_ClientPending id (\<lambda>p. p\<lparr>cp_tp := cl_now cf s\<rparr>))
                                (pending_put_response_map s)\<rparr>
                          in rbind (try_request cf (cp_request p) s)
                               (\<lambda>(request, s). Inr ([], s\<lparr>pending_put_response_map := om_modify [] key
                                  (om_modify empty_ClientPending id (\<lambda>p. p\<lparr>cp_request := request\<rparr>))
                                  (pending_put_response_map s)\<rparr>))
                     else let pending = AList.delete id pending
                          in Inr ([response], s\<lparr>pending_put_response_map :=
                               (if pending = [] then AList.delete key (pending_put_response_map s)
                                else AList.update key pending (pending_put_response_map s))\<rparr>)))"

definition receive_response :: "client_conf \<Rightarrow> string \<Rightarrow> client \<Rightarrow> (KeyResponse list \<times> client) res" where
  "receive_response cf serialized s =
     (let response = snd (parse_KeyResponse (cl_codec cf) serialized)
      in rbind (vec_at (rs_tuples response) 0) (\<lambda>tuple.
           if rs_type response = GET then receive_get cf response tuple s
           else receive_put cf response tuple s))"

section \<open>Timeouts\<close>

definition timed_out :: "client_conf \<Rightarrow> int \<Rightarrow> client \<Rightarrow> bool" where
  "timed_out cf tp s \<longleftrightarrow> to_millis (cl_now cf s - tp) > int (unat (timeout cf))"

definition expire_request_entry ::
    "client_conf \<Rightarrow> Key \<times> int \<times> KeyRequest list \<Rightarrow> KeyResponse list \<times> Key list \<times> client
      \<Rightarrow> (KeyResponse list \<times> Key list \<times> client) res" where
  "expire_request_entry cf = (\<lambda>(key, tp, requests) (result, to_remove, s).
     if timed_out cf tp s
     then rbind (rfold (\<lambda>req result. rbind (generate_bad_response req) (\<lambda>r. Inr (result @ [r]))) requests result)
            (\<lambda>result. Inr (result, List.insert key to_remove, cl_tick s))
     else Inr (result, to_remove, cl_tick s))"

definition expire_requests :: "client_conf \<Rightarrow> client \<Rightarrow> (KeyResponse list \<times> client) res" where
  "expire_requests cf s =
     rbind (rfold (expire_request_entry cf) (pending_request_map s) ([], [], s))
       (\<lambda>(result, to_remove, s). Inr (result,
          s\<lparr>pending_request_map := fold AList.delete to_remove (pending_request_map s)\<rparr>))"

definition expire_get_entry ::
    "client_conf \<Rightarrow> Key \<times> ClientPending \<Rightarrow> KeyResponse list \<times> Key list \<times> client
      \<Rightarrow> (KeyResponse list \<times> Key list \<times> client) res" where
  "expire_get_entry cf = (\<lambda>(key, p) (result, to_remove, s).
     if timed_out cf (cp_tp p) s
     then rbind (generate_bad_response (cp_request p)) (\<lambda>r.
          rbind (invalidate_cache_for_worker (cp_worker_addr p) (cl_tick s)) (\<lambda>s.
            Inr (result @ [r], List.insert key to_remove, s)))
     else Inr (result, to_remove, cl_tick s))"

definition expire_gets :: "client_conf \<Rightarrow> client \<Rightarrow> (KeyResponse list \<times> client) res" where
  "expire_gets cf s =
     rbind (rfold (expire_get_entry cf) (pending_get_response_map s) ([], [], s))
       (\<lambda>(result, to_remove, s). Inr (result,
          s\<lparr>pending_get_response_map := fold AList.delete to_remove (pending_get_response_map s)\<rparr>))"

definition expire_put_entry ::
    "client_conf \<Rightarrow> Key \<Rightarrow> string \<times> ClientPending \<Rightarrow> KeyResponse list \<times> (Key, string list) omap \<times> client
      \<Rightarrow> (KeyResponse list \<times> (Key, string list) omap \<times> client) res" where
  "expire_put_entry cf key = (\<lambda>(i, p) (result, to_remove, s).
     if timed_out cf (cp_tp p) s
     then rbind (generate_bad_response (cp_request p)) (\<lambda>r.
          rbind (invalidate_cache_for_worker (cp_worker_addr p) (cl_tick s)) (\<lambda>s.
            Inr (result @ [r], om_modify [] key (List.insert i) to_remove, s)))
     else Inr (result, to_remove, cl_tick s))"

definition expire_puts :: "client_conf \<Rightarrow> client \<Rightarrow> (KeyResponse list \<times> client) res" where
  "expire_puts cf s =
     rbind (rfold (\<lambda>(key, pending). rfold (expire_put_entry cf key) pending) (pending_put_response_map s) ([], [], s))
       (\<lambda>(result, to_remove, s). Inr (result,
          s\<lparr>pending_put_response_map := fold (\<lambda>(key, ids). om_modify [] key (fold AList.delete ids))
             to_remove (pending_put_response_map s)\<rparr>))"

definition receive_async ::
    "client_conf \<Rightarrow> string option \<Rightarrow> string option \<Rightarrow> client \<Rightarrow> (KeyResponse list \<times> client) res" where
  "receive_async cf addresses response s =
     rbind (case addresses of None \<Rightarrow> Inr s | Some m \<Rightarrow> receive_addresses cf m s) (\<lambda>s.
     rbind (case response of None \<Rightarrow> Inr ([], s) | Some m \<Rightarrow> receive_response cf m s) (\<lambda>(received, s).
     rbind (expire_requests cf s) (\<lambda>(unaddressed, s).
     rbind (expire_gets cf s) (\<lambda>(gets, s).
     rbind (expire_puts cf s) (\<lambda>(puts, s).
       Inr (received @ unaddressed @ gets @ puts, s))))))"

definition clear_cache :: "client \<Rightarrow> client" where
  "clear_cache s = s\<lparr>key_address_cache := []\<rparr>"

section \<open>Synchronous requests\<close>

text \<open>The results of the successive calls of \<^verbatim>\<open>recv\<close>, absent for a timeout; \<open>None\<close> means that \<^verbatim>\<open>receive\<close> still waits.\<close>

fun receive_loop :: "('r \<Rightarrow> string) \<Rightarrow> 'r option list \<Rightarrow> u32 \<Rightarrow> string list \<Rightarrow> 'r list \<Rightarrow> (bool \<times> 'r list) option" where
  "receive_loop id_of [] timeout_limit request_ids responses = None"
| "receive_loop id_of (Some response # inputs) timeout_limit request_ids responses =
     (let resp_id = id_of response; found = resp_id \<in> set request_ids;
          request_ids = (if found then remove1 resp_id request_ids else request_ids);
          responses = (if found then responses @ [response] else responses)
      in if request_ids = [] then Some (True, responses)
         else receive_loop id_of inputs timeout_limit request_ids responses)"
| "receive_loop id_of (None # inputs) timeout_limit request_ids responses =
     (let timeout_limit = timeout_limit - 1
      in if timeout_limit = 0 then Some (False, [])
         else receive_loop id_of inputs timeout_limit request_ids responses)"

definition receive :: "('r \<Rightarrow> string) \<Rightarrow> 'r option list \<Rightarrow> string list \<Rightarrow> (bool \<times> 'r list) option" where
  "receive id_of inputs request_ids = receive_loop id_of inputs (of_nat (length request_ids)) request_ids []"

definition make_request ::
    "('q \<Rightarrow> string) \<Rightarrow> ('q \<Rightarrow> string) \<Rightarrow> ('r \<Rightarrow> string) \<Rightarrow> 'r \<Rightarrow> 'q \<Rightarrow> 'r option list \<Rightarrow> string \<times> (bool \<times> 'r) option" where
  "make_request ser request_id id_of default_response request inputs =
     (ser request, map_option (\<lambda>(succeed, responses). (succeed, if succeed then responses ! 0 else default_response))
       (receive id_of inputs [request_id request]))"

section \<open>The client's books are well formed\<close>

definition om_all :: "('k \<Rightarrow> 'v \<Rightarrow> bool) \<Rightarrow> ('k, 'v) omap \<Rightarrow> bool" where
  "om_all P m \<longleftrightarrow> om_wf m \<and> (\<forall>k v. map_of m k = Some v \<longrightarrow> P k v)"

lemma om_all_Nil [simp]: "om_all P []"
  by (simp add: om_all_def)

lemma om_all_wf: "om_all P m \<Longrightarrow> om_wf m"
  by (simp add: om_all_def)

lemma om_allD: "om_all P m \<Longrightarrow> map_of m k = Some v \<Longrightarrow> P k v"
  by (simp add: om_all_def)

lemma om_all_mem: "om_all P m \<Longrightarrow> (k, v) \<in> set m \<Longrightarrow> P k v"
  by (simp add: om_all_def om_wf_def)

lemma om_all_update: "om_all P m \<Longrightarrow> P k v \<Longrightarrow> om_all P (AList.update k v m)"
  by (auto simp: om_all_def update_conv')

lemma om_all_delete: "om_all P m \<Longrightarrow> om_all P (AList.delete k m)"
  by (auto simp: om_all_def split: if_splits)

lemma om_all_deletes: "om_all P m \<Longrightarrow> om_all P (fold AList.delete ks m)"
  by (induction ks arbitrary: m) (simp_all add: om_all_delete)

lemma om_all_modify: "om_all P m \<Longrightarrow> P k (f (om_at d m k)) \<Longrightarrow> om_all P (om_modify d k f m)"
  by (simp add: om_modify_def om_all_update)

lemma om_all_at: "om_all P m \<Longrightarrow> P k d \<Longrightarrow> P k (om_at d m k)"
  by (auto simp: om_at_def om_all_def split: option.split)

definition request_for :: "Key \<Rightarrow> KeyRequest \<Rightarrow> bool" where
  "request_for key request \<longleftrightarrow> (\<exists>tuple tuples. rq_tuples request = tuple # tuples \<and> kt_key tuple = key)"

definition address_ok :: "Address \<Rightarrow> bool" where
  "address_ok address \<longleftrightarrow> address \<noteq> [] \<and> 2 \<le> length (split address CHR '':'')"

definition get_pending_ok :: "Key \<Rightarrow> ClientPending \<Rightarrow> bool" where
  "get_pending_ok key p \<longleftrightarrow>
     request_for key (cp_request p) \<and> rq_type (cp_request p) = GET \<and> address_ok (cp_worker_addr p)"

definition put_pending_ok :: "Key \<Rightarrow> string \<Rightarrow> ClientPending \<Rightarrow> bool" where
  "put_pending_ok key i p \<longleftrightarrow> request_for key (cp_request p) \<and> rq_type (cp_request p) \<noteq> GET
     \<and> rq_request_id (cp_request p) = i \<and> address_ok (cp_worker_addr p)"

definition client_ok :: "client \<Rightarrow> bool" where
  "client_ok s \<longleftrightarrow> om_all (\<lambda>key. list_all address_ok) (key_address_cache s)
     \<and> om_all (\<lambda>key (tp, requests). list_all (request_for key) requests) (pending_request_map s)
     \<and> om_all get_pending_ok (pending_get_response_map s)
     \<and> om_all (\<lambda>key. om_all (put_pending_ok key)) (pending_put_response_map s)"

lemma client_ok_frame [simp]:
  "client_ok (cl_tick s) = client_ok s" "client_ok (cl_send a m s) = client_ok s"
  "client_ok (s\<lparr>cl_seed := n\<rparr>) = client_ok s" "client_ok (s\<lparr>cl_rid := r\<rparr>) = client_ok s"
  by (simp_all add: client_ok_def cl_tick_def cl_send_def)

lemma client_ok_new: "client_ok (new_client hasher time cf)"
  by (simp add: client_ok_def new_client_def)

lemma query_routing_total:
  assumes "routing_threads cf \<noteq> []" "client_ok s"
  shows "\<exists>s'. query_routing_async cf key s = Inr s' \<and> client_ok s' \<and> key_address_cache s' = key_address_cache s
    \<and> pending_request_map s' = pending_request_map s \<and> pending_get_response_map s' = pending_get_response_map s
    \<and> pending_put_response_map s' = pending_put_response_map s"
  using assms by (auto simp: query_routing_async_def get_request_id_def get_routing_thread_def Let_def split_beta
      cl_send_def client_ok_def)

lemma get_worker_thread_total:
  assumes "routing_threads cf \<noteq> []" "client_ok s"
  shows "\<exists>worker s'. get_worker_thread cf key s = Inr (worker, s') \<and> client_ok s'
    \<and> key_address_cache s' = key_address_cache s \<and> pending_request_map s' = pending_request_map s
    \<and> pending_get_response_map s' = pending_get_response_map s
    \<and> pending_put_response_map s' = pending_put_response_map s
    \<and> (if om_at [] (key_address_cache s) key = [] then worker = []
       else worker \<in> set (om_at [] (key_address_cache s) key) \<and> cl_outbox s' = cl_outbox s)"
proof (cases "om_at [] (key_address_cache s) key")
  case Nil
  then have none: "case map_of (key_address_cache s) key of None \<Rightarrow> True | Some as \<Rightarrow> as = []"
    by (auto simp: om_at_def split: option.splits)
  show ?thesis
    using none query_routing_total [OF assms, of key] Nil assms(2)
    by (auto simp: get_worker_thread_def get_all_worker_threads_def split: option.splits)
next
  case (Cons address addresses)
  then have some: "map_of (key_address_cache s) key = Some (address # addresses)"
    by (auto simp: om_at_def split: option.splits)
  have "(address # addresses) ! (n mod length (address # addresses)) \<in> set (address # addresses)" for n
    by (rule nth_mem) simp
  then show ?thesis
    using assms(2) by (auto simp: get_worker_thread_def get_all_worker_threads_def some Cons split_beta Let_def)
qed

lemma modify_updated: "om_modify d k f (AList.update k v m) = AList.update k (f v) m"
  by (simp add: om_modify_def AList.update_last)

lemma park_ok:
  assumes "client_ok s" "request_for key request"
  shows "client_ok (park_until_addressed cf key request s)"
proof (cases "map_of (pending_request_map s) key")
  case None
  then show ?thesis
    using assms by (simp add: park_until_addressed_def client_ok_def cl_tick_def modify_updated om_all_update)
next
  case (Some x)
  then have "list_all (request_for key) (snd x)"
    using assms(1) by (auto simp: client_ok_def dest: om_allD)
  then show ?thesis
    using Some assms by (auto simp: park_until_addressed_def client_ok_def om_at_Some split_beta intro!: om_all_modify)
qed

lemma await_get_ok:
  assumes "client_ok s" "request_for key request" "rq_type request = GET" "address_ok worker"
  shows "client_ok (await_get cf key worker request s)"
proof (cases "map_of (pending_get_response_map s) key")
  case None
  then show ?thesis
    using assms by (simp add: await_get_def client_ok_def cl_tick_def modify_updated om_all_update get_pending_ok_def)
next
  case (Some p)
  then have "get_pending_ok key p"
    using assms(1) by (auto simp: client_ok_def dest: om_allD)
  then show ?thesis
    using Some assms
    by (auto simp: await_get_def client_ok_def om_at_Some get_pending_ok_def intro!: om_all_modify)
qed

lemma pending_puts_ok: "client_ok s \<Longrightarrow> om_all (put_pending_ok key) (om_at [] (pending_put_response_map s) key)"
  unfolding client_ok_def by (rule om_all_at [where P = "\<lambda>key. om_all (put_pending_ok key)"]) simp_all

lemma await_put_ok:
  assumes "client_ok s" "request_for key request" "rq_type request \<noteq> GET" "address_ok worker"
  shows "client_ok (await_put cf key worker request s)"
proof (cases "map_of (om_at [] (pending_put_response_map s) key) (rq_request_id request)")
  case None
  have "om_modify [] key f (om_modify [] key g m) = AList.update key (f (g (om_at [] m key))) m"
    for f g :: "(string, ClientPending) omap \<Rightarrow> _" and m
    by (simp add: om_modify_def AList.update_last)
  with None show ?thesis
    using assms pending_puts_ok [OF assms(1), of key]
    by (simp add: await_put_def client_ok_def cl_tick_def modify_updated om_all_update put_pending_ok_def)
next
  case (Some p)
  then have "put_pending_ok key (rq_request_id request) p"
    using pending_puts_ok [OF assms(1), of key] by (rule om_allD [rotated])
  then show ?thesis
    using Some assms pending_puts_ok [OF assms(1), of key]
    by (auto simp: await_put_def client_ok_def om_at_Some put_pending_ok_def Let_def intro!: om_all_modify)
qed

lemma try_request_total:
  assumes "routing_threads cf \<noteq> []" "client_ok s" "request_for key request"
  shows "\<exists>request' s'. try_request cf request s = Inr (request', s') \<and> client_ok s' \<and> request_for key request'
    \<and> rq_type request' = rq_type request \<and> rq_request_id request' = rq_request_id request"
proof -
  obtain tuple tuples where tuples: "rq_tuples request = tuple # tuples" "kt_key tuple = key"
    using assms(3) by (auto simp: request_for_def)
  obtain worker s1 where s1: "get_worker_thread cf key s = Inr (worker, s1)" "client_ok s1"
      "key_address_cache s1 = key_address_cache s"
      "worker = [] \<or> worker \<in> set (om_at [] (key_address_cache s) key)"
    using get_worker_thread_total [OF assms(1,2), of key] by (auto split: if_splits)
  have "list_all address_ok (om_at [] (key_address_cache s) key)"
    using assms(2) unfolding client_ok_def
    by (intro om_all_at [where P = "\<lambda>key. list_all address_ok" and k = key]) simp_all
  then have worker: "worker \<noteq> [] \<Longrightarrow> address_ok worker"
    using s1(4) by (auto simp: list_all_iff)
  have run: "try_request cf request s = (if worker = [] then Inr (request, park_until_addressed cf key request s1)
    else let r = request\<lparr>rq_tuples := tuple\<lparr>kt_address_cache_size :=
             of_nat (length (om_at [] (key_address_cache s1) key))\<rparr> # tuples\<rparr>;
           s2 = cl_send worker (ser_KeyRequest (cl_codec cf) r) s1
       in Inr (r, if rq_type r = GET then await_get cf key worker r s2 else await_put cf key worker r s2))"
    by (simp add: try_request_def vec_at_def tuples s1(1) Let_def)
  show ?thesis
  proof (cases "worker = []")
    case True
    then show ?thesis
      using park_ok [OF s1(2) assms(3)] assms(3) by (simp add: run)
  next
    case False
    let ?r = "request\<lparr>rq_tuples := tuple\<lparr>kt_address_cache_size :=
      of_nat (length (om_at [] (key_address_cache s1) key))\<rparr> # tuples\<rparr>"
    let ?s2 = "cl_send worker (ser_KeyRequest (cl_codec cf) ?r) s1"
    have r: "request_for key ?r" "rq_type ?r = rq_type request" "rq_request_id ?r = rq_request_id request"
      using tuples(2) by (simp_all add: request_for_def)
    have s2: "client_ok ?s2"
      using s1(2) by simp
    have "client_ok (if rq_type ?r = GET then await_get cf key worker ?r ?s2 else await_put cf key worker ?r ?s2)"
      using await_get_ok [OF s2 r(1) _ worker [OF False]] await_put_ok [OF s2 r(1) _ worker [OF False]]
      by simp
    then show ?thesis
      unfolding run Let_def using False r by (simp only: if_False) blast
  qed
qed

lemma prepare_data_request_ok:
  assumes "prepare_data_request cf key s = (request, s')" "client_ok s"
  shows "client_ok s'" "rq_tuples request = [empty_KeyTuple\<lparr>kt_key := key\<rparr>]"
  using assms by (auto simp: prepare_data_request_def get_request_id_def Let_def)

lemma put_async_total:
  assumes "routing_threads cf \<noteq> []" "client_ok s"
  shows "\<exists>i s'. put_async cf key payload type s = Inr (i, s') \<and> client_ok s'"
proof -
  obtain request s1 where p: "prepare_data_request cf key s = (request, s1)"
    by (cases "prepare_data_request cf key s")
  note ok = prepare_data_request_ok [OF p assms(2)]
  let ?r = "request\<lparr>rq_type := PUT,
    rq_tuples := map (\<lambda>t. t\<lparr>kt_lattice_type := type, kt_payload := payload\<rparr>) (rq_tuples request)\<rparr>"
  have "request_for key ?r"
    by (simp add: request_for_def ok(2))
  from try_request_total [OF assms(1) ok(1) this] show ?thesis
    by (auto simp: put_async_def p)
qed

lemma get_async_total:
  assumes "routing_threads cf \<noteq> []" "client_ok s"
  shows "\<exists>s'. get_async cf key s = Inr s' \<and> client_ok s'"
proof -
  obtain request s1 where p: "prepare_data_request cf key s = (request, s1)"
    by (cases "prepare_data_request cf key s")
  note ok = prepare_data_request_ok [OF p assms(2)]
  have "request_for key (request\<lparr>rq_type := GET\<rparr>)"
    by (simp add: request_for_def ok(2))
  from try_request_total [OF assms(1) ok(1) this] show ?thesis
    using assms(2) by (auto simp: get_async_def p)
qed

section \<open>Timeouts resolve every request\<close>

definition bad_response :: "KeyRequest \<Rightarrow> KeyResponse" where
  "bad_response req = \<lparr>rs_type = rq_type req,
     rs_tuples = [if rq_type req = PUT
       then empty_KeyTuple\<lparr>kt_key := kt_key (hd (rq_tuples req)),
         kt_lattice_type := kt_lattice_type (hd (rq_tuples req)), kt_payload := kt_payload (hd (rq_tuples req))\<rparr>
       else empty_KeyTuple\<lparr>kt_key := kt_key (hd (rq_tuples req))\<rparr>],
     rs_response_id = rq_request_id req, rs_error = TIMEOUT\<rparr>"

lemma generate_bad_response_eq: "request_for key req \<Longrightarrow> generate_bad_response req = Inr (bad_response req)"
  by (auto simp: request_for_def generate_bad_response_def vec_at_def Let_def bad_response_def empty_KeyResponse_def)

text \<open>A time so long ago that it has timed out at whatever moment the clock is read from now on.\<close>

definition late :: "client_conf \<Rightarrow> int \<Rightarrow> client \<Rightarrow> bool" where
  "late cf tp s \<longleftrightarrow> (\<forall>n \<ge> cl_ticks s. to_millis (cl_clock cf n - tp) > int (unat (timeout cf)))"

lemma late_timed_out: "late cf tp s \<Longrightarrow> timed_out cf tp s"
  by (simp add: late_def timed_out_def cl_now_def)

lemma late_mono: "late cf tp s \<Longrightarrow> cl_ticks s \<le> cl_ticks s' \<Longrightarrow> late cf tp s'"
  by (simp add: late_def)

lemma ticks_tick [simp]: "cl_ticks (cl_tick s) = Suc (cl_ticks s)"
  by (simp add: cl_tick_def)

definition same_books :: "client \<Rightarrow> client \<Rightarrow> bool" where
  "same_books s s' \<longleftrightarrow> pending_request_map s' = pending_request_map s
     \<and> pending_get_response_map s' = pending_get_response_map s
     \<and> pending_put_response_map s' = pending_put_response_map s \<and> cl_ticks s \<le> cl_ticks s' \<and> cl_outbox s' = cl_outbox s"

lemma same_books_refl [simp]: "same_books s s"
  by (simp add: same_books_def)

lemma same_books_trans: "same_books a b \<Longrightarrow> same_books b c \<Longrightarrow> same_books a c"
  by (simp add: same_books_def)

lemma same_books_tick [simp]: "same_books s (cl_tick s)"
  by (simp add: same_books_def cl_tick_def)

definition cache_ok :: "client \<Rightarrow> bool" where
  "cache_ok s \<longleftrightarrow> om_all (\<lambda>key. list_all address_ok) (key_address_cache s)"

lemma cache_ok_tick [simp]: "cache_ok (cl_tick s) = cache_ok s"
  by (simp add: cache_ok_def cl_tick_def)

lemma invalidate_worker_total:
  assumes "address_ok worker" "cache_ok s"
  shows "\<exists>s'. invalidate_cache_for_worker worker s = Inr s' \<and> same_books s s' \<and> cache_ok s'"
proof -
  have token: "\<exists>token. vec_at (split address CHR '':'') 1 = Inr token" if "address_ok address" for address
    using that by (auto simp: address_ok_def vec_at_def)
  obtain signature where sig: "vec_at (split worker CHR '':'') 1 = Inr signature"
    using token [OF assms(1)] by blast
  have inner: "\<exists>rs'. rfold (\<lambda>address remove_set. rbind (vec_at (split address CHR '':'') 1) (\<lambda>token.
      Inr (if token = signature then List.insert key remove_set else remove_set))) addresses rs = Inr rs'"
    if "list_all address_ok addresses" for key addresses rs
    using that
  proof (induction addresses arbitrary: rs)
    case (Cons address addresses)
    then obtain token where "vec_at (split address CHR '':'') 1 = Inr token"
      using token by auto
    then show ?case
      using Cons by simp
  qed simp
  have "\<exists>rs'. rfold (\<lambda>(key, addresses) remove_set. rfold (\<lambda>address remove_set.
      rbind (vec_at (split address CHR '':'') 1) (\<lambda>token.
        Inr (if token = signature then List.insert key remove_set else remove_set))) addresses remove_set) m rs = Inr rs'"
    if "\<forall>(key, addresses) \<in> set m. list_all address_ok addresses" for m rs
    using that
  proof (induction m arbitrary: rs)
    case (Cons x m)
    obtain rs1 where "rfold (\<lambda>address remove_set. rbind (vec_at (split address CHR '':'') 1) (\<lambda>token.
        Inr (if token = signature then List.insert (fst x) remove_set else remove_set))) (snd x) rs = Inr rs1"
      using inner Cons.prems by (cases x) fastforce
    then show ?case
      using Cons by (simp add: split_beta)
  qed simp
  moreover have "\<forall>(key, addresses) \<in> set (key_address_cache s). list_all address_ok addresses"
    using assms(2) by (auto simp: cache_ok_def dest: om_all_mem)
  ultimately obtain remove where "rfold (\<lambda>(key, addresses) remove_set. rfold (\<lambda>address remove_set.
      rbind (vec_at (split address CHR '':'') 1) (\<lambda>token.
        Inr (if token = signature then List.insert key remove_set else remove_set))) addresses remove_set)
      (key_address_cache s) [] = Inr remove"
    by blast
  then show ?thesis
    using assms(2) unfolding invalidate_cache_for_worker_def sig rbind_Inr
    by (simp add: same_books_def cache_ok_def om_all_deletes)
qed

lemma bad_responses_total:
  assumes "list_all (request_for key) requests"
  shows "rfold (\<lambda>req result. rbind (generate_bad_response req) (\<lambda>r. Inr (result @ [r]))) requests result =
    Inr (result @ map bad_response requests)"
  using assms
proof (induction requests arbitrary: result)
  case (Cons req requests)
  then have "generate_bad_response req = Inr (bad_response req)"
    using generate_bad_response_eq [of key req] by simp
  with Cons show ?case
    by simp
qed simp

text \<open>
  What a pass over pending entries does: \<open>R\<close> gives the responses an entry times out with, \<open>D\<close> what is
  then removed, \<open>T\<close> its time, and \<open>K\<close> what has been collected for removal.
\<close>

definition expired ::
    "client_conf \<Rightarrow> ('r \<Rightarrow> 'd set) \<Rightarrow> ('x \<Rightarrow> KeyResponse set) \<Rightarrow> ('x \<Rightarrow> 'd set) \<Rightarrow> ('x \<Rightarrow> int) \<Rightarrow> 'x list
      \<Rightarrow> KeyResponse list \<times> 'r \<times> client \<Rightarrow> KeyResponse list \<times> 'r \<times> client \<Rightarrow> bool" where
  "expired cf K R D T xs = (\<lambda>(result, remove, s) (result', remove', s').
     same_books s s' \<and> (cache_ok s \<longrightarrow> cache_ok s')
   \<and> set result \<subseteq> set result' \<and> set result' \<subseteq> set result \<union> (\<Union>x \<in> set xs. R x)
   \<and> K remove \<subseteq> K remove' \<and> K remove' \<subseteq> K remove \<union> (\<Union>x \<in> set xs. D x)
   \<and> (\<forall>x \<in> set xs. late cf (T x) s \<longrightarrow> R x \<subseteq> set result' \<and> D x \<subseteq> K remove'))"

lemma expired_Nil: "expired cf K R D T [] a a"
  by (simp add: expired_def split_beta)

lemma expired_Cons:
  assumes "expired cf K R D T [x] a b" "expired cf K R D T xs b c"
  shows "expired cf K R D T (x # xs) a c"
proof -
  obtain result remove s where a: "a = (result, remove, s)"
    by (cases a)
  obtain result' remove' s' where b: "b = (result', remove', s')"
    by (cases b)
  obtain result'' remove'' s'' where c: "c = (result'', remove'', s'')"
    by (cases c)
  have later: "late cf t s'" if "late cf t s" for t
    using late_mono [OF that] assms(1) by (simp add: expired_def a b same_books_def)
  have "same_books s s''"
    using assms by (auto simp: expired_def a b c intro: same_books_trans)
  moreover have "set result \<subseteq> set result''" "K remove \<subseteq> K remove''"
      "set result'' \<subseteq> set result \<union> (\<Union>y \<in> set (x # xs). R y)" "K remove'' \<subseteq> K remove \<union> (\<Union>y \<in> set (x # xs). D y)"
    using assms by (auto simp: expired_def a b c)
  moreover have "R y \<subseteq> set result'' \<and> D y \<subseteq> K remove''" if "y \<in> set (x # xs)" "late cf (T y) s" for y
    using that later assms by (auto simp: expired_def a b c)
  ultimately show ?thesis
    using assms by (auto simp: expired_def a b c)
qed

lemma expired_loop:
  assumes "\<And>x a. x \<in> set xs \<Longrightarrow> cache_ok (snd (snd a)) \<Longrightarrow> \<exists>b. step x a = Inr b \<and> expired cf K R D T [x] a b"
    and "cache_ok (snd (snd a))"
  shows "\<exists>b. rfold step xs a = Inr b \<and> expired cf K R D T xs a b"
  using assms
proof (induction xs arbitrary: a)
  case Nil
  then show ?case
    using expired_Nil by (cases a) auto
next
  case (Cons x xs)
  obtain b where b: "step x a = Inr b" "expired cf K R D T [x] a b"
    using Cons.prems(1) [of x a] Cons.prems(2) by auto
  have "cache_ok (snd (snd b))"
    using b(2) Cons.prems(2) by (auto simp: expired_def split_beta)
  from Cons.IH [OF _ this] Cons.prems(1) obtain c where "rfold step xs b = Inr c" "expired cf K R D T xs b c"
    by (meson list.set_intros(2))
  then show ?case
    using b expired_Cons by fastforce
qed

lemma expired_once:
  assumes "same_books s s'" "cache_ok s \<longrightarrow> cache_ok s'"
    and "if timed_out cf (T x) s then set result' = set result \<union> R x \<and> K remove' = K remove \<union> D x
      else set result' = set result \<and> K remove' = K remove"
  shows "expired cf K R D T [x] (result, remove, s) (result', remove', s')"
  using assms late_timed_out [of cf "T x" s] by (auto simp: expired_def split: if_splits)

lemma client_ok_cache: "client_ok s \<Longrightarrow> cache_ok s"
  by (simp add: client_ok_def cache_ok_def)

lemma same_books_ok:
  assumes "same_books s s'" "client_ok s" "cache_ok s'"
  shows "client_ok s'"
  using assms by (simp add: same_books_def client_ok_def cache_ok_def)

lemma deletes_map_of: "map_of (fold AList.delete ks m) k = (if k \<in> set ks then None else map_of m k)"
  by (induction ks arbitrary: m) auto

lemma expire_request_entry_ok:
  assumes "list_all (request_for key) requests"
  shows "\<exists>b. expire_request_entry cf (key, tp, requests) a = Inr b
    \<and> expired cf set (\<lambda>(key, tp, requests). bad_response ` set requests) (\<lambda>(key, tp, requests). {key})
        (\<lambda>(key, tp, requests). tp) [(key, tp, requests)] a b"
  using assms by (cases a) (auto simp: expire_request_entry_def bad_responses_total intro!: expired_once)

lemma expire_requests_spec:
  assumes "client_ok s"
  shows "\<exists>result s'. expire_requests cf s = Inr (result, s') \<and> client_ok s'
    \<and> cl_ticks s \<le> cl_ticks s' \<and> cl_outbox s' = cl_outbox s
    \<and> pending_get_response_map s' = pending_get_response_map s \<and> pending_put_response_map s' = pending_put_response_map s
    \<and> set result \<subseteq> (\<Union>(key, tp, requests) \<in> set (pending_request_map s). bad_response ` set requests)
    \<and> (\<forall>key tp requests. map_of (pending_request_map s) key = Some (tp, requests) \<and> late cf tp s \<longrightarrow>
         bad_response ` set requests \<subseteq> set result \<and> map_of (pending_request_map s') key = None)"
proof -
  have ok: "list_all (request_for key) requests" if "(key, tp, requests) \<in> set (pending_request_map s)" for key tp requests
    using om_all_mem [OF _ that, of "\<lambda>key (tp, requests). list_all (request_for key) requests"] assms
    by (simp add: client_ok_def)
  obtain result remove s1 where loop: "rfold (expire_request_entry cf) (pending_request_map s) ([], [], s) = Inr (result, remove, s1)"
      "expired cf set (\<lambda>(key, tp, requests). bad_response ` set requests) (\<lambda>(key, tp, requests). {key})
        (\<lambda>(key, tp, requests). tp) (pending_request_map s) ([], [], s) (result, remove, s1)"
    using expired_loop [of "pending_request_map s" "expire_request_entry cf" cf set
        "\<lambda>(key, tp, requests). bad_response ` set requests" "\<lambda>(key, tp, requests). {key}"
        "\<lambda>(key, tp, requests). tp" "([], [], s)"]
      expire_request_entry_ok ok client_ok_cache [OF assms] by fastforce
  have s1: "same_books s s1" "client_ok s1"
    using loop(2) client_ok_cache [OF assms] same_books_ok [OF _ assms] by (auto simp: expired_def)
  let ?s' = "s1\<lparr>pending_request_map := fold AList.delete remove (pending_request_map s1)\<rparr>"
  have "\<forall>key tp requests. map_of (pending_request_map s) key = Some (tp, requests) \<and> late cf tp s \<longrightarrow>
      bad_response ` set requests \<subseteq> set result \<and> map_of (pending_request_map ?s') key = None"
    using loop(2) by (fastforce simp: expired_def deletes_map_of dest: map_of_SomeD)
  moreover have "client_ok ?s'"
    using s1(2) by (simp add: client_ok_def om_all_deletes)
  ultimately show ?thesis
    using s1(1) loop by (intro exI [of _ result] exI [of _ ?s']) (simp only: expire_requests_def loop(1) rbind_Inr,
      auto simp: same_books_def expired_def)
qed

lemma expire_entry:
  assumes "request_for key (cp_request p)" "address_ok (cp_worker_addr p)" "cache_ok s"
  shows "\<exists>s'. rbind (generate_bad_response (cp_request p)) (\<lambda>r.
      rbind (invalidate_cache_for_worker (cp_worker_addr p) (cl_tick s)) (\<lambda>s. Inr (result @ [r], remove, s))) =
      Inr (result @ [bad_response (cp_request p)], remove, s') \<and> same_books s s' \<and> cache_ok s'"
proof -
  obtain s' where "invalidate_cache_for_worker (cp_worker_addr p) (cl_tick s) = Inr s'" "same_books (cl_tick s) s'" "cache_ok s'"
    using invalidate_worker_total [OF assms(2), of "cl_tick s"] assms(3) by auto
  then show ?thesis
    using same_books_trans [OF same_books_tick] by (simp add: generate_bad_response_eq [OF assms(1)])
qed

lemma expire_get_entry_ok:
  assumes "get_pending_ok key p" "cache_ok (snd (snd a))"
  shows "\<exists>b. expire_get_entry cf (key, p) a = Inr b
    \<and> expired cf set (\<lambda>(key, p). {bad_response (cp_request p)}) (\<lambda>(key, p). {key}) (\<lambda>(key, p). cp_tp p) [(key, p)] a b"
proof -
  obtain result remove s where a: "a = (result, remove, s)"
    by (cases a)
  obtain s' where "rbind (generate_bad_response (cp_request p)) (\<lambda>r.
      rbind (invalidate_cache_for_worker (cp_worker_addr p) (cl_tick s)) (\<lambda>s. Inr (result @ [r], List.insert key remove, s))) =
      Inr (result @ [bad_response (cp_request p)], List.insert key remove, s')" "same_books s s'" "cache_ok s'"
    using expire_entry [of key p s result "List.insert key remove"] assms by (auto simp: get_pending_ok_def a)
  then show ?thesis
    by (cases "timed_out cf (cp_tp p) s") (auto simp: expire_get_entry_def a intro!: expired_once)
qed

lemma expire_gets_spec:
  assumes "client_ok s"
  shows "\<exists>result s'. expire_gets cf s = Inr (result, s') \<and> client_ok s'
    \<and> cl_ticks s \<le> cl_ticks s' \<and> cl_outbox s' = cl_outbox s
    \<and> pending_request_map s' = pending_request_map s \<and> pending_put_response_map s' = pending_put_response_map s
    \<and> set result \<subseteq> (\<Union>(key, p) \<in> set (pending_get_response_map s). {bad_response (cp_request p)})
    \<and> (\<forall>key p. map_of (pending_get_response_map s) key = Some p \<and> late cf (cp_tp p) s \<longrightarrow>
         bad_response (cp_request p) \<in> set result \<and> map_of (pending_get_response_map s') key = None)"
proof -
  have ok: "get_pending_ok key p" if "(key, p) \<in> set (pending_get_response_map s)" for key p
    using om_all_mem [OF _ that, of get_pending_ok] assms by (simp add: client_ok_def)
  obtain result remove s1 where loop: "rfold (expire_get_entry cf) (pending_get_response_map s) ([], [], s) = Inr (result, remove, s1)"
      "expired cf set (\<lambda>(key, p). {bad_response (cp_request p)}) (\<lambda>(key, p). {key}) (\<lambda>(key, p). cp_tp p)
        (pending_get_response_map s) ([], [], s) (result, remove, s1)"
    using expired_loop [of "pending_get_response_map s" "expire_get_entry cf" cf set
        "\<lambda>(key, p). {bad_response (cp_request p)}" "\<lambda>(key, p). {key}" "\<lambda>(key, p). cp_tp p" "([], [], s)"]
      expire_get_entry_ok ok client_ok_cache [OF assms] by fastforce
  have s1: "same_books s s1" "client_ok s1"
    using loop(2) client_ok_cache [OF assms] same_books_ok [OF _ assms] by (auto simp: expired_def)
  let ?s' = "s1\<lparr>pending_get_response_map := fold AList.delete remove (pending_get_response_map s1)\<rparr>"
  have "\<forall>key p. map_of (pending_get_response_map s) key = Some p \<and> late cf (cp_tp p) s \<longrightarrow>
      bad_response (cp_request p) \<in> set result \<and> map_of (pending_get_response_map ?s') key = None"
    using loop(2) by (fastforce simp: expired_def deletes_map_of dest: map_of_SomeD)
  moreover have "client_ok ?s'"
    using s1(2) by (simp add: client_ok_def om_all_deletes)
  ultimately show ?thesis
    using s1(1) loop by (intro exI [of _ result] exI [of _ ?s']) (simp only: expire_gets_def loop(1) rbind_Inr,
      auto simp: same_books_def expired_def)
qed

lemma put_deletes:
  "map_of (om_at [] (fold (\<lambda>(key, ids). om_modify [] key (fold AList.delete ids)) remove m) key) i =
    (if \<exists>ids. (key, ids) \<in> set remove \<and> i \<in> set ids then None else map_of (om_at [] m key) i)"
proof (induction remove arbitrary: m)
  case (Cons x remove)
  then show ?case
    by (cases x) (auto simp: deletes_map_of)
qed simp

lemma put_deletes_ok:
  "om_all (\<lambda>key. om_all (P key)) m \<Longrightarrow>
   om_all (\<lambda>key. om_all (P key)) (fold (\<lambda>(key, ids). om_modify [] key (fold AList.delete ids)) remove m)"
proof (induction remove arbitrary: m)
  case (Cons x remove)
  obtain key ids where x: "x = (key, ids)"
    by (cases x)
  have "om_all (P key) (om_at [] m key)"
    using om_all_at [OF Cons.prems, of key "[]"] by simp
  then have "om_all (\<lambda>key. om_all (P key)) (om_modify [] key (fold AList.delete ids) m)"
    by (intro om_all_modify [OF Cons.prems]) (rule om_all_deletes)
  from Cons.IH [OF this] show ?case
    by (simp add: x)
qed simp

lemma rfold_nested:
  "rfold (\<lambda>(k, xs). rfold (f k) xs) m a = rfold (\<lambda>(k, x). f k x) (concat (map (\<lambda>(k, xs). map (Pair k) xs) m)) a"
proof (induction m arbitrary: a)
  case (Cons y m)
  have inner: "rfold (\<lambda>(k, x). f k x) (map (Pair k) xs) a = rfold (f k) xs a" for k xs a
    by (induction xs arbitrary: a) (auto simp: rbind_def split: sum.split)
  show ?case
    by (cases y) (auto simp: rfold_append inner Cons.IH rbind_def split: sum.split)
qed simp

definition put_keys :: "(Key, string list) omap \<Rightarrow> (Key \<times> string) set" where
  "put_keys remove = {(key, i). i \<in> set (om_at [] remove key)}"

lemma put_keys_insert: "put_keys (om_modify [] key (List.insert i) remove) = insert (key, i) (put_keys remove)"
  by (auto simp: put_keys_def split: if_splits)

lemma put_keys_mem: "(key, i) \<in> put_keys remove \<Longrightarrow> \<exists>ids. (key, ids) \<in> set remove \<and> i \<in> set ids"
  by (auto simp: put_keys_def om_at_def split: option.splits dest!: map_of_SomeD [OF sym])

lemma expire_put_entry_ok:
  assumes "put_pending_ok key i p" "cache_ok (snd (snd a))"
  shows "\<exists>b. expire_put_entry cf key (i, p) a = Inr b
    \<and> expired cf put_keys (\<lambda>(key, i, p). {bad_response (cp_request p)}) (\<lambda>(key, i, p). {(key, i)})
        (\<lambda>(key, i, p). cp_tp p) [(key, i, p)] a b"
proof -
  obtain result remove s where a: "a = (result, remove, s)"
    by (cases a)
  obtain s' where "rbind (generate_bad_response (cp_request p)) (\<lambda>r.
      rbind (invalidate_cache_for_worker (cp_worker_addr p) (cl_tick s)) (\<lambda>s.
        Inr (result @ [r], om_modify [] key (List.insert i) remove, s))) =
      Inr (result @ [bad_response (cp_request p)], om_modify [] key (List.insert i) remove, s')" "same_books s s'" "cache_ok s'"
    using expire_entry [of key p s result "om_modify [] key (List.insert i) remove"] assms
    by (auto simp: put_pending_ok_def a)
  then show ?thesis
    by (cases "timed_out cf (cp_tp p) s") (auto simp: expire_put_entry_def a put_keys_insert intro!: expired_once)
qed

lemma expire_puts_spec:
  assumes "client_ok s"
  shows "\<exists>result s'. expire_puts cf s = Inr (result, s') \<and> client_ok s'
    \<and> cl_ticks s \<le> cl_ticks s' \<and> cl_outbox s' = cl_outbox s
    \<and> pending_request_map s' = pending_request_map s \<and> pending_get_response_map s' = pending_get_response_map s
    \<and> set result \<subseteq> (\<Union>(key, pending) \<in> set (pending_put_response_map s). (\<lambda>(i, p). bad_response (cp_request p)) ` set pending)
    \<and> (\<forall>key i p. map_of (om_at [] (pending_put_response_map s) key) i = Some p \<and> late cf (cp_tp p) s \<longrightarrow>
         bad_response (cp_request p) \<in> set result \<and> map_of (om_at [] (pending_put_response_map s') key) i = None)"
proof -
  let ?all = "concat (map (\<lambda>(k, xs). map (Pair k) xs) (pending_put_response_map s))"
  let ?R = "\<lambda>(key :: Key, i :: string, p). {bad_response (cp_request p)}"
  let ?D = "\<lambda>(key :: Key, i :: string, p :: ClientPending). {(key, i)}"
  let ?T = "\<lambda>(key :: Key, i :: string, p). cp_tp p"
  have ok: "put_pending_ok key i p" if mem: "(key, i, p) \<in> set ?all" for key i p
  proof -
    obtain pending where "(key, pending) \<in> set (pending_put_response_map s)" "(i, p) \<in> set pending"
      using mem by auto
    then show ?thesis
      using om_all_mem [OF om_all_mem [of "\<lambda>key. om_all (put_pending_ok key)" "pending_put_response_map s" key pending]]
        assms unfolding client_ok_def by blast
  qed
  have step: "\<exists>b. (case x of (k, y) \<Rightarrow> expire_put_entry cf k y) a = Inr b \<and> expired cf put_keys ?R ?D ?T [x] a b"
    if "x \<in> set ?all" "cache_ok (snd (snd a))" for x a
    using expire_put_entry_ok [OF ok that(2)] that(1) by (cases x) auto
  obtain result remove s1 where loop:
      "rfold (\<lambda>(k, y). expire_put_entry cf k y) ?all ([], [], s) = Inr (result, remove, s1)"
      "expired cf put_keys ?R ?D ?T ?all ([], [], s) (result, remove, s1)"
    using expired_loop [of ?all "\<lambda>(k, y). expire_put_entry cf k y" cf put_keys ?R ?D ?T "([], [], s)", OF step]
      client_ok_cache [OF assms] by auto
  have s1: "same_books s s1" "client_ok s1"
    using loop(2) client_ok_cache [OF assms] same_books_ok [OF _ assms] by (auto simp: expired_def)
  let ?s' = "s1\<lparr>pending_put_response_map := fold (\<lambda>(key, ids). om_modify [] key (fold AList.delete ids))
             remove (pending_put_response_map s1)\<rparr>"
  have "bad_response (cp_request p) \<in> set result \<and> map_of (om_at [] (pending_put_response_map ?s') key) i = None"
    if p: "map_of (om_at [] (pending_put_response_map s) key) i = Some p \<and> late cf (cp_tp p) s" for key i p
  proof -
    have "(key, i, p) \<in> set ?all"
      using p by (auto simp: om_at_def split: option.splits dest!: map_of_SomeD)
    moreover have "\<forall>x \<in> set ?all. late cf (?T x) s \<longrightarrow> ?R x \<subseteq> set result \<and> ?D x \<subseteq> put_keys remove"
      using loop(2) by (simp add: expired_def)
    ultimately have "late cf (?T (key, i, p)) s \<longrightarrow> ?R (key, i, p) \<subseteq> set result \<and> ?D (key, i, p) \<subseteq> put_keys remove"
      by (rule bspec [rotated])
    then have "bad_response (cp_request p) \<in> set result" "(key, i) \<in> put_keys remove"
      using p by simp_all
    then show ?thesis
      using put_keys_mem by (auto simp: put_deletes)
  qed
  moreover have "client_ok ?s'"
    using s1(2) by (simp add: client_ok_def put_deletes_ok)
  moreover have "set result \<subseteq> (\<Union>(key, pending) \<in> set (pending_put_response_map s).
      (\<lambda>(i, p). bad_response (cp_request p)) ` set pending)"
  proof -
    have "set result \<subseteq> (\<Union>x \<in> set ?all. ?R x)"
      using loop(2) by (simp add: expired_def)
    also have "\<dots> \<subseteq> (\<Union>(key, pending) \<in> set (pending_put_response_map s).
        (\<lambda>(i, p). bad_response (cp_request p)) ` set pending)"
      by force
    finally show ?thesis .
  qed
  ultimately show ?thesis
    using s1(1) by (intro exI [of _ result] exI [of _ ?s'])
      (simp only: expire_puts_def rfold_nested loop(1) rbind_Inr, auto simp: same_books_def)
qed

section \<open>Receiving\<close>

definition sized :: "nat \<Rightarrow> KeyRequest \<Rightarrow> KeyRequest" where
  "sized n request = request\<lparr>rq_tuples :=
     (rq_tuples request)[0 := (rq_tuples request ! 0)\<lparr>kt_address_cache_size := of_nat n\<rparr>]\<rparr>"

definition awaited :: "client \<Rightarrow> Key \<Rightarrow> KeyRequest \<Rightarrow> bool" where
  "awaited s key request \<longleftrightarrow> (if rq_type request = GET then map_of (pending_get_response_map s) key \<noteq> None
     else map_of (om_at [] (pending_put_response_map s) key) (rq_request_id request) \<noteq> None)"

lemma await_frame [simp]:
  "key_address_cache (await_get cf key w r s) = key_address_cache s"
  "pending_request_map (await_get cf key w r s) = pending_request_map s"
  "cl_outbox (await_get cf key w r s) = cl_outbox s"
  "pending_put_response_map (await_get cf key w r s) = pending_put_response_map s"
  "key_address_cache (await_put cf key w r s) = key_address_cache s"
  "pending_request_map (await_put cf key w r s) = pending_request_map s"
  "cl_outbox (await_put cf key w r s) = cl_outbox s"
  "pending_get_response_map (await_put cf key w r s) = pending_get_response_map s"
  by (simp_all add: await_get_def await_put_def Let_def cl_tick_def)

lemma await_get_dom:
  "map_of (pending_get_response_map (await_get cf key w r s)) k = None \<longleftrightarrow>
   k \<noteq> key \<and> map_of (pending_get_response_map s) k = None"
  by (auto simp: await_get_def Let_def cl_tick_def om_modify_def update_conv')

lemma await_put_dom:
  "map_of (om_at [] (pending_put_response_map (await_put cf key w r s)) k) i = None \<longleftrightarrow>
   (k, i) \<noteq> (key, rq_request_id r) \<and> map_of (om_at [] (pending_put_response_map s) k) i = None"
  by (auto simp: await_put_def Let_def cl_tick_def om_modify_def update_conv')

text \<open>A request for a key whose addresses are cached is sent to one of them.\<close>

lemma try_request_sends:
  assumes "routing_threads cf \<noteq> []" "client_ok s" "request_for key request"
    and "om_at [] (key_address_cache s) key \<noteq> []"
  shows "\<exists>worker s'. try_request cf request s = Inr (sized (length (om_at [] (key_address_cache s) key)) request, s')
    \<and> client_ok s' \<and> worker \<in> set (om_at [] (key_address_cache s) key)
    \<and> cl_outbox s' = cl_outbox s @ [(worker, ser_KeyRequest (cl_codec cf)
        (sized (length (om_at [] (key_address_cache s) key)) request))]
    \<and> key_address_cache s' = key_address_cache s \<and> pending_request_map s' = pending_request_map s
    \<and> awaited s' key request \<and> (\<forall>key request. awaited s key request \<longrightarrow> awaited s' key request)"
proof -
  let ?r = "sized (length (om_at [] (key_address_cache s) key)) request"
  obtain tuple tuples where tuples: "rq_tuples request = tuple # tuples" "kt_key tuple = key"
    using assms(3) by (auto simp: request_for_def)
  obtain worker s1 where s1: "get_worker_thread cf key s = Inr (worker, s1)"
      "key_address_cache s1 = key_address_cache s" "pending_request_map s1 = pending_request_map s"
      "pending_get_response_map s1 = pending_get_response_map s"
      "pending_put_response_map s1 = pending_put_response_map s"
      "worker \<in> set (om_at [] (key_address_cache s) key)" "cl_outbox s1 = cl_outbox s"
    using get_worker_thread_total [OF assms(1,2), of key] assms(4) by (auto split: if_splits)
  have "list_all address_ok (om_at [] (key_address_cache s) key)"
    using assms(2) unfolding client_ok_def
    by (intro om_all_at [where P = "\<lambda>key. list_all address_ok" and k = key]) simp_all
  then have "worker \<noteq> []"
    using s1(6) by (auto simp: list_all_iff address_ok_def)
  define s2 where "s2 = cl_send worker (ser_KeyRequest (cl_codec cf) ?r) s1"
  define s' where "s' = (if rq_type request = GET then await_get cf key worker ?r s2 else await_put cf key worker ?r s2)"
  have r: "?r = request\<lparr>rq_tuples := tuple\<lparr>kt_address_cache_size := of_nat (length (om_at [] (key_address_cache s) key))\<rparr> # tuples\<rparr>"
      "rq_type ?r = rq_type request" "rq_request_id ?r = rq_request_id request"
    by (simp_all add: sized_def tuples)
  have run: "try_request cf request s = Inr (?r, s')"
    using \<open>worker \<noteq> []\<close> r(2)
    by (simp add: try_request_def vec_at_def tuples s1(1,2) Let_def s'_def s2_def) (simp add: r(1) tuples)
  have ok: "client_ok s'"
    using try_request_total [OF assms(1-3)] run by auto
  have frame: "cl_outbox s2 = cl_outbox s @ [(worker, ser_KeyRequest (cl_codec cf) ?r)]"
      "key_address_cache s2 = key_address_cache s" "pending_request_map s2 = pending_request_map s"
      "pending_get_response_map s2 = pending_get_response_map s" "pending_put_response_map s2 = pending_put_response_map s"
    by (simp_all add: s2_def cl_send_def s1)
  have "awaited s' key request" "\<forall>key request. awaited s key request \<longrightarrow> awaited s' key request"
    by (auto simp: awaited_def s'_def await_get_dom await_put_dom frame r(3) simp flip: not_None_eq)
  with run ok s1(6) show ?thesis
    by (intro exI [of _ worker] exI [of _ s']) (simp add: s'_def frame)
qed

lemma release_loop:
  assumes "routing_threads cf \<noteq> []" "client_ok s" "list_all (request_for key) requests"
    and "om_at [] (key_address_cache s) key \<noteq> []"
    and "length (snd (om_at (0, []) (pending_request_map s) key)) = n"
  shows "\<exists>s' sent. rfold (\<lambda>request s. rbind (try_request cf request s) (\<lambda>(_, s').
        if length (snd (om_at (0, []) (pending_request_map s') key)) = n then Inr s' else Inl InvalidIterator)) requests s = Inr s'
    \<and> client_ok s' \<and> key_address_cache s' = key_address_cache s \<and> pending_request_map s' = pending_request_map s
    \<and> cl_outbox s' = cl_outbox s @ sent
    \<and> list_all2 (\<lambda>request (worker, msg). worker \<in> set (om_at [] (key_address_cache s) key)
         \<and> msg = ser_KeyRequest (cl_codec cf) (sized (length (om_at [] (key_address_cache s) key)) request)) requests sent
    \<and> list_all (awaited s' key) requests \<and> (\<forall>key request. awaited s key request \<longrightarrow> awaited s' key request)"
  using assms(2-5)
proof (induction requests arbitrary: s)
  case (Cons request requests)
  have "request_for key request"
    using Cons.prems(2) by simp
  from try_request_sends [OF assms(1) Cons.prems(1) this Cons.prems(3)]
  obtain worker s1 where s1: "try_request cf request s =
        Inr (sized (length (om_at [] (key_address_cache s) key)) request, s1)"
      "client_ok s1" "worker \<in> set (om_at [] (key_address_cache s) key)"
      "cl_outbox s1 = cl_outbox s @ [(worker, ser_KeyRequest (cl_codec cf)
        (sized (length (om_at [] (key_address_cache s) key)) request))]"
      "key_address_cache s1 = key_address_cache s" "pending_request_map s1 = pending_request_map s"
      "awaited s1 key request" "\<forall>key request. awaited s key request \<longrightarrow> awaited s1 key request"
    by blast
  have rest: "list_all (request_for key) requests" "om_at [] (key_address_cache s1) key \<noteq> []"
      "length (snd (om_at (0, []) (pending_request_map s1) key)) = n"
    using Cons.prems(2-4) by (simp_all add: s1(5,6))
  from Cons.IH [OF s1(2) rest] obtain s' sent where IH: "rfold (\<lambda>request s. rbind (try_request cf request s) (\<lambda>(_, s').
        if length (snd (om_at (0, []) (pending_request_map s') key)) = n then Inr s' else Inl InvalidIterator)) requests s1 = Inr s'"
      "client_ok s'" "key_address_cache s' = key_address_cache s1" "pending_request_map s' = pending_request_map s1"
      "cl_outbox s' = cl_outbox s1 @ sent"
      "list_all2 (\<lambda>request (worker, msg). worker \<in> set (om_at [] (key_address_cache s1) key)
         \<and> msg = ser_KeyRequest (cl_codec cf) (sized (length (om_at [] (key_address_cache s1) key)) request)) requests sent"
      "list_all (awaited s' key) requests" "\<forall>key request. awaited s1 key request \<longrightarrow> awaited s' key request"
    by blast
  show ?case
    using IH s1 rest(3)
    by (intro exI [of _ s'] exI [of _ "(worker, ser_KeyRequest (cl_codec cf)
        (sized (length (om_at [] (key_address_cache s) key)) request)) # sent"]) simp
qed simp

lemma om_at_inserts:
  "key_address_cache (fold (\<lambda>ip s. s\<lparr>key_address_cache := om_modify [] key (List.insert ip) (key_address_cache s)\<rparr>) ips s) =
   fold (\<lambda>ip. om_modify [] key (List.insert ip)) ips (key_address_cache s)"
  by (induction ips arbitrary: s) simp_all

lemma om_at_fold_insert:
  "om_at [] (fold (\<lambda>ip. om_modify [] key (List.insert ip)) ips m) k =
    (if k = key then fold List.insert ips (om_at [] m key) else om_at [] m k)"
  by (induction ips arbitrary: m) auto

lemma set_inserts: "set (fold List.insert ips xs) = set ips \<union> set xs"
  by (induction ips arbitrary: xs) auto

lemma cache_inserts_ok:
  "om_all (\<lambda>key. list_all address_ok) m \<Longrightarrow> list_all address_ok ips \<Longrightarrow>
   om_all (\<lambda>key. list_all address_ok) (fold (\<lambda>ip. om_modify [] key (List.insert ip)) ips m)"
proof (induction ips arbitrary: m)
  case (Cons ip ips)
  have "list_all address_ok (om_at [] m key)"
    by (rule om_all_at [OF Cons.prems(1), where k = key]) simp
  then have "om_all (\<lambda>key. list_all address_ok) (om_modify [] key (List.insert ip) m)"
    using Cons.prems(2) by (intro om_all_modify [OF Cons.prems(1)]) (auto simp: list_all_iff)
  from Cons.IH [OF this] Cons.prems(2) show ?case
    by simp
qed simp

text \<open>What the client relies on: a response names a key, and with it at least one well-formed address.\<close>

definition addresses_ok :: "client_conf \<Rightarrow> string \<Rightarrow> bool" where
  "addresses_ok cf m \<longleftrightarrow> (case ar_addresses (snd (parse_KeyAddressResponse (cl_codec cf) m)) of
     [] \<Rightarrow> False
   | a # _ \<Rightarrow> ar_error (snd (parse_KeyAddressResponse (cl_codec cf) m)) = NO_SERVERS
       \<or> ka_ips a \<noteq> [] \<and> list_all address_ok (ka_ips a))"

definition response_ok :: "client_conf \<Rightarrow> string \<Rightarrow> bool" where
  "response_ok cf m \<longleftrightarrow> rs_tuples (snd (parse_KeyResponse (cl_codec cf) m)) \<noteq> []"

lemma receive_addresses_releases:
  assumes "routing_threads cf \<noteq> []" "client_ok s"
    and "response = snd (parse_KeyAddressResponse (cl_codec cf) m)"
    and "ar_addresses response = addresses # others" "key = ka_key addresses" "ar_error response \<noteq> NO_SERVERS"
    and "map_of (pending_request_map s) key = Some (tp, requests)"
    and "ka_ips addresses \<noteq> []" "list_all address_ok (ka_ips addresses)"
    and "cached = fold List.insert (ka_ips addresses) (om_at [] (key_address_cache s) key)"
  shows "\<exists>s' sent. receive_addresses cf m s = Inr s' \<and> client_ok s'
    \<and> map_of (pending_request_map s') = (map_of (pending_request_map s))(key := None)
    \<and> om_at [] (key_address_cache s') key = cached \<and> cl_outbox s' = cl_outbox s @ sent
    \<and> list_all2 (\<lambda>request (worker, msg). worker \<in> set cached
         \<and> msg = ser_KeyRequest (cl_codec cf) (sized (length cached) request)) requests sent
    \<and> list_all (awaited s' key) requests"
proof -
  define s1 where "s1 = fold (\<lambda>ip s. s\<lparr>key_address_cache := om_modify [] key (List.insert ip) (key_address_cache s)\<rparr>)
    (ka_ips addresses) s"
  have frame: "pending_request_map s1 = pending_request_map s" "pending_get_response_map s1 = pending_get_response_map s"
      "pending_put_response_map s1 = pending_put_response_map s" "cl_outbox s1 = cl_outbox s"
    unfolding s1_def by (rule fold_keeps; simp)+
  have cache: "key_address_cache s1 = fold (\<lambda>ip. om_modify [] key (List.insert ip)) (ka_ips addresses) (key_address_cache s)"
    by (simp add: s1_def om_at_inserts)
  have at: "om_at [] (key_address_cache s1) key = cached"
    by (simp add: cache om_at_fold_insert assms(10))
  have "set cached \<noteq> {}"
    using assms(8) by (simp add: assms(10) set_inserts)
  then have nonempty: "om_at [] (key_address_cache s1) key \<noteq> []"
    by (auto simp: at)
  have ok: "client_ok s1"
    using assms(2,9) cache_inserts_ok [of "key_address_cache s" "ka_ips addresses" key]
    by (simp add: client_ok_def frame cache)
  have requests: "list_all (request_for key) requests"
    using om_allD [OF _ assms(7), of "\<lambda>key (tp, requests). list_all (request_for key) requests"] assms(2)
    by (simp add: client_ok_def)
  have waiting: "snd (om_at (0, []) (pending_request_map s1) key) = requests"
    by (simp add: frame om_at_Some [OF assms(7)])
  obtain s2 sent where s2: "release_requests cf key s1 = Inr s2" "client_ok s2"
      "key_address_cache s2 = key_address_cache s1" "pending_request_map s2 = pending_request_map s1"
      "cl_outbox s2 = cl_outbox s1 @ sent"
      "list_all2 (\<lambda>request (worker, msg). worker \<in> set (om_at [] (key_address_cache s1) key)
         \<and> msg = ser_KeyRequest (cl_codec cf) (sized (length (om_at [] (key_address_cache s1) key)) request)) requests sent"
      "list_all (awaited s2 key) requests"
    using release_loop [OF assms(1) ok requests nonempty, of "length requests"]
    unfolding release_requests_def waiting Let_def by blast
  let ?s' = "s2\<lparr>pending_request_map := AList.delete key (pending_request_map s2)\<rparr>"
  have "receive_addresses cf m s = Inr ?s'"
    using s2(1) unfolding s1_def
    by (simp add: receive_addresses_def assms(3) [symmetric] assms(4,6,7) assms(5) [symmetric] vec_at_def Let_def)
  moreover have "client_ok ?s'"
    using s2(2) by (simp add: client_ok_def om_all_delete)
  moreover have "awaited ?s' key = awaited s2 key"
    by (simp add: awaited_def fun_eq_iff)
  ultimately show ?thesis
    using s2(3-7) by (intro exI [of _ ?s'] exI [of _ sent]) (simp add: frame at)
qed

lemma receive_addresses_total:
  assumes "routing_threads cf \<noteq> []" "client_ok s" "addresses_ok cf m"
  shows "\<exists>s'. receive_addresses cf m s = Inr s' \<and> client_ok s'"
proof -
  let ?response = "snd (parse_KeyAddressResponse (cl_codec cf) m)"
  obtain a as where a: "ar_addresses ?response = a # as"
      "ar_error ?response = NO_SERVERS \<or> ka_ips a \<noteq> [] \<and> list_all address_ok (ka_ips a)"
    using assms(3) by (auto simp: addresses_ok_def split: list.splits)
  consider (idle) "map_of (pending_request_map s) (ka_key a) = None"
    | (retry) tp requests where "map_of (pending_request_map s) (ka_key a) = Some (tp, requests)" "ar_error ?response = NO_SERVERS"
    | (go) tp requests where "map_of (pending_request_map s) (ka_key a) = Some (tp, requests)" "ar_error ?response \<noteq> NO_SERVERS"
    by (cases "map_of (pending_request_map s) (ka_key a)") auto
  then show ?thesis
  proof cases
    case idle
    then show ?thesis
      using assms(2) by (simp add: receive_addresses_def a(1) vec_at_def)
  next
    case retry
    let ?s = "(cl_tick s)\<lparr>pending_request_map :=
      om_modify (0, []) (ka_key a) (\<lambda>(tp, requests). (cl_now cf s, requests)) (pending_request_map s)\<rparr>"
    have "list_all (request_for (ka_key a)) requests"
      using om_allD [OF _ retry(1), of "\<lambda>key (tp, requests). list_all (request_for key) requests"] assms(2)
      by (simp add: client_ok_def)
    then have "client_ok ?s"
      using assms(2) by (auto simp: client_ok_def cl_tick_def om_at_Some [OF retry(1)] intro!: om_all_modify)
    from query_routing_total [OF assms(1) this] show ?thesis
      using retry by (auto simp: receive_addresses_def a(1) vec_at_def Let_def)
  next
    case go
    from receive_addresses_releases [OF assms(1,2) refl a(1) refl go(2,1) _ _ refl] a(2) go(2) show ?thesis
      by blast
  qed
qed

lemma check_tuple_ok:
  "client_ok s \<Longrightarrow> client_ok (snd (check_tuple tuple s))"
  "pending_get_response_map (snd (check_tuple tuple s)) = pending_get_response_map s"
  "pending_put_response_map (snd (check_tuple tuple s)) = pending_put_response_map s"
  by (auto simp: check_tuple_def invalidate_cache_for_key_def client_ok_def om_all_delete)

lemma try_request_keeps:
  assumes "routing_threads cf \<noteq> []" "client_ok s" "request_for key request"
    and "try_request cf request s = Inr (request', s')" "awaited s k r"
  shows "awaited s' k r"
proof (cases "om_at [] (key_address_cache s) key")
  case Nil
  obtain tuple tuples where tuples: "rq_tuples request = tuple # tuples" "kt_key tuple = key"
    using assms(3) by (auto simp: request_for_def)
  obtain s1 where "get_worker_thread cf key s = Inr ([], s1)"
      "pending_get_response_map s1 = pending_get_response_map s" "pending_put_response_map s1 = pending_put_response_map s"
    using get_worker_thread_total [OF assms(1,2), of key] Nil by auto
  then have "pending_get_response_map s' = pending_get_response_map s" "pending_put_response_map s' = pending_put_response_map s"
    using assms(4) by (auto simp: try_request_def tuples vec_at_def park_until_addressed_def Let_def cl_tick_def)
  then show ?thesis
    using assms(5) by (simp add: awaited_def)
next
  case (Cons a as)
  then have "om_at [] (key_address_cache s) key \<noteq> []"
    by simp
  from try_request_sends [OF assms(1-3) this] assms(4,5) show ?thesis
    by auto
qed

lemma receive_get_total:
  assumes "routing_threads cf \<noteq> []" "client_ok s"
  shows "\<exists>result s'. receive_get cf response tuple s = Inr (result, s') \<and> client_ok s'"
proof (cases "map_of (pending_get_response_map s) (kt_key tuple)")
  case None
  then show ?thesis
    using assms(2) by (simp add: receive_get_def)
next
  case (Some p)
  have p: "get_pending_ok (kt_key tuple) p"
    using om_allD [OF _ Some, of get_pending_ok] assms(2) by (simp add: client_ok_def)
  obtain again s1 where check: "check_tuple tuple s = (again, s1)"
    by (cases "check_tuple tuple s")
  have s1: "client_ok s1" "pending_get_response_map s1 = pending_get_response_map s"
    using check_tuple_ok(1) [OF assms(2), of tuple] check_tuple_ok(2,3) [of tuple s] by (simp_all add: check)
  define s2 where "s2 = (cl_tick s1)\<lparr>pending_get_response_map := om_modify empty_ClientPending (kt_key tuple)
     (\<lambda>p. p\<lparr>cp_tp := cl_now cf s1\<rparr>) (pending_get_response_map s1)\<rparr>"
  have s2: "client_ok s2"
    using s1 p by (auto simp: s2_def client_ok_def cl_tick_def om_at_Some [OF Some] get_pending_ok_def intro!: om_all_modify)
  have req: "request_for (kt_key tuple) (cp_request p)" "rq_type (cp_request p) = GET"
    using p by (simp_all add: get_pending_ok_def)
  obtain request' s3 where s3: "try_request cf (cp_request p) s2 = Inr (request', s3)" "client_ok s3"
      "request_for (kt_key tuple) request'" "rq_type request' = GET"
    using try_request_total [OF assms(1) s2 req(1)] req(2) by auto
  have "awaited s2 (kt_key tuple) (cp_request p)"
    by (simp add: awaited_def req(2) s2_def om_modify_def update_conv')
  from try_request_keeps [OF assms(1) s2 req(1) s3(1) this]
  obtain p3 where p3: "map_of (pending_get_response_map s3) (kt_key tuple) = Some p3"
    by (auto simp: awaited_def req(2))
  have "get_pending_ok (kt_key tuple) p3"
    using om_allD [OF _ p3, of get_pending_ok] s3(2) by (simp add: client_ok_def)
  then have again: "client_ok (s3\<lparr>pending_get_response_map := om_modify empty_ClientPending (kt_key tuple)
      (\<lambda>p. p\<lparr>cp_request := request'\<rparr>) (pending_get_response_map s3)\<rparr>)"
    using s3 by (auto simp: client_ok_def om_at_Some [OF p3] get_pending_ok_def intro!: om_all_modify)
  have "client_ok (s1\<lparr>pending_get_response_map := AList.delete (kt_key tuple) (pending_get_response_map s1)\<rparr>)"
    using s1(1) by (simp add: client_ok_def om_all_delete)
  with again s3(1) show ?thesis
    by (cases again) (simp_all add: receive_get_def Some check s2_def Let_def)
qed

lemma receive_put_total:
  assumes "routing_threads cf \<noteq> []" "client_ok s"
  shows "\<exists>result s'. receive_put cf response tuple s = Inr (result, s') \<and> client_ok s'"
proof -
  let ?key = "kt_key tuple" and ?i = "rs_response_id response"
  consider (idle) "map_of (om_at [] (pending_put_response_map s) ?key) ?i = None"
    | (found) pending p where "map_of (pending_put_response_map s) ?key = Some pending" "map_of pending ?i = Some p"
    by (cases "map_of (pending_put_response_map s) ?key"; cases "map_of (om_at [] (pending_put_response_map s) ?key) ?i")
      (auto simp: om_at_def)
  then show ?thesis
  proof cases
    case idle
    then show ?thesis
      using assms(2) by (auto simp: receive_put_def om_at_def split: option.splits)
  next
    case found
    have pending: "om_all (put_pending_ok ?key) pending"
      using om_allD [OF _ found(1), of "\<lambda>key. om_all (put_pending_ok key)"] assms(2) by (simp add: client_ok_def)
    have p: "put_pending_ok ?key ?i p"
      using om_allD [OF pending found(2)] .
    obtain again s1 where check: "check_tuple tuple s = (again, s1)"
      by (cases "check_tuple tuple s")
    have s1: "client_ok s1" "pending_put_response_map s1 = pending_put_response_map s"
      using check_tuple_ok(1) [OF assms(2), of tuple] check_tuple_ok(2,3) [of tuple s] by (simp_all add: check)
    define s2 where "s2 = (cl_tick s1)\<lparr>pending_put_response_map := om_modify [] ?key
       (om_modify empty_ClientPending ?i (\<lambda>p. p\<lparr>cp_tp := cl_now cf s1\<rparr>)) (pending_put_response_map s1)\<rparr>"
    have "om_all (put_pending_ok ?key) (om_modify empty_ClientPending ?i (\<lambda>p. p\<lparr>cp_tp := cl_now cf s1\<rparr>) pending)"
      using p by (intro om_all_modify [OF pending]) (simp add: om_at_Some [OF found(2)] put_pending_ok_def)
    then have s2: "client_ok s2"
      using s1 by (simp add: s2_def client_ok_def cl_tick_def om_all_modify om_at_Some [OF found(1)])
    have req: "request_for ?key (cp_request p)" "rq_type (cp_request p) \<noteq> GET" "rq_request_id (cp_request p) = ?i"
      using p by (simp_all add: put_pending_ok_def)
    obtain request' s3 where s3: "try_request cf (cp_request p) s2 = Inr (request', s3)" "client_ok s3"
        "request_for ?key request'" "rq_type request' \<noteq> GET" "rq_request_id request' = ?i"
      using try_request_total [OF assms(1) s2 req(1)] req(2,3) by auto
    have "awaited s2 ?key (cp_request p)"
      by (simp add: awaited_def req(2,3) s2_def om_modify_def update_conv')
    from try_request_keeps [OF assms(1) s2 req(1) s3(1) this]
    obtain p3 where p3: "map_of (om_at [] (pending_put_response_map s3) ?key) ?i = Some p3"
      by (auto simp: awaited_def req(2,3))
    note pending3 = pending_puts_ok [OF s3(2), of ?key]
    have "om_all (put_pending_ok ?key) (om_modify empty_ClientPending ?i (\<lambda>p. p\<lparr>cp_request := request'\<rparr>)
        (om_at [] (pending_put_response_map s3) ?key))"
      using om_allD [OF pending3 p3] s3(3-5)
      by (intro om_all_modify [OF pending3]) (simp add: om_at_Some [OF p3] put_pending_ok_def)
    then have retried: "client_ok (s3\<lparr>pending_put_response_map := om_modify [] ?key
        (om_modify empty_ClientPending ?i (\<lambda>p. p\<lparr>cp_request := request'\<rparr>)) (pending_put_response_map s3)\<rparr>)"
      using s3(2) by (simp add: client_ok_def om_all_modify)
    have "client_ok (s1\<lparr>pending_put_response_map := if AList.delete ?i pending = []
        then AList.delete ?key (pending_put_response_map s1)
        else AList.update ?key (AList.delete ?i pending) (pending_put_response_map s1)\<rparr>)"
      using s1(1) om_all_delete [OF pending] by (simp add: client_ok_def om_all_delete om_all_update)
    with retried s3(1) show ?thesis
      by (cases again) (simp_all add: receive_put_def found check s2_def [symmetric] Let_def)
  qed
qed

lemma receive_response_total:
  assumes "routing_threads cf \<noteq> []" "client_ok s" "response_ok cf m"
  shows "\<exists>result s'. receive_response cf m s = Inr (result, s') \<and> client_ok s'"
  using receive_get_total [OF assms(1,2)] receive_put_total [OF assms(1,2)] assms(3)
  by (auto simp: receive_response_def response_ok_def vec_at_def Let_def)

lemma receive_async_total:
  assumes "routing_threads cf \<noteq> []" "client_ok s"
    and "\<forall>m. addresses = Some m \<longrightarrow> addresses_ok cf m" "\<forall>m. response = Some m \<longrightarrow> response_ok cf m"
  shows "\<exists>result s'. receive_async cf addresses response s = Inr (result, s') \<and> client_ok s'"
proof -
  obtain s1 where s1: "(case addresses of None \<Rightarrow> Inr s | Some m \<Rightarrow> receive_addresses cf m s) = Inr s1" "client_ok s1"
    using receive_addresses_total [OF assms(1,2)] assms(2,3) by (cases addresses) auto
  obtain received s2 where s2: "(case response of None \<Rightarrow> Inr ([], s1) | Some m \<Rightarrow> receive_response cf m s1) = Inr (received, s2)"
      "client_ok s2"
    using receive_response_total [OF assms(1) s1(2)] s1(2) assms(4) by (cases response) force+
  obtain r3 s3 where s3: "expire_requests cf s2 = Inr (r3, s3)" "client_ok s3"
    using expire_requests_spec [OF s2(2)] by blast
  obtain r4 s4 where s4: "expire_gets cf s3 = Inr (r4, s4)" "client_ok s4"
    using expire_gets_spec [OF s3(2)] by blast
  obtain r5 s5 where s5: "expire_puts cf s4 = Inr (r5, s5)" "client_ok s5"
    using expire_puts_spec [OF s4(2)] by blast
  show ?thesis
    by (simp add: receive_async_def s1(1) s2(1) s3(1) s4(1) s5)
qed

section \<open>Request ids\<close>

primrec request_ids :: "client_conf \<Rightarrow> nat \<Rightarrow> client \<Rightarrow> string list" where
  "request_ids cf 0 s = []"
| "request_ids cf (Suc n) s = (let (i, s) = get_request_id cf s in i # request_ids cf n s)"

lemma unat_Suc_even: "even (unat (w :: u32)) \<Longrightarrow> unat (w + 1) = unat w + 1"
proof -
  assume "even (unat w)"
  moreover have "unat w < 2 ^ 32"
    using unsigned_less [of w] by simp
  ultimately have "unat w + 1 < 2 ^ 32"
    by (cases "unat w = 2 ^ 32 - 1") auto
  then show ?thesis
    by (simp add: unat_word_ariths)
qed

lemma even_plus_2: "even (unat (w :: u32)) \<Longrightarrow> even (unat (w + 2))"
  by (simp add: unat_word_ariths dvd_mod_iff)

lemma get_request_id_even:
  assumes "even (unat (cl_rid s))"
  shows "get_request_id cf s = (ut_ip (cl_ut cf) @ '':'' @ to_string (ut_tid (cl_ut cf)) @ ''_'' @ to_string (cl_rid s + 1),
    s\<lparr>cl_rid := cl_rid s + 2\<rparr>)"
proof -
  have odd: "odd (unat (cl_rid s + 1))"
    using assms unat_Suc_even [OF assms] by simp
  have even: "even (unat (w :: u32))" if "w mod 10000 = 0" for w
  proof -
    have "unat w mod 10000 = 0"
      using arg_cong [OF that, of unat] by (simp add: unat_mod)
    then have "10000 dvd unat w"
      by auto
    then show ?thesis
      using dvd_trans [of 2 10000 "unat w"] by simp
  qed
  have "(cl_rid s + 1) mod 10000 \<noteq> 0"
  proof
    assume "(cl_rid s + 1) mod 10000 = 0"
    then have "even (unat (cl_rid s + 1))"
      by (rule even)
    with odd show False ..
  qed
  then show ?thesis
    by (simp add: get_request_id_def add.assoc)
qed

lemma request_ids_even:
  "even (unat (cl_rid s)) \<Longrightarrow> request_ids cf n s = map (\<lambda>k. ut_ip (cl_ut cf) @ '':'' @ to_string (ut_tid (cl_ut cf)) @ ''_'' @
     to_string (cl_rid s + of_nat (2 * k + 1))) [0..<n]"
proof (induction n arbitrary: s)
  case (Suc n)
  have "even (unat (cl_rid (s\<lparr>cl_rid := cl_rid s + 2\<rparr>)))"
    using even_plus_2 [OF Suc.prems] by simp
  note IH = Suc.IH [OF this]
  have "[0..<Suc n] = 0 # map Suc [0..<n]"
    by (simp add: upt_conv_Cons map_Suc_upt del: upt_Suc)
  then show ?case
    by (simp only: request_ids.simps get_request_id_even [OF Suc.prems] IH Let_def prod.case)
      (simp add: algebra_simps)
qed simp

text \<open>
  C25. The ids that a client gives to its requests are all different for the first two to the
  thirty-first requests, after which the counter has wrapped around. The reset of the counter at
  multiples of ten thousand never takes effect, because every id uses up two values of it and the
  test only sees odd ones.
\<close>

theorem request_ids_unique:
  assumes "n \<le> 2 ^ 31"
  shows "distinct (request_ids cf n (new_client hasher time cf))"
proof -
  have small: "unat (of_nat m :: u32) = m" if "m < 2 ^ 32" for m
    using that by (simp add: unat_of_nat)
  have inj: "x = y" if "x < n" "y < n" "(of_nat (2 * x + 1) :: u32) = of_nat (2 * y + 1)" for x y
  proof -
    have bounds: "2 * x + 1 < 2 ^ 32" "2 * y + 1 < 2 ^ 32"
      using that(1,2) assms by auto
    have "2 * x + 1 = 2 * y + 1"
      using small [OF bounds(1)] small [OF bounds(2)] unfolding that(3) by (rule trans [OF sym])
    then show ?thesis
      by simp
  qed
  have "request_ids cf n (new_client hasher time cf) = map (\<lambda>k. ut_ip (cl_ut cf) @ '':'' @
      to_string (ut_tid (cl_ut cf)) @ ''_'' @ to_string (of_nat (2 * k + 1) :: u32)) [0..<n]"
    by (subst request_ids_even) (simp_all add: new_client_def)
  then show ?thesis
    using inj by (auto simp: distinct_map inj_on_def to_string_inj simp del: of_nat_add of_nat_mult of_nat_Suc)
qed

section \<open>Properties of the client\<close>

definition sample_conf :: client_conf where
  "sample_conf = \<lparr>cl_codec = wire_codec, cl_rand_r = (\<lambda>s. (unat s, s + 1)), cl_clock = (\<lambda>n. int n * 20000000000),
     routing_threads = [\<lparr>urt_ip = ''7.7.7.7'', urt_tid = 0\<rparr>], cl_ut = \<lparr>ut_ip = ''9.9.9.9'', ut_tid = 0\<rparr>, timeout = 10000\<rparr>"

theorem request_ids_unique_witness: "distinct (request_ids sample_conf 20000 (new_client (\<lambda>_. 0) 0 sample_conf))"
  by (rule request_ids_unique) simp

inductive client_step :: "client_conf \<Rightarrow> client \<Rightarrow> client \<Rightarrow> bool" for cf where
  put: "put_async cf key payload type s = Inr (i, s') \<Longrightarrow> client_step cf s s'"
| get: "get_async cf key s = Inr s' \<Longrightarrow> client_step cf s s'"
| receive: "\<forall>m. addresses = Some m \<longrightarrow> addresses_ok cf m \<Longrightarrow> \<forall>m. response = Some m \<longrightarrow> response_ok cf m \<Longrightarrow>
    receive_async cf addresses response s = Inr (result, s') \<Longrightarrow> client_step cf s s'"
| clear: "client_step cf s (clear_cache s)"

lemma client_step_ok:
  assumes "client_step cf s s'" "routing_threads cf \<noteq> []" "client_ok s"
  shows "client_ok s'"
  using assms(1)
proof cases
  case (put key payload type i)
  then show ?thesis
    using put_async_total [OF assms(2,3), of key payload type] by auto
next
  case (get key)
  then show ?thesis
    using get_async_total [OF assms(2,3), of key] by auto
next
  case (receive addresses response result)
  then show ?thesis
    using receive_async_total [OF assms(2,3), of addresses response] by auto
next
  case clear
  then show ?thesis
    using assms(3) by (simp add: clear_cache_def client_ok_def)
qed

text \<open>
  C23. The client's tables stay well formed, whatever operations it performs and whatever well-formed
  messages it receives: every waiting request is stored under its own key and, for writes, its own
  id, in the table of its type, and every address it may contact is well formed. In
  each state reached this way, every operation of the client returns.
\<close>

theorem client_well_typed:
  assumes "routing_threads cf \<noteq> []" "(client_step cf)\<^sup>*\<^sup>* (new_client hasher time cf) s"
  shows "client_ok s \<and> (\<exists>i s'. put_async cf key payload type s = Inr (i, s')) \<and> (\<exists>s'. get_async cf key s = Inr s')
    \<and> ((\<forall>m. addresses = Some m \<longrightarrow> addresses_ok cf m) \<and> (\<forall>m. response = Some m \<longrightarrow> response_ok cf m) \<longrightarrow>
       (\<exists>result s'. receive_async cf addresses response s = Inr (result, s')))"
proof -
  have "client_ok s"
    using assms(2)
  proof (induction rule: rtranclp_induct)
    case base
    then show ?case
      by (rule client_ok_new)
  next
    case (step s s')
    then show ?case
      using client_step_ok assms(1) by blast
  qed
  then show ?thesis
    using put_async_total [OF assms(1)] get_async_total [OF assms(1)] receive_async_total [OF assms(1)] by blast
qed

theorem client_well_typed_witness:
  "client_ok (clear_cache (new_client (\<lambda>_. 0) 0 sample_conf))
   \<and> (\<exists>i s'. put_async sample_conf ''k'' ''v'' LWW (clear_cache (new_client (\<lambda>_. 0) 0 sample_conf)) = Inr (i, s'))
   \<and> (\<exists>result s'. receive_async sample_conf None None (clear_cache (new_client (\<lambda>_. 0) 0 sample_conf)) = Inr (result, s'))"
proof -
  have "routing_threads sample_conf \<noteq> []"
    by (simp add: sample_conf_def)
  moreover have "(client_step sample_conf)\<^sup>*\<^sup>* (new_client (\<lambda>_. 0) 0 sample_conf) (clear_cache (new_client (\<lambda>_. 0) 0 sample_conf))"
    by (rule r_into_rtranclp) (rule client_step.clear)
  ultimately show ?thesis
    using client_well_typed [of sample_conf "\<lambda>_. 0" 0 "clear_cache (new_client (\<lambda>_. 0) 0 sample_conf)" "''k''" "''v''" LWW None None]
    by simp
qed

text \<open>
  C24. No request waits for ever: when the client polls without a message, every waiting request that
  is older than the timeout is answered with a timeout response that carries its id, type and key,
  and is no longer waited for; and every response it returns is such an answer to a request that
  waited.
\<close>

theorem requests_time_out:
  assumes "client_ok s"
  shows "\<exists>result s'. receive_async cf None None s = Inr (result, s')
    \<and> (\<forall>key tp requests. map_of (pending_request_map s) key = Some (tp, requests) \<and> late cf tp s \<longrightarrow>
         bad_response ` set requests \<subseteq> set result \<and> map_of (pending_request_map s') key = None)
    \<and> (\<forall>key p. map_of (pending_get_response_map s) key = Some p \<and> late cf (cp_tp p) s \<longrightarrow>
         bad_response (cp_request p) \<in> set result \<and> map_of (pending_get_response_map s') key = None)
    \<and> (\<forall>key i p. map_of (om_at [] (pending_put_response_map s) key) i = Some p \<and> late cf (cp_tp p) s \<longrightarrow>
         bad_response (cp_request p) \<in> set result \<and> map_of (om_at [] (pending_put_response_map s') key) i = None)
    \<and> set result \<subseteq> (\<Union>(key, tp, requests) \<in> set (pending_request_map s). bad_response ` set requests)
        \<union> (\<Union>(key, p) \<in> set (pending_get_response_map s). {bad_response (cp_request p)})
        \<union> (\<Union>(key, pending) \<in> set (pending_put_response_map s). (\<lambda>(i, p). bad_response (cp_request p)) ` set pending)"
proof -
  obtain r1 s1 where s1: "expire_requests cf s = Inr (r1, s1)" "client_ok s1" "cl_ticks s \<le> cl_ticks s1"
      "pending_get_response_map s1 = pending_get_response_map s" "pending_put_response_map s1 = pending_put_response_map s"
      "set r1 \<subseteq> (\<Union>(key, tp, requests) \<in> set (pending_request_map s). bad_response ` set requests)"
      "\<forall>key tp requests. map_of (pending_request_map s) key = Some (tp, requests) \<and> late cf tp s \<longrightarrow>
         bad_response ` set requests \<subseteq> set r1 \<and> map_of (pending_request_map s1) key = None"
    using expire_requests_spec [OF assms, of cf] by blast
  obtain r2 s2 where s2: "expire_gets cf s1 = Inr (r2, s2)" "client_ok s2" "cl_ticks s1 \<le> cl_ticks s2"
      "pending_request_map s2 = pending_request_map s1" "pending_put_response_map s2 = pending_put_response_map s1"
      "set r2 \<subseteq> (\<Union>(key, p) \<in> set (pending_get_response_map s1). {bad_response (cp_request p)})"
      "\<forall>key p. map_of (pending_get_response_map s1) key = Some p \<and> late cf (cp_tp p) s1 \<longrightarrow>
         bad_response (cp_request p) \<in> set r2 \<and> map_of (pending_get_response_map s2) key = None"
    using expire_gets_spec [OF s1(2), of cf] by blast
  obtain r3 s3 where s3: "expire_puts cf s2 = Inr (r3, s3)"
      "pending_request_map s3 = pending_request_map s2" "pending_get_response_map s3 = pending_get_response_map s2"
      "set r3 \<subseteq> (\<Union>(key, pending) \<in> set (pending_put_response_map s2). (\<lambda>(i, p). bad_response (cp_request p)) ` set pending)"
      "\<forall>key i p. map_of (om_at [] (pending_put_response_map s2) key) i = Some p \<and> late cf (cp_tp p) s2 \<longrightarrow>
         bad_response (cp_request p) \<in> set r3 \<and> map_of (om_at [] (pending_put_response_map s3) key) i = None"
    using expire_puts_spec [OF s2(2), of cf] by blast
  have later: "late cf tp s1" "late cf tp s2" if "late cf tp s" for tp
    using late_mono [OF that] s1(3) s2(3) by simp_all
  have run: "receive_async cf None None s = Inr (r1 @ r2 @ r3, s3)"
    by (simp add: receive_async_def s1(1) s2(1) s3(1))
  have a: "bad_response ` set requests \<subseteq> set (r1 @ r2 @ r3) \<and> map_of (pending_request_map s3) key = None"
    if h: "map_of (pending_request_map s) key = Some (tp, requests) \<and> late cf tp s" for key tp requests
    using s1(7) [rule_format, OF h] by (simp add: s3(2) s2(4) le_supI1)
  have b: "bad_response (cp_request p) \<in> set (r1 @ r2 @ r3) \<and> map_of (pending_get_response_map s3) key = None"
    if h: "map_of (pending_get_response_map s) key = Some p \<and> late cf (cp_tp p) s" for key p
    using s2(7) [rule_format, of key p] h later(1) by (simp add: s3(3) s1(4))
  have c: "bad_response (cp_request p) \<in> set (r1 @ r2 @ r3)
      \<and> map_of (om_at [] (pending_put_response_map s3) key) i = None"
    if h: "map_of (om_at [] (pending_put_response_map s) key) i = Some p \<and> late cf (cp_tp p) s" for key i p
    using s3(5) [rule_format, of key i p] h later(2) by (simp add: s2(5) s1(5))
  have d: "set (r1 @ r2 @ r3) \<subseteq> (\<Union>(key, tp, requests) \<in> set (pending_request_map s). bad_response ` set requests)
        \<union> (\<Union>(key, p) \<in> set (pending_get_response_map s). {bad_response (cp_request p)})
        \<union> (\<Union>(key, pending) \<in> set (pending_put_response_map s). (\<lambda>(i, p). bad_response (cp_request p)) ` set pending)"
    using Un_mono [OF Un_mono [OF s1(6) s2(6)] s3(4)] unfolding s1(4) s2(5) s1(5) by (simp add: Un_assoc)
  show ?thesis
    by (intro exI [of _ "r1 @ r2 @ r3"] exI [of _ s3], rule conjI [OF run], rule conjI, intro allI impI, erule a,
        rule conjI, intro allI impI, erule b, rule conjI, intro allI impI, erule c, rule d)
qed

definition sample_request :: KeyRequest where
  "sample_request = \<lparr>rq_type = PUT, rq_tuples = [empty_KeyTuple\<lparr>kt_key := ''k'', kt_lattice_type := LWW\<rparr>],
     rq_response_address = ''tcp://9.9.9.9:6800'', rq_request_id = ''9.9.9.9:0_1''\<rparr>"

definition sample_client :: client where
  "sample_client = (new_client (\<lambda>_. 0) 0 sample_conf)\<lparr>cl_ticks := 1,
     pending_request_map := [(''k'', (0, [sample_request]))]\<rparr>"

lemma sample_client_ok: "client_ok sample_client" "routing_threads sample_conf \<noteq> []"
  by (simp_all add: sample_client_def client_ok_def new_client_def om_all_def om_wf_def request_for_def sample_request_def
      sample_conf_def)

theorem requests_time_out_witness:
  "\<exists>result s'. receive_async sample_conf None None sample_client = Inr (result, s')
    \<and> bad_response sample_request \<in> set result \<and> map_of (pending_request_map s') ''k'' = None"
proof -
  have "to_millis (int n * 20000000000 - 0) > 10000" if "n \<ge> 1" for n
    using that by (simp add: to_millis_def duration_cast_def)
  then have "late sample_conf 0 sample_client"
    by (simp add: late_def sample_conf_def sample_client_def)
  moreover have "map_of (pending_request_map sample_client) ''k'' = Some (0, [sample_request])"
    by (simp add: sample_client_def)
  moreover obtain result s' where "receive_async sample_conf None None sample_client = Inr (result, s')"
      "\<forall>key tp requests. map_of (pending_request_map sample_client) key = Some (tp, requests) \<and> late sample_conf tp sample_client \<longrightarrow>
         bad_response ` set requests \<subseteq> set result \<and> map_of (pending_request_map s') key = None"
    using requests_time_out [OF sample_client_ok(1), of sample_conf] by (elim exE conjE) (rule that)
  ultimately show ?thesis
    by fastforce
qed

text \<open>
  C26. When the routing tier answers without any address for a key, as it does for the empty key and
  for a key that no tier stores, the client parks the waiting request again in the list it is
  iterating over, whose iterators are thereby invalid.
\<close>

theorem no_address_breaks_iteration:
  assumes "response = snd (parse_KeyAddressResponse (cl_codec cf) m)"
    and "ar_addresses response = addresses # others" "key = ka_key addresses" "ar_error response \<noteq> NO_SERVERS"
    and "ka_ips addresses = []" "om_at [] (key_address_cache s) key = []"
    and "map_of (pending_request_map s) key = Some (tp, request # requests)" "request_for key request"
  shows "receive_addresses cf m s = Inl InvalidIterator"
proof -
  obtain tuple tuples where tuples: "rq_tuples request = tuple # tuples" "kt_key tuple = key"
    using assms(8) by (auto simp: request_for_def)
  have "get_worker_thread cf key s = Inr ([], s)"
    using assms(6,7) by (auto simp: get_worker_thread_def get_all_worker_threads_def om_at_def split: option.splits list.splits)
  then have "try_request cf request s = Inr (request, park_until_addressed cf key request s)"
    by (simp add: try_request_def tuples vec_at_def)
  moreover have "snd (om_at (0, []) (pending_request_map (park_until_addressed cf key request s)) key) =
      request # requests @ [request]"
    using assms(7) by (simp add: park_until_addressed_def om_at_Some)
  ultimately have "release_requests cf key s = Inl InvalidIterator"
    by (simp add: release_requests_def om_at_Some [OF assms(7)])
  then show ?thesis
    by (simp add: receive_addresses_def assms(1) [symmetric] assms(2,4,5,7) assms(3) [symmetric] vec_at_def Let_def)
qed

theorem no_address_breaks_iteration_witness:
  "receive_addresses sample_conf (ser_KeyAddressResponse wire_codec
     (empty_KeyAddressResponse\<lparr>ar_addresses := [key_address ''k'' []]\<rparr>)) sample_client = Inl InvalidIterator"
proof -
  have codec: "cl_codec sample_conf = wire_codec"
    by (simp add: sample_conf_def)
  show ?thesis
    by (rule no_address_breaks_iteration [where addresses = "key_address ''k'' []" and others = "[]" and key = "''k''"
          and request = sample_request and requests = "[]" and tp = 0, OF refl])
      (simp_all add: codec key_address_def empty_KeyAddressResponse_def sample_client_def new_client_def
        request_for_def sample_request_def)
qed

end
