(* ===== verification/Anna_Monitor.thy ===== *)
theory Anna_Monitor
  imports Anna_Client
begin

text \<open>
  The monitor (\<^verbatim>\<open>src/monitor/\<close> and \<^verbatim>\<open>include/monitor/\<close>). It follows the membership of the cluster, collects every
  thirty seconds the statistics that the servers store about themselves, summarises them, and adds or
  removes nodes and changes the replication factors of keys. This theory holds its state and operations,
  from the handlers over statistics and policies to the loop.
\<close>

section \<open>Floating-point numbers\<close>

text \<open>
  A \<^verbatim>\<open>double\<close> is a real number, plus or minus infinity, or not a number; rounding is not modelled.
  A comparison with \<open>NaN\<close> is false. The divisors are counts and capacities, so a zero divisor has a positive
  sign. The conversion of a number outside the range of the integer type is undefined.
\<close>

datatype double = Finite real | Infinite bool | NaN

definition ddiv :: "real \<Rightarrow> real \<Rightarrow> double" where
  "ddiv x y = (if y \<noteq> 0 then Finite (x / y) else if x = 0 then NaN else Infinite (x > 0))"

fun dadd :: "double \<Rightarrow> double \<Rightarrow> double" where
  "dadd (Finite x) (Finite y) = Finite (x + y)"
| "dadd (Infinite a) (Infinite b) = (if a = b then Infinite a else NaN)"
| "dadd (Infinite a) (Finite y) = Infinite a"
| "dadd (Finite x) (Infinite b) = Infinite b"
| "dadd NaN y = NaN"
| "dadd x NaN = NaN"

fun dless :: "double \<Rightarrow> double \<Rightarrow> bool" where
  "dless (Finite x) (Finite y) = (x < y)"
| "dless (Finite x) (Infinite b) = b"
| "dless (Infinite a) (Finite y) = (\<not> a)"
| "dless (Infinite a) (Infinite b) = (\<not> a \<and> b)"
| "dless NaN y = False"
| "dless x NaN = False"

fun dsqrt :: "double \<Rightarrow> double" where
  "dsqrt (Finite x) = (if x < 0 then NaN else Finite (sqrt x))"
| "dsqrt (Infinite a) = (if a then Infinite True else NaN)"
| "dsqrt NaN = NaN"

definition ceil_unsigned :: "double \<Rightarrow> u32 res" where
  "ceil_unsigned d =
     (case d of
        Finite x \<Rightarrow> if 0 \<le> \<lceil>x\<rceil> \<and> \<lceil>x\<rceil> < 2 ^ 32 then Inr (word_of_int \<lceil>x\<rceil>) else Inl BadConversion
      | _ \<Rightarrow> Inl BadConversion)"

definition trunc_word :: "real \<Rightarrow> 'a::len word res" where
  "trunc_word x =
     (if - 1 < x \<and> x < 2 ^ LENGTH('a) then Inr (word_of_int (if x < 0 then 0 else \<lfloor>x\<rfloor>)) else Inl BadConversion)"

abbreviation real_word :: "'a::len word \<Rightarrow> real" where
  "real_word w \<equiv> real (unat w)"

section \<open>Constants, configuration and state\<close>

definition kMonitoringThreshold :: u32 where
  "kMonitoringThreshold = 30"

definition kGracePeriod :: u32 where
  "kGracePeriod = 120"

definition kNodeAdditionBatchSize :: u32 where
  "kNodeAdditionBatchSize = 2"

definition kMaxMemoryNodeConsumption :: real where
  "kMaxMemoryNodeConsumption = 6 / 10"

definition kMaxEbsNodeConsumption :: real where
  "kMaxEbsNodeConsumption = 75 / 100"

definition kMinEbsNodeConsumption :: real where
  "kMinEbsNodeConsumption = 5 / 10"

definition kKeyPromotionThreshold :: u32 where
  "kKeyPromotionThreshold = 0"

definition kKeyDemotionThreshold :: u32 where
  "kKeyDemotionThreshold = 1"

definition kMinMemoryTierSize :: u32 where
  "kMinMemoryTierSize = 1"

definition kMinEbsTierSize :: u32 where
  "kMinEbsTierSize = 0"

definition kSloWorst :: u32 where
  "kSloWorst = 3000"

record SummaryStats =
  key_access_mean :: real
  key_access_std :: double
  total_memory_access :: u32
  total_ebs_access :: u32
  total_memory_consumption :: u64
  total_ebs_consumption :: u64
  max_memory_consumption_percentage :: double
  max_ebs_consumption_percentage :: double
  avg_memory_consumption_percentage :: double
  avg_ebs_consumption_percentage :: double
  required_memory_node :: u32
  required_ebs_node :: u32
  max_memory_occupancy :: double
  min_memory_occupancy :: double
  avg_memory_occupancy :: double
  max_ebs_occupancy :: double
  min_ebs_occupancy :: double
  avg_ebs_occupancy :: double
  min_occupancy_memory_public_ip :: Address
  min_occupancy_memory_private_ip :: Address
  avg_latency :: double
  total_throughput :: real

definition cleared_SummaryStats :: SummaryStats where
  "cleared_SummaryStats = \<lparr>key_access_mean = 0, key_access_std = Finite 0, total_memory_access = 0, total_ebs_access = 0,
     total_memory_consumption = 0, total_ebs_consumption = 0,
     max_memory_consumption_percentage = Finite 0, max_ebs_consumption_percentage = Finite 0,
     avg_memory_consumption_percentage = Finite 0, avg_ebs_consumption_percentage = Finite 0,
     required_memory_node = 0, required_ebs_node = 0,
     max_memory_occupancy = Finite 0, min_memory_occupancy = Finite 1, avg_memory_occupancy = Finite 0,
     max_ebs_occupancy = Finite 0, min_ebs_occupancy = Finite 1, avg_ebs_occupancy = Finite 0,
     min_occupancy_memory_public_ip = [], min_occupancy_memory_private_ip = [],
     avg_latency = Finite 0, total_throughput = 0\<rparr>"

type_synonym StorageStats = "(Address, (u32, u64) omap) omap"
type_synonym OccupancyStats = "(Address, (u32, real \<times> u32) omap) omap"
type_synonym AccessStats = "(Address, (u32, u32) omap) omap"

text \<open>
  \<open>mo_clock\<close> gives the successive readings of the system clock in nanoseconds, and \<open>mo_recv\<close> the results of the calls of
  \<^verbatim>\<open>recv\<close> on the response socket during the successive synchronous requests, absent for a timeout.
\<close>

record monitor_conf =
  mo_env :: env
  mo_clock :: "nat \<Rightarrow> int"
  mo_recv :: "nat \<Rightarrow> string option list"
  mo_mt :: MonitoringThread
  mo_management_ip :: Address
  kEnableElasticity :: bool
  kEnableTiering :: bool
  kEnableSelectiveRep :: bool
  kMemoryThreadCount :: u32
  kEbsThreadCount :: u32
  kMinimumReplicaNumber :: u32

record monitor = ring_ctx +
  memory_node_count :: u32
  ebs_node_count :: u32
  key_access_frequency :: "(Key, (Address, u32) omap) omap"
  key_access_summary :: "(Key, u32) omap"
  key_sizes :: "(Key, u32) omap"
  memory_storage :: StorageStats
  ebs_storage :: StorageStats
  memory_occupancy :: OccupancyStats
  ebs_occupancy :: OccupancyStats
  memory_accesses :: AccessStats
  ebs_accesses :: AccessStats
  summary_stats :: SummaryStats
  user_latency :: "(string, real) omap"
  user_throughput :: "(string, real) omap"
  latency_miss_ratio_map :: "(Key, real \<times> u32) omap"
  mo_routing_ips :: "Address list"
  departing_node_map :: "(Address, u32) omap"
  mo_report_start :: int
  grace_start :: int
  new_memory_count :: u32
  new_ebs_count :: u32
  removing_memory_node :: bool
  removing_ebs_node :: bool
  server_monitoring_epoch :: u32
  mo_rid :: u32
  mo_ticks :: nat
  mo_calls :: nat

definition mo_now :: "monitor_conf \<Rightarrow> monitor \<Rightarrow> int" where
  "mo_now M s = mo_clock M (mo_ticks s)"

definition mo_tick :: "monitor \<Rightarrow> monitor" where
  "mo_tick s = s\<lparr>mo_ticks := Suc (mo_ticks s)\<rparr>"

definition tier_capacity :: "monitor_conf \<Rightarrow> Tier \<Rightarrow> real" where
  "tier_capacity M tier = real_word (tmd_node_capacity (om_at default_TierMetadata (kTierMetadata (mo_env M)) tier))"

definition tier_thread_number :: "monitor_conf \<Rightarrow> Tier \<Rightarrow> u32" where
  "tier_thread_number M tier = tmd_thread_number (om_at default_TierMetadata (kTierMetadata (mo_env M)) tier)"

section \<open>Membership, departures and feedback\<close>

definition add_server :: "monitor_conf \<Rightarrow> Tier \<Rightarrow> Address \<Rightarrow> Address \<Rightarrow> monitor \<Rightarrow> monitor" where
  "add_server M tier new_public new_private s =
     set_global_ring tier (snd (hr_insert (GlobalHasher (env_hash (mo_env M))) new_public new_private 0 0
       (global_ring tier s))) s"

definition monitoring_join :: "monitor_conf \<Rightarrow> Tier \<Rightarrow> Address \<Rightarrow> Address \<Rightarrow> monitor \<Rightarrow> monitor" where
  "monitoring_join M tier new_public new_private s =
     (if tier = MEMORY
      then let s = add_server M tier new_public new_private s;
               s = s\<lparr>new_memory_count := if new_memory_count s > 0 then new_memory_count s - 1 else new_memory_count s\<rparr>
           in mo_tick (s\<lparr>grace_start := mo_now M s\<rparr>)
      else if tier = DISK
      then let s = add_server M tier new_public new_private s;
               s = s\<lparr>new_ebs_count := if new_ebs_count s > 0 then new_ebs_count s - 1 else new_ebs_count s\<rparr>
           in mo_tick (s\<lparr>grace_start := mo_now M s\<rparr>)
      else if tier = ROUTING then s\<lparr>mo_routing_ips := mo_routing_ips s @ [new_public]\<rparr>
      else s)"

definition forget_accesses :: "u32 \<Rightarrow> Address \<Rightarrow> (Key, (Address, u32) omap) omap \<Rightarrow> (Key, (Address, u32) omap) omap" where
  "forget_accesses threads new_private =
     map (\<lambda>(key, accesses). (key, fold (\<lambda>i. AList.delete (new_private @ '':'' @ nat_to_string i)) [0..<unat threads] accesses))"

definition monitoring_depart :: "monitor_conf \<Rightarrow> Tier \<Rightarrow> Address \<Rightarrow> Address \<Rightarrow> monitor \<Rightarrow> monitor" where
  "monitoring_depart M tier new_public new_private s =
     (let s = set_global_ring tier (hr_remove (GlobalHasher (env_hash (mo_env M))) new_public new_private 0
                (global_ring tier s)) s
      in if tier = MEMORY
         then s\<lparr>memory_storage := AList.delete new_private (memory_storage s),
                memory_occupancy := AList.delete new_private (memory_occupancy s),
                key_access_frequency := forget_accesses (kMemoryThreadCount M) new_private (key_access_frequency s)\<rparr>
         else if tier = DISK
         then s\<lparr>ebs_storage := AList.delete new_private (ebs_storage s),
                ebs_occupancy := AList.delete new_private (ebs_occupancy s),
                key_access_frequency := forget_accesses (kEbsThreadCount M) new_private (key_access_frequency s)\<rparr>
         else s)"

definition monitoring_membership_handler :: "monitor_conf \<Rightarrow> string \<Rightarrow> monitor \<Rightarrow> monitor res" where
  "monitoring_membership_handler M serialized s =
     (let v = split serialized CHR '':''
      in rbind (vec_at v 0) (\<lambda>type. rbind (vec_at v 1) (\<lambda>name. rbind (vec_at v 2) (\<lambda>new_public. rbind (vec_at v 3) (\<lambda>new_private.
           if type = ''join''
           then rbind (tier_read (Tier_Parse name)) (\<lambda>tier. Inr (monitoring_join M tier new_public new_private s))
           else if type = ''depart''
           then rbind (tier_read (Tier_Parse name)) (\<lambda>tier. Inr (monitoring_depart M tier new_public new_private s))
           else Inr s)))))"

definition depart_done_handler :: "monitor_conf \<Rightarrow> string \<Rightarrow> monitor \<Rightarrow> monitor res" where
  "depart_done_handler M serialized s =
     (let tokens = split serialized CHR ''_''
      in rbind (vec_at tokens 0) (\<lambda>departed_public. rbind (vec_at tokens 1) (\<lambda>departed_private.
         rbind (vec_at tokens 2) (\<lambda>t. rbind (stoi t) (\<lambda>tier_id.
           case map_of (departing_node_map s) departed_private of
             None \<Rightarrow> Inr s
           | Some n \<Rightarrow>
               let s = s\<lparr>departing_node_map := AList.update departed_private (n - 1) (departing_node_map s)\<rparr>
               in if n - 1 = 0
                  then let memory = ((word_of_int tier_id :: u32) = 1);
                           ntype = (if memory then ''memory'' else ''ebs'');
                           s = (if memory then s\<lparr>removing_memory_node := False\<rparr> else s\<lparr>removing_ebs_node := False\<rparr>);
                           s = send_string (''remove:'' @ departed_private @ '':'' @ ntype)
                                 (''tcp://'' @ mo_management_ip M @ '':7001'') s
                       in Inr (mo_tick (s\<lparr>grace_start := mo_now M s,
                            departing_node_map := AList.delete departed_private (departing_node_map s)\<rparr>))
                  else Inr s)))))"

definition note_latency :: "KeyLatency \<Rightarrow> (Key, real \<times> u32) omap \<Rightarrow> (Key, real \<times> u32) omap" where
  "note_latency key_latency m =
     (let key = kl_key key_latency; ratio = kl_latency key_latency / real_word kSloWorst
      in case map_of m key of
           None \<Rightarrow> AList.update key (ratio, 1) m
         | Some (average, n) \<Rightarrow> AList.update key ((average * real_word n + ratio) / real_word (n + 1), n + 1) m)"

definition feedback_handler :: "monitor_conf \<Rightarrow> string \<Rightarrow> monitor \<Rightarrow> monitor" where
  "feedback_handler M serialized s =
     (let fb = snd (parse_UserFeedback (env_codec (mo_env M)) serialized)
      in if uf_finish fb then s\<lparr>user_latency := AList.delete (uf_uid fb) (user_latency s)\<rparr>
         else s\<lparr>user_latency := AList.update (uf_uid fb) (uf_latency fb) (user_latency s),
                user_throughput := AList.update (uf_uid fb) (uf_throughput fb) (user_throughput s),
                latency_miss_ratio_map := fold note_latency (uf_key_latency fb) (latency_miss_ratio_map s)\<rparr>)"

section \<open>Collecting the statistics of the servers\<close>

definition request_stats_key ::
    "monitor_conf \<Rightarrow> Key \<Rightarrow> (Address, KeyRequest) omap \<times> monitor \<Rightarrow> ((Address, KeyRequest) omap \<times> monitor) res" where
  "request_stats_key M key = (\<lambda>(addr_request_map, s).
     rbind (prepare_metadata_get_request (mo_env M) key (global_ring MEMORY s) (local_ring MEMORY s) addr_request_map
         (mt_response_connect_address (mo_mt M)) (mo_rid s) (touch_local_ring MEMORY (touch_global_ring MEMORY s)))
       (\<lambda>(addr_request_map, rid, s). Inr (addr_request_map, s\<lparr>mo_rid := rid\<rparr>)))"

definition stats_keys :: "Tier \<Rightarrow> ServerThread \<Rightarrow> nat \<Rightarrow> Key list" where
  "stats_keys tier st i = map (get_metadata_key st tier (of_nat i)) [server_stats, key_access, key_size]"

definition request_tier_stats ::
    "monitor_conf \<Rightarrow> Tier \<Rightarrow> (Address, KeyRequest) omap \<times> monitor \<Rightarrow> ((Address, KeyRequest) omap \<times> monitor) res" where
  "request_tier_stats M tier = (\<lambda>(addr_request_map, s).
     rfold (\<lambda>st. rfold (\<lambda>i. rfold (request_stats_key M) (stats_keys tier st i))
         [0..<unat (tier_thread_number M tier)])
       (hr_unique_servers (global_ring tier s)) (addr_request_map, touch_global_ring tier s))"

definition sync_request :: "monitor_conf \<Rightarrow> Address \<Rightarrow> KeyRequest \<Rightarrow> monitor \<Rightarrow> ((bool \<times> KeyResponse) \<times> monitor) res" where
  "sync_request M address request s =
     (let C = env_codec (mo_env M);
          inputs = map (map_option (\<lambda>m. snd (parse_KeyResponse C m))) (mo_recv M (mo_calls s));
          (sent, outcome) = make_request (ser_KeyRequest C) rq_request_id rs_response_id empty_KeyResponse request inputs;
          s = (send_string sent address s)\<lparr>mo_calls := Suc (mo_calls s)\<rparr>
      in case outcome of None \<Rightarrow> Inl Diverges | Some r \<Rightarrow> Inr (r, s))"

definition note_stats :: "Tier \<Rightarrow> Address \<Rightarrow> u32 \<Rightarrow> ServerThreadStatistics \<Rightarrow> monitor \<Rightarrow> monitor" where
  "note_stats tier ip_pair tid stat s =
     (if tier = MEMORY
      then s\<lparr>memory_storage := om_modify [] ip_pair (AList.update tid (sts_storage_consumption stat)) (memory_storage s),
             memory_occupancy := om_modify [] ip_pair (AList.update tid (sts_occupancy stat, sts_epoch stat)) (memory_occupancy s),
             memory_accesses := om_modify [] ip_pair (AList.update tid (sts_access_count stat)) (memory_accesses s)\<rparr>
      else s\<lparr>ebs_storage := om_modify [] ip_pair (AList.update tid (sts_storage_consumption stat)) (ebs_storage s),
             ebs_occupancy := om_modify [] ip_pair (AList.update tid (sts_occupancy stat, sts_epoch stat)) (ebs_occupancy s),
             ebs_accesses := om_modify [] ip_pair (AList.update tid (sts_access_count stat)) (ebs_accesses s)\<rparr>)"

definition note_accesses :: "Address \<Rightarrow> KeyAccessData \<Rightarrow> monitor \<Rightarrow> monitor" where
  "note_accesses reporter access s = s\<lparr>key_access_frequency :=
     fold (\<lambda>kc. om_modify [] (kc_key kc) (AList.update reporter (kc_access_count kc))) (kad_keys access)
       (key_access_frequency s)\<rparr>"

definition note_sizes :: "KeySizeData \<Rightarrow> monitor \<Rightarrow> monitor" where
  "note_sizes sizes s = s\<lparr>key_sizes := fold (\<lambda>ks. AList.update (ks_key ks) (ks_size ks)) (ksd_key_sizes sizes) (key_sizes s)\<rparr>"

definition collect_tuple :: "monitor_conf \<Rightarrow> KeyTuple \<Rightarrow> monitor \<Rightarrow> monitor res" where
  "collect_tuple M tuple s =
     (if kt_error tuple = NO_ERROR
      then
        let C = env_codec (mo_env M); tokens = split_metadata_key (kt_key tuple)
        in rbind (vec_at tokens 1) (\<lambda>metadata_type. rbind (vec_at tokens 2) (\<lambda>public. rbind (vec_at tokens 3) (\<lambda>private.
           rbind (vec_at tokens 4) (\<lambda>t. rbind (stoi t) (\<lambda>tid. rbind (vec_at tokens 5) (\<lambda>name.
             let ip_pair = public @ ''/'' @ private; tid = word_of_int tid;
                 value = lwwv_value (snd (parse_LWWValue C (kt_payload tuple)))
             in if metadata_type = ''stats''
                then rbind (tier_read (Tier_Parse name))
                       (\<lambda>tier. Inr (note_stats tier ip_pair tid (snd (parse_ServerThreadStatistics C value)) s))
                else if metadata_type = ''access''
                then Inr (note_accesses (ip_pair @ '':'' @ to_string tid) (snd (parse_KeyAccessData C value)) s)
                else if metadata_type = ''size''
                then Inr (note_sizes (snd (parse_KeySizeData C value)) s)
                else Inr s))))))
      else Inr s)"

definition collect_response :: "monitor_conf \<Rightarrow> Address \<times> KeyRequest \<Rightarrow> monitor \<Rightarrow> monitor res" where
  "collect_response M = (\<lambda>(address, request) s.
     rbind (sync_request M address request s) (\<lambda>((succeed, res), s).
       if succeed then rfold (collect_tuple M) (rs_tuples res) s else Inr s))"

definition collect_internal_stats :: "monitor_conf \<Rightarrow> monitor \<Rightarrow> monitor res" where
  "collect_internal_stats M s =
     rbind (rfold (request_tier_stats M) kAllTiers ([], s))
       (\<lambda>(addr_request_map, s). rfold (collect_response M) addr_request_map s)"

section \<open>Summaries\<close>

definition key_access_step ::
    "Key \<times> (Address, u32) omap \<Rightarrow> (Key, u32) omap \<times> u32 \<times> real \<times> real \<Rightarrow> (Key, u32) omap \<times> u32 \<times> real \<times> real" where
  "key_access_step = (\<lambda>(key, per_machine) (key_access_summary, cnt, mean, ms).
     let access_count = fold (\<lambda>(_, n) c. c + n) per_machine 0;
         key_access_summary = AList.update key access_count key_access_summary
     in if access_count > 0
        then let cnt = cnt + 1;
                 delta = real_word access_count - mean;
                 mean = mean + delta / real_word cnt;
                 delta2 = real_word access_count - mean
             in (key_access_summary, cnt, mean, ms + delta * delta2)
        else (key_access_summary, cnt, mean, ms))"

definition tier_accesses :: "AccessStats \<Rightarrow> u32 \<Rightarrow> u32" where
  "tier_accesses accesses before = fold (\<lambda>(_, threads). fold (\<lambda>(_, n) c. c + n) threads) accesses before"

definition storage_step ::
    "real \<Rightarrow> Address \<times> (u32, u64) omap \<Rightarrow> u64 \<times> double \<times> u32 \<Rightarrow> u64 \<times> double \<times> u32" where
  "storage_step capacity = (\<lambda>(_, threads) (total, max_percentage, count).
     let total_thread_consumption = fold (\<lambda>(_, n) (c :: u32). c + ucast n) threads 0;
         percentage = ddiv (real_word total_thread_consumption) capacity
     in (fold (\<lambda>(_, n) c. c + n) threads total,
         if dless max_percentage percentage then percentage else max_percentage, count + 1))"

definition node_occupancy :: "(u32, real \<times> u32) omap \<Rightarrow> double" where
  "node_occupancy threads =
     (let (sum_thread_occupancy, thread_count) = fold (\<lambda>(_, occupancy, _) (c, n). (c + occupancy, n + 1)) threads (0, 0 :: u32)
      in ddiv sum_thread_occupancy (real_word thread_count))"

definition memory_occupancy_step ::
    "Address \<times> (u32, real \<times> u32) omap \<Rightarrow> double \<times> u32 \<times> SummaryStats \<Rightarrow> (double \<times> u32 \<times> SummaryStats) res" where
  "memory_occupancy_step = (\<lambda>(ip_pair, threads) (sum_occupancy, count, ss).
     let occupancy = node_occupancy threads;
         ss = (if dless (max_memory_occupancy ss) occupancy then ss\<lparr>max_memory_occupancy := occupancy\<rparr> else ss)
     in if dless occupancy (min_memory_occupancy ss)
        then let ips = split ip_pair CHR ''/''
             in rbind (vec_at ips 0) (\<lambda>public. rbind (vec_at ips 1) (\<lambda>private.
                  Inr (dadd sum_occupancy occupancy, count + 1, ss\<lparr>min_memory_occupancy := occupancy,
                    min_occupancy_memory_public_ip := public, min_occupancy_memory_private_ip := private\<rparr>)))
        else Inr (dadd sum_occupancy occupancy, count + 1, ss))"

definition ebs_occupancy_step ::
    "Address \<times> (u32, real \<times> u32) omap \<Rightarrow> double \<times> u32 \<times> SummaryStats \<Rightarrow> double \<times> u32 \<times> SummaryStats" where
  "ebs_occupancy_step = (\<lambda>(ip_pair, threads) (sum_occupancy, count, ss).
     let occupancy = node_occupancy threads;
         ss = (if dless (max_ebs_occupancy ss) occupancy then ss\<lparr>max_ebs_occupancy := occupancy\<rparr> else ss);
         ss = (if dless occupancy (min_ebs_occupancy ss) then ss\<lparr>min_ebs_occupancy := occupancy\<rparr> else ss)
     in (dadd sum_occupancy occupancy, count + 1, ss))"

definition average :: "double \<Rightarrow> u32 \<Rightarrow> double" where
  "average d count = (case d of Finite x \<Rightarrow> ddiv x (real_word count) | _ \<Rightarrow> d)"

definition summarise_storage :: "monitor_conf \<Rightarrow> monitor \<Rightarrow> SummaryStats \<Rightarrow> SummaryStats res" where
  "summarise_storage M s ss =
     (let memory_capacity = tier_capacity M MEMORY; ebs_capacity = tier_capacity M DISK;
          (memory, max_memory, m_count) = fold (storage_step memory_capacity) (memory_storage s)
            (total_memory_consumption ss, max_memory_consumption_percentage ss, 0);
          (ebs, max_ebs, e_count) = fold (storage_step ebs_capacity) (ebs_storage s)
            (total_ebs_consumption ss, max_ebs_consumption_percentage ss, 0);
          ss = ss\<lparr>total_memory_consumption := memory, max_memory_consumption_percentage := max_memory,
                  total_ebs_consumption := ebs, max_ebs_consumption_percentage := max_ebs\<rparr>;
          ss = (if m_count \<noteq> 0 then ss\<lparr>avg_memory_consumption_percentage :=
                  ddiv (real_word memory) (real_word m_count * memory_capacity)\<rparr> else ss);
          ss = (if e_count \<noteq> 0 then ss\<lparr>avg_ebs_consumption_percentage :=
                  ddiv (real_word ebs) (real_word e_count * ebs_capacity)\<rparr> else ss)
      in rbind (ceil_unsigned (ddiv (real_word memory) (kMaxMemoryNodeConsumption * memory_capacity))) (\<lambda>memory_node.
         rbind (ceil_unsigned (ddiv (real_word ebs) (kMaxEbsNodeConsumption * ebs_capacity))) (\<lambda>ebs_node.
           Inr (ss\<lparr>required_memory_node := memory_node, required_ebs_node := ebs_node\<rparr>))))"

definition summarise_occupancy :: "monitor \<Rightarrow> SummaryStats \<Rightarrow> SummaryStats res" where
  "summarise_occupancy s ss =
     rbind (rfold memory_occupancy_step (memory_occupancy s) (Finite 0, 0, ss)) (\<lambda>(sum_memory, count, ss).
       let ss = ss\<lparr>avg_memory_occupancy := average sum_memory count\<rparr>;
           (sum_ebs, count, ss) = fold ebs_occupancy_step (ebs_occupancy s) (Finite 0, 0, ss)
       in Inr (ss\<lparr>avg_ebs_occupancy := average sum_ebs count\<rparr>))"

definition compute_summary_stats :: "monitor_conf \<Rightarrow> monitor \<Rightarrow> monitor res" where
  "compute_summary_stats M s =
     (let (summary, cnt, mean, ms) = fold key_access_step (key_access_frequency s) (key_access_summary s, 0, 0, 0);
          ss = (summary_stats s)\<lparr>key_access_mean := mean, key_access_std := dsqrt (ddiv ms (real_word cnt))\<rparr>;
          ss = ss\<lparr>total_memory_access := tier_accesses (memory_accesses s) (total_memory_access ss),
                  total_ebs_access := tier_accesses (ebs_accesses s) (total_ebs_access ss)\<rparr>
      in rbind (summarise_storage M s ss) (\<lambda>ss. rbind (summarise_occupancy s ss) (\<lambda>ss.
           Inr (s\<lparr>key_access_summary := summary, summary_stats := ss\<rparr>))))"

definition collect_external_stats :: "monitor \<Rightarrow> monitor" where
  "collect_external_stats s =
     (let ss = summary_stats s;
          (sum_latency, count) = fold (\<lambda>(_, latency) (c, n). (c + latency, n + 1)) (user_latency s) (0, 0 :: u32);
          ss = (if length (user_latency s) > 0 then ss\<lparr>avg_latency := ddiv sum_latency (real_word count)\<rparr> else ss);
          ss = (if length (user_throughput s) > 0
                then ss\<lparr>total_throughput := fold (\<lambda>(_, n) c. c + n) (user_throughput s) (total_throughput ss)\<rparr> else ss)
      in s\<lparr>summary_stats := ss\<rparr>)"

section \<open>Changing replication factors\<close>

definition create_new_replication_vector :: "u32 \<Rightarrow> u32 \<Rightarrow> u32 \<Rightarrow> u32 \<Rightarrow> KeyReplication" where
  "create_new_replication_vector gm ge lm le =
     \<lparr>global_replication = [(MEMORY, gm), (DISK, ge)], local_replication = [(MEMORY, lm), (DISK, le)]\<rparr>"

definition factor_values :: "(Tier, u32) omap \<Rightarrow> ReplicationValue list" where
  "factor_values = map (\<lambda>(tier, n). \<lparr>rv_tier = tier, rv_value = n\<rparr>)"

definition replication_factor :: "Key \<Rightarrow> KeyReplication \<Rightarrow> ReplicationFactor" where
  "replication_factor key rep = \<lparr>rf_key = key, rf_global = factor_values (global_replication rep),
     rf_local = factor_values (local_replication rep)\<rparr>"

definition prepare_replication_factor_update ::
    "Key \<Rightarrow> Address \<Rightarrow> (Key, KeyReplication) omap \<Rightarrow> (Address, ReplicationFactorUpdate) omap
      \<Rightarrow> (Address, ReplicationFactorUpdate) omap" where
  "prepare_replication_factor_update key server_address factors =
     om_modify \<lparr>rfu_updates = []\<rparr> server_address (\<lambda>u. u\<lparr>rfu_updates := rfu_updates u @
       [replication_factor key (om_at empty_KeyReplication factors key)]\<rparr>)"

definition stage_request ::
    "monitor_conf \<Rightarrow> Key \<times> KeyReplication \<Rightarrow> (Key, KeyReplication) omap \<times> (Address, KeyRequest) omap \<times> monitor
      \<Rightarrow> ((Key, KeyReplication) omap \<times> (Address, KeyRequest) omap \<times> monitor) res" where
  "stage_request M = (\<lambda>(key, new_rep) (orig, addr_request_map, s).
     let current = replication_of key s;
         s = s\<lparr>key_replication_map := om_touch empty_KeyReplication key (key_replication_map s)\<rparr>;
         orig = AList.update key current orig
     in if KeyReplication_eq new_rep current then Inr (orig, addr_request_map, s)
        else
          let s = s\<lparr>key_replication_map := AList.update key
                \<lparr>global_replication = global_replication new_rep, local_replication = local_replication new_rep\<rparr>
                (key_replication_map s)\<rparr>;
              value = ser_ReplicationFactor (env_codec (mo_env M)) (replication_factor key new_rep);
              ms = word_of_int (to_millis (mo_now M s)); s = mo_tick s
          in rbind (prepare_metadata_put_request (mo_env M) ms (get_replication_key key replication) value
                 (global_ring MEMORY s) (local_ring MEMORY s) addr_request_map (mt_response_connect_address (mo_mt M))
                 (mo_rid s) (touch_local_ring MEMORY (touch_global_ring MEMORY s)))
               (\<lambda>(addr_request_map, rid, s). Inr (orig, addr_request_map, s\<lparr>mo_rid := rid\<rparr>)))"

definition store_factors ::
    "monitor_conf \<Rightarrow> Address \<times> KeyRequest \<Rightarrow> Key list \<times> monitor \<Rightarrow> (Key list \<times> monitor) res" where
  "store_factors M = (\<lambda>(address, request) (failed_keys, s).
     rbind (sync_request M address request s) (\<lambda>((succeed, res), s).
       let tuples = (if \<not> succeed then rq_tuples request
                     else filter (\<lambda>tuple. kt_error tuple = WRONG_THREAD) (rs_tuples res))
       in Inr (fold (\<lambda>tuple. List.insert (get_key_from_metadata (kt_key tuple))) tuples failed_keys, s)))"

definition update_tier ::
    "monitor_conf \<Rightarrow> (Key, KeyReplication) omap \<Rightarrow> Key \<Rightarrow> Tier \<Rightarrow> (Address, ReplicationFactorUpdate) omap \<times> monitor
      \<Rightarrow> ((Address, ReplicationFactorUpdate) omap \<times> monitor) res" where
  "update_tier M orig key tier = (\<lambda>(updates, s).
     let rep = max (global_rep key tier s) (om_at 0 (global_replication (om_at empty_KeyReplication orig key)) tier);
         s = touch_global_ring tier (touch_global_rep key tier s)
     in rbind (responsible_global (env_hash (mo_env M)) key rep (global_ring tier s)) (\<lambda>threads.
          Inr (fold (\<lambda>thread. prepare_replication_factor_update key (replication_change_connect_address thread)
                 (key_replication_map s)) threads updates, s)))"

definition update_key ::
    "monitor_conf \<Rightarrow> (Key, KeyReplication) omap \<Rightarrow> Key list \<Rightarrow> Key \<times> KeyReplication
      \<Rightarrow> (Address, ReplicationFactorUpdate) omap \<times> monitor \<Rightarrow> ((Address, ReplicationFactorUpdate) omap \<times> monitor) res" where
  "update_key M orig failed_keys = (\<lambda>(key, _) (updates, s).
     if key \<in> set failed_keys then Inr (updates, s)
     else rbind (rfold (update_tier M orig key) kAllTiers (updates, s)) (\<lambda>(updates, s).
       Inr (fold (\<lambda>address. prepare_replication_factor_update key
              (rt_replication_change_connect_address \<lparr>rt_ip = address, rt_tid = 0\<rparr>) (key_replication_map s))
            (mo_routing_ips s) updates, s)))"

definition change_replication_factor :: "monitor_conf \<Rightarrow> (Key, KeyReplication) omap \<Rightarrow> monitor \<Rightarrow> monitor res" where
  "change_replication_factor M requests s =
     rbind (rfold (stage_request M) requests ([], [], s)) (\<lambda>(orig, addr_request_map, s).
     rbind (rfold (store_factors M) addr_request_map ([], s)) (\<lambda>(failed_keys, s).
     rbind (rfold (update_key M orig failed_keys) requests ([], s)) (\<lambda>(updates, s).
       let s = fold (\<lambda>(address, update). send_string (ser_ReplicationFactorUpdate (env_codec (mo_env M)) update) address)
                 updates s
       in Inr (s\<lparr>key_replication_map :=
            fold (\<lambda>key. AList.update key (om_at empty_KeyReplication orig key)) failed_keys (key_replication_map s)\<rparr>))))"

section \<open>Policies\<close>

definition add_node :: "monitor_conf \<Rightarrow> string \<Rightarrow> u32 \<Rightarrow> monitor \<Rightarrow> monitor" where
  "add_node M tier number s =
     send_string (''add:'' @ to_string number @ '':'' @ tier) (''tcp://'' @ mo_management_ip M @ '':7001'') s"

definition remove_node :: "monitor_conf \<Rightarrow> ServerThread \<Rightarrow> monitor \<Rightarrow> monitor" where
  "remove_node M node s =
     send_string (mt_depart_done_connect_address (mo_mt M)) (self_depart_connect_address node)
       (s\<lparr>departing_node_map := AList.update (st_private_ip node) (tier_thread_number M MEMORY) (departing_node_map s)\<rparr>)"

definition grace_elapsed :: "monitor_conf \<Rightarrow> monitor \<Rightarrow> bool" where
  "grace_elapsed M s \<longleftrightarrow> to_secs (mo_now M s - grace_start s) > uint kGracePeriod"

definition add_memory_nodes :: "monitor_conf \<Rightarrow> monitor \<Rightarrow> monitor" where
  "add_memory_nodes M s =
     (if new_memory_count s = 0 \<and> required_memory_node (summary_stats s) > memory_node_count s
      then let late = grace_elapsed M s; s = mo_tick s
           in if late then (add_node M ''memory'' kNodeAdditionBatchSize s)\<lparr>new_memory_count := kNodeAdditionBatchSize\<rparr> else s
      else s)"

definition add_ebs_nodes :: "monitor_conf \<Rightarrow> monitor \<Rightarrow> monitor" where
  "add_ebs_nodes M s =
     (if kEnableTiering M \<and> new_ebs_count s = 0 \<and> required_ebs_node (summary_stats s) > ebs_node_count s
      then let late = grace_elapsed M s; s = mo_tick s
           in if late then (add_node M ''ebs'' kNodeAdditionBatchSize s)\<lparr>new_ebs_count := kNodeAdditionBatchSize\<rparr> else s
      else s)"

definition remove_ebs_node :: "monitor_conf \<Rightarrow> monitor \<Rightarrow> monitor res" where
  "remove_ebs_node M s =
     (if kEnableTiering M \<and> dless (avg_ebs_consumption_percentage (summary_stats s)) (Finite kMinEbsNodeConsumption)
        \<and> \<not> removing_ebs_node s \<and> ebs_node_count s > max (required_ebs_node (summary_stats s)) kMinEbsTierSize
      then let late = grace_elapsed M s; s = mo_tick s
           in if late
              then let s = touch_global_ring DISK s; nodes = hr_nodes (global_ring DISK s);
                       (n, new_state) = env_rand (mo_env M) (rand_state s); s = s\<lparr>rand_state := new_state\<rparr>
                   in if nodes = [] then Inl DivByZero
                      else Inr ((remove_node M (snd (nodes ! (n mod length nodes))) s)\<lparr>removing_ebs_node := True\<rparr>)
              else Inr s
      else Inr s)"

definition storage_policy :: "monitor_conf \<Rightarrow> monitor \<Rightarrow> monitor res" where
  "storage_policy M s = (if kEnableElasticity M then remove_ebs_node M (add_ebs_nodes M (add_memory_nodes M s)) else Inr s)"

type_synonym factor_requests = "(Key, KeyReplication) omap"

definition free_storage :: "real \<Rightarrow> real \<Rightarrow> u32 \<Rightarrow> u64 \<Rightarrow> u64 res" where
  "free_storage max_consumption capacity node_count consumption =
     trunc_word (max_consumption * capacity * real_word node_count - real_word consumption)"

definition promote_key ::
    "u64 \<Rightarrow> Key \<times> u32 \<Rightarrow> factor_requests \<times> u64 \<times> bool \<times> monitor \<Rightarrow> (factor_requests \<times> u64 \<times> bool \<times> monitor) res" where
  "promote_key free = (\<lambda>(key, access_count) (requests, required_storage, overflow, s).
     rbind (is_metadata key) (\<lambda>metadata.
       if metadata \<or> \<not> access_count > kKeyPromotionThreshold then Inr (requests, required_storage, overflow, s)
       else
         let gm = global_rep key MEMORY s; s = touch_global_rep key MEMORY s
         in case map_of (key_sizes s) key of
              None \<Rightarrow> Inr (requests, required_storage, overflow, s)
            | Some n \<Rightarrow>
                if gm \<noteq> 0 then Inr (requests, required_storage, overflow, s)
                else
                  let required_storage = required_storage + ucast n
                  in if required_storage > free then Inr (requests, required_storage, True, s)
                     else let s = touch_local_rep key DISK (touch_local_rep key MEMORY (touch_global_rep key DISK s))
                          in Inr (AList.update key (create_new_replication_vector (gm + 1) (global_rep key DISK s - 1)
                               (local_rep key MEMORY s) (local_rep key DISK s)) requests, required_storage, overflow, s)))"

definition demote_key ::
    "monitor_conf \<Rightarrow> u64 \<Rightarrow> Key \<times> u32 \<Rightarrow> factor_requests \<times> u64 \<times> bool \<times> monitor
      \<Rightarrow> (factor_requests \<times> u64 \<times> bool \<times> monitor) res" where
  "demote_key M free = (\<lambda>(key, access_count) (requests, required_storage, overflow, s).
     rbind (is_metadata key) (\<lambda>metadata.
       if metadata \<or> \<not> access_count < kKeyDemotionThreshold then Inr (requests, required_storage, overflow, s)
       else
         let gm = global_rep key MEMORY s; s = touch_global_rep key MEMORY s
         in case map_of (key_sizes s) key of
              None \<Rightarrow> Inr (requests, required_storage, overflow, s)
            | Some n \<Rightarrow>
                if \<not> gm > 0 then Inr (requests, required_storage, overflow, s)
                else
                  let required_storage = required_storage + ucast n
                  in if required_storage > free then Inr (requests, required_storage, True, s)
                     else Inr (AList.update key (create_new_replication_vector 0 (kMinimumReplicaNumber M) 1 1) requests,
                            required_storage, overflow, s)))"

definition dereplicate_key ::
    "monitor_conf \<Rightarrow> Key \<times> u32 \<Rightarrow> factor_requests \<times> monitor \<Rightarrow> (factor_requests \<times> monitor) res" where
  "dereplicate_key M = (\<lambda>(key, access_count) (requests, s).
     rbind (is_metadata key) (\<lambda>metadata.
       let minimum_rep = create_new_replication_vector 1 (kMinimumReplicaNumber M - 1) 1 1
       in if metadata \<or> \<not> real_word access_count \<le> key_access_mean (summary_stats s) then Inr (requests, s)
          else
            let current = replication_of key s;
                s = s\<lparr>key_replication_map := om_touch empty_KeyReplication key (key_replication_map s)\<rparr>
            in if KeyReplication_eq current minimum_rep then Inr (requests, s)
               else Inr (AList.update key minimum_rep requests, touch_global_rep key DISK (touch_global_rep key MEMORY s))))"

definition grow_tier ::
    "monitor_conf \<Rightarrow> string \<Rightarrow> real \<Rightarrow> real \<Rightarrow> u64 \<Rightarrow> u64 \<Rightarrow> u32 \<Rightarrow> (u32 \<Rightarrow> monitor \<Rightarrow> monitor) \<Rightarrow> monitor \<Rightarrow> monitor res" where
  "grow_tier M tier max_consumption capacity consumption required_storage node_count set_new s =
     rbind (ceil_unsigned (ddiv (real_word (consumption + required_storage)) (max_consumption * capacity)))
       (\<lambda>needed. Inr (if needed > node_count
          then set_new (needed - node_count) (add_node M tier (needed - node_count) s) else s))"

definition promote_keys :: "monitor_conf \<Rightarrow> monitor \<Rightarrow> (u32 \<times> monitor) res" where
  "promote_keys M s =
     (let ss = summary_stats s
      in rbind (free_storage kMaxMemoryNodeConsumption (tier_capacity M MEMORY) (memory_node_count s)
             (total_memory_consumption ss)) (\<lambda>free.
         rbind (rfold (promote_key free) (key_access_summary s) ([], 0, False, s)) (\<lambda>(requests, required_storage, overflow, s).
         rbind (change_replication_factor M requests s) (\<lambda>s.
           let time_elapsed = word_of_int (to_secs (mo_now M s - grace_start s)); s = mo_tick s
           in if kEnableElasticity M \<and> overflow \<and> new_memory_count s = 0 \<and> time_elapsed > kGracePeriod
              then rbind (grow_tier M ''memory'' kMaxMemoryNodeConsumption (tier_capacity M MEMORY)
                       (total_memory_consumption ss) required_storage (memory_node_count s)
                       (\<lambda>n s. s\<lparr>new_memory_count := n\<rparr>) s) (\<lambda>s. Inr (time_elapsed, s))
              else Inr (time_elapsed, s)))))"

definition demote_keys :: "monitor_conf \<Rightarrow> u32 \<Rightarrow> monitor \<Rightarrow> monitor res" where
  "demote_keys M time_elapsed s =
     (let ss = summary_stats s
      in rbind (free_storage kMaxEbsNodeConsumption (tier_capacity M DISK) (ebs_node_count s)
             (total_ebs_consumption ss)) (\<lambda>free.
         rbind (rfold (demote_key M free) (key_access_summary s) ([], 0, False, s)) (\<lambda>(requests, required_storage, overflow, s).
         rbind (change_replication_factor M requests s) (\<lambda>s.
           if kEnableElasticity M \<and> overflow \<and> new_ebs_count s = 0 \<and> time_elapsed > kGracePeriod
           then grow_tier M ''ebs'' kMaxEbsNodeConsumption (tier_capacity M DISK)
                  (total_ebs_consumption ss) required_storage (ebs_node_count s) (\<lambda>n s. s\<lparr>new_ebs_count := n\<rparr>) s
           else Inr s))))"

definition movement_policy :: "monitor_conf \<Rightarrow> monitor \<Rightarrow> monitor res" where
  "movement_policy M s =
     rbind (if kEnableTiering M
            then rbind (promote_keys M s) (\<lambda>(time_elapsed, s). demote_keys M time_elapsed s) else Inr s) (\<lambda>s.
       if kEnableSelectiveRep M
       then rbind (rfold (dereplicate_key M) (key_access_summary s) ([], s))
              (\<lambda>(requests, s). change_replication_factor M requests s)
       else Inr s)"

definition replicate_hot_key ::
    "monitor_conf \<Rightarrow> Key \<times> u32 \<Rightarrow> factor_requests \<times> monitor \<Rightarrow> (factor_requests \<times> monitor) res" where
  "replicate_hot_key M = (\<lambda>(key, access_count) (requests, s).
     rbind (is_metadata key) (\<lambda>metadata.
       let ss = summary_stats s
       in case map_of (latency_miss_ratio_map s) key of
            None \<Rightarrow> Inr (requests, s)
          | Some (ratio, _) \<Rightarrow>
              if metadata \<or> \<not> dless (dadd (Finite (key_access_mean ss)) (key_access_std ss)) (Finite (real_word access_count))
              then Inr (requests, s)
              else
                let current = global_rep key MEMORY s; s = touch_global_rep key MEMORY s
                in rbind (trunc_word (real_word current * ratio)) (\<lambda>target.
                     let target = (if target = current then target + 1 else target)
                     in if target > current \<and> current < memory_node_count s
                        then let new_mem_rep = min (memory_node_count s) target;
                                 new_ebs_rep = max (kMinimumReplicaNumber M - new_mem_rep) 0;
                                 s = touch_local_rep key DISK (touch_local_rep key MEMORY s)
                             in Inr (AList.update key (create_new_replication_vector new_mem_rep new_ebs_rep
                                  (local_rep key MEMORY s) (local_rep key DISK s)) requests, s)
                        else if kMemoryThreadCount M > local_rep key MEMORY s
                        then let s = touch_local_rep key DISK (touch_global_rep key DISK (touch_local_rep key MEMORY s))
                             in Inr (AList.update key (create_new_replication_vector current (global_rep key DISK s)
                                  (kMemoryThreadCount M) (local_rep key DISK s)) requests, s)
                        else Inr (requests, touch_local_rep key MEMORY s))))"

definition spare_key ::
    "monitor_conf \<Rightarrow> Key \<times> u32 \<Rightarrow> factor_requests \<times> monitor \<Rightarrow> (factor_requests \<times> monitor) res" where
  "spare_key M = (\<lambda>(key, _) (requests, s).
     rbind (is_metadata key) (\<lambda>metadata.
       if metadata then Inr (requests, s)
       else
         let current = global_rep key MEMORY s; s = touch_global_ring MEMORY (touch_global_rep key MEMORY s)
         in if unat current = length (hr_nodes (global_ring MEMORY s)) div unat kVirtualThreadNum
            then let new_mem_rep = current - 1;
                     new_ebs_rep = max (kMinimumReplicaNumber M - new_mem_rep) 0;
                     s = touch_global_rep key DISK (touch_local_rep key DISK (touch_local_rep key MEMORY s))
                 in Inr (AList.update key (create_new_replication_vector new_mem_rep new_ebs_rep
                      (local_rep key MEMORY s) (local_rep key DISK s)) requests, s)
            else Inr (requests, s)))"

definition slo_policy :: "monitor_conf \<Rightarrow> monitor \<Rightarrow> monitor res" where
  "slo_policy M s =
     (let ss = summary_stats s
      in if dless (Finite (real_word kSloWorst)) (avg_latency ss) \<and> new_memory_count s = 0
         then if kEnableElasticity M \<and> dless (Finite (15 / 100)) (min_memory_occupancy ss)
              then rbind (ceil_unsigned (case avg_latency ss of
                       Finite x \<Rightarrow> Finite ((x / real_word kSloWorst - 1) * real_word (memory_node_count s)) | d \<Rightarrow> d)) (\<lambda>node_to_add.
                     let late = grace_elapsed M s; s = mo_tick s
                     in Inr (if late then (add_node M ''memory'' node_to_add s)\<lparr>new_memory_count := node_to_add\<rparr> else s))
              else if kEnableSelectiveRep M
              then rbind (rfold (replicate_hot_key M) (key_access_summary s) ([], s))
                     (\<lambda>(requests, s). change_replication_factor M requests s)
              else Inr s
         else if kEnableElasticity M \<and> \<not> removing_memory_node s \<and> dless (min_memory_occupancy ss) (Finite (5 / 100))
           \<and> memory_node_count s > max (required_memory_node ss) kMinMemoryTierSize
         then let late = grace_elapsed M s; s = mo_tick s
              in if late
                 then rbind (rfold (spare_key M) (key_access_summary s) ([], s)) (\<lambda>(requests, s).
                      rbind (change_replication_factor M requests s) (\<lambda>s.
                        let node = server_thread (min_occupancy_memory_public_ip ss) (min_occupancy_memory_private_ip ss) 0
                        in Inr ((remove_node M node s)\<lparr>removing_memory_node := True\<rparr>)))
                 else Inr s
         else Inr s)"

section \<open>The loop\<close>

definition tier_node_count :: "Tier \<Rightarrow> monitor \<Rightarrow> u32" where
  "tier_node_count tier s = of_nat (length (hr_nodes (global_ring tier s)) div unat kVirtualThreadNum)"

definition clear_stats :: "monitor \<Rightarrow> monitor" where
  "clear_stats s = s\<lparr>key_access_frequency := [], key_access_summary := [], memory_storage := [], ebs_storage := [],
     memory_occupancy := [], ebs_occupancy := [], summary_stats := cleared_SummaryStats, user_latency := [],
     user_throughput := [], latency_miss_ratio_map := []\<rparr>"

definition init_new_key :: "monitor_conf \<Rightarrow> Key \<times> u32 \<Rightarrow> monitor \<Rightarrow> monitor res" where
  "init_new_key M = (\<lambda>(key, _) s.
     rbind (is_metadata key) (\<lambda>metadata.
       Inr (if \<not> metadata \<and> map_of (key_replication_map s) key = None
            then s\<lparr>key_replication_map := init_replication (mo_env M) (key_replication_map s) key\<rparr> else s)))"

definition monitoring_epoch :: "monitor_conf \<Rightarrow> monitor \<Rightarrow> monitor res" where
  "monitoring_epoch M s =
     (let s = s\<lparr>server_monitoring_epoch := server_monitoring_epoch s + 1\<rparr>;
          s = touch_global_ring MEMORY (s\<lparr>memory_node_count := tier_node_count MEMORY s\<rparr>);
          s = touch_global_ring DISK (s\<lparr>ebs_node_count := tier_node_count DISK s\<rparr>)
      in rbind (collect_internal_stats M (clear_stats s)) (\<lambda>s.
         rbind (compute_summary_stats M s) (\<lambda>s.
           let s = collect_external_stats s
           in rbind (rfold (init_new_key M) (key_access_summary s) s) (\<lambda>s.
              rbind (storage_policy M s) (\<lambda>s.
              rbind (movement_policy M s) (\<lambda>s.
              rbind (slo_policy M s) (\<lambda>s. Inr (mo_tick (s\<lparr>mo_report_start := mo_now M s\<rparr>)))))))))"

record monitor_polled =
  in_notify :: "string option"
  in_depart_done :: "string option"
  in_feedback :: "string option"

definition monitoring_round :: "monitor_conf \<Rightarrow> monitor_polled \<Rightarrow> monitor \<Rightarrow> monitor res" where
  "monitoring_round M p s =
     rbind (on_input (monitoring_membership_handler M) (in_notify p) s) (\<lambda>s.
     rbind (on_input (depart_done_handler M) (in_depart_done p) s) (\<lambda>s.
     rbind (on_input (\<lambda>m s. Inr (feedback_handler M m s)) (in_feedback p) s) (\<lambda>s.
       let report_end = mo_now M s; s = mo_tick s
       in if to_secs (report_end - mo_report_start s) \<ge> uint kMonitoringThreshold then monitoring_epoch M s else Inr s)))"

definition start_monitor :: "monitor_conf \<Rightarrow> monitor" where
  "start_monitor M =
     (let s = \<lparr>global_hash_rings = [], local_hash_rings = [], key_replication_map = [], seed = 0, rand_state = 0, outbox = [],
            memory_node_count = 0, ebs_node_count = 0, key_access_frequency = [], key_access_summary = [], key_sizes = [],
            memory_storage = [], ebs_storage = [], memory_occupancy = [], ebs_occupancy = [], memory_accesses = [],
            ebs_accesses = [], summary_stats = cleared_SummaryStats, user_latency = [], user_throughput = [],
            latency_miss_ratio_map = [], mo_routing_ips = [], departing_node_map = [], mo_report_start = mo_clock M 0,
            grace_start = mo_clock M 2, new_memory_count = 0, new_ebs_count = 0, removing_memory_node = False,
            removing_ebs_node = False, server_monitoring_epoch = 0, mo_rid = 0, mo_ticks = 3, mo_calls = 0\<rparr>
      in form_local_rings (mo_env M) (mt_ip (mo_mt M)) (mt_ip (mo_mt M)) s)"

end
