(* ===== verification/Anna_Elasticity.thy ===== *)
theory Anna_Elasticity
  imports Anna_Monitor
begin

text \<open>
  What the monitor achieves. The statistics of the servers arrive under the threads that sent them, and the
  summary is the mean, the standard deviation and the number of nodes needed. A change of factors is
  stored before it is announced, to all owners before and after the change. Promotions fit into
  memory. Other lemmas show where the policies fail: feedback is discarded, an acknowledged departure crashes the
  handler, an epoch does not complete without a disk tier, and factors wrap around.
\<close>

section \<open>Summaries are what they say\<close>

definition total_count :: "(Address, u32) omap \<Rightarrow> u32" where
  "total_count per_machine = sum_list (map snd per_machine)"

definition mean_of :: "real list \<Rightarrow> real" where
  "mean_of xs = sum_list xs / real (length xs)"

definition variance_of :: "real list \<Rightarrow> real" where
  "variance_of xs = (\<Sum>x\<leftarrow>xs. (x - mean_of xs)\<^sup>2) / real (length xs)"

definition positive_counts :: "(Key, (Address, u32) omap) omap \<Rightarrow> real list" where
  "positive_counts m = map real_word (filter (\<lambda>n. n > 0) (map (total_count \<circ> snd) m))"

lemma fold_counts: "fold (\<lambda>(_, n) c. c + n) per_machine (c :: 'a::len word) = c + sum_list (map snd per_machine)"
  by (induction per_machine arbitrary: c) (auto simp: algebra_simps)

lemma sum_deviations: "(\<Sum>x\<leftarrow>xs. (x - a)\<^sup>2) = (\<Sum>x\<leftarrow>xs. x\<^sup>2) - 2 * a * sum_list xs + real (length xs) * a\<^sup>2"
  by (induction xs) (auto simp: power2_eq_square algebra_simps)

text \<open>
  The running mean and the running sum of squared deviations are those of the values seen so far
  (Welford's method).
\<close>

lemma running_deviations:
  fixes xs :: "real list" and x :: real
  defines "n \<equiv> real (length xs)" and "m \<equiv> mean_of xs" and "m' \<equiv> mean_of (xs @ [x])"
  shows "m' = m + (x - m) / (n + 1)"
    and "(\<Sum>y\<leftarrow>xs @ [x]. (y - m')\<^sup>2) = (\<Sum>y\<leftarrow>xs. (y - m)\<^sup>2) + (x - m) * (x - m')"
proof -
  have n: "n + 1 \<noteq> 0" "n \<ge> 0"
    by (simp_all add: n_def)
  have total: "sum_list xs = n * m"
    by (cases xs) (simp_all add: m_def n_def mean_of_def)
  then have m': "m' * (n + 1) = n * m + x"
    using n by (simp add: m'_def mean_of_def n_def add.commute)
  show "m' = m + (x - m) / (n + 1)"
    using m' n by (simp add: field_simps)
  have d: "n * (m' - m) = x - m'"
    using m' by (simp add: algebra_simps)
  have "(\<Sum>y\<leftarrow>xs @ [x]. (y - m')\<^sup>2) = (\<Sum>y\<leftarrow>xs. (y - m)\<^sup>2) + (n * (m' - m)\<^sup>2 + (x - m')\<^sup>2)"
    unfolding sum_list_append map_append sum_deviations total n_def [symmetric]
    by (simp add: power2_eq_square algebra_simps)
  also have "n * (m' - m)\<^sup>2 = (x - m') * (m' - m)"
    unfolding d [symmetric] by (simp add: power2_eq_square)
  also have "(x - m') * (m' - m) + (x - m')\<^sup>2 = (x - m) * (x - m')"
    by (simp add: power2_eq_square algebra_simps)
  finally show "(\<Sum>y\<leftarrow>xs @ [x]. (y - m')\<^sup>2) = (\<Sum>y\<leftarrow>xs. (y - m)\<^sup>2) + (x - m) * (x - m')" .
qed

lemma key_access_step_eq:
  "key_access_step (key, counts) (summary, cnt, mean, ms) =
     (AList.update key (total_count counts) summary,
      if total_count counts > 0
      then (cnt + 1, mean + (real_word (total_count counts) - mean) / real_word (cnt + 1),
        ms + (real_word (total_count counts) - mean) *
          (real_word (total_count counts) - (mean + (real_word (total_count counts) - mean) / real_word (cnt + 1))))
      else (cnt, mean, ms))"
  by (cases "total_count counts > 0")
    (simp_all only: key_access_step_def prod.case Let_def fold_counts add_0_left total_count_def if_True if_False)

lemma positive_counts_snoc:
  "positive_counts (m @ [(key, counts)]) =
     positive_counts m @ (if total_count counts > 0 then [real_word (total_count counts)] else [])"
  by (simp add: positive_counts_def)

lemma real_word_Suc:
  assumes "Suc n < 2 ^ 32"
  shows "real_word (of_nat n + 1 :: u32) = real n + 1"
proof -
  have "unat (of_nat m :: u32) = m" if "m < 2 ^ 32" for m
    using that by (simp add: unat_of_nat)
  from this [OF assms] show ?thesis
    by (simp only: of_nat_Suc add.commute)
qed

lemma key_access_fold:
  assumes "length (positive_counts m) < 2 ^ 32"
  shows "fold key_access_step m (summary, 0, 0, 0) =
     (fold (\<lambda>(key, counts). AList.update key (total_count counts)) m summary,
      of_nat (length (positive_counts m)), mean_of (positive_counts m),
      \<Sum>x\<leftarrow>positive_counts m. (x - mean_of (positive_counts m))\<^sup>2)"
  using assms
proof (induction m rule: rev_induct)
  case Nil
  then show ?case
    by (simp add: positive_counts_def mean_of_def)
next
  case (snoc entry m)
  obtain key counts where entry: "entry = (key, counts)"
    by (cases entry)
  let ?xs = "positive_counts m" and ?x = "real_word (total_count counts)"
  have small: "length ?xs < 2 ^ 32"
    using snoc.prems by (simp add: entry positive_counts_snoc split: if_splits)
  note step = fold_append comp_apply fold_simps snoc.IH [OF small] entry key_access_step_eq positive_counts_snoc prod.case
  show ?case
  proof (cases "total_count counts > 0")
    case True
    have "Suc (length ?xs) < 2 ^ 32"
      using snoc.prems True by (simp add: entry positive_counts_snoc)
    note n = real_word_Suc [OF this]
    show ?thesis
      unfolding step if_P [OF True] n running_deviations(1) [of ?xs ?x, symmetric]
      by (simp only: running_deviations(2)) simp
  next
    case False
    then show ?thesis
      unfolding step if_not_P [OF False] by simp
  qed
qed

lemma map_of_totals:
  "distinct (map fst m) \<Longrightarrow> map_of (fold (\<lambda>(key, counts). AList.update key (total_count counts)) m summary) key =
     (case map_of m key of None \<Rightarrow> map_of summary key | Some counts \<Rightarrow> Some (total_count counts))"
  by (induction m arbitrary: summary) (auto simp: update_conv' map_of_eq_None_iff [symmetric] split: option.splits)

definition same_loads :: "SummaryStats \<Rightarrow> SummaryStats \<Rightarrow> bool" where
  "same_loads a b \<longleftrightarrow> key_access_mean b = key_access_mean a \<and> key_access_std b = key_access_std a
     \<and> total_memory_consumption b = total_memory_consumption a \<and> total_ebs_consumption b = total_ebs_consumption a
     \<and> required_memory_node b = required_memory_node a \<and> required_ebs_node b = required_ebs_node a
     \<and> total_memory_access b = total_memory_access a \<and> total_ebs_access b = total_ebs_access a
     \<and> avg_latency b = avg_latency a"

lemma same_loads_refl [simp]: "same_loads a a"
  by (simp add: same_loads_def)

lemma memory_occupancy_step_loads:
  "rpost (\<lambda>(d, n, ss'). same_loads ss ss') (memory_occupancy_step x (d0, n0, ss))"
  by (cases x) (auto simp: memory_occupancy_step_def Let_def rpost_def same_loads_def rbind_def split: sum.splits)

lemma same_loads_trans: "same_loads a b \<Longrightarrow> same_loads b c \<Longrightarrow> same_loads a c"
  by (simp add: same_loads_def)

lemma memory_occupancy_loads:
  "rfold memory_occupancy_step xs (d0, n0, ss) = Inr (d, n, ss') \<Longrightarrow> same_loads ss ss'"
proof (induction xs arbitrary: d0 n0 ss)
  case (Cons x xs)
  then obtain d1 n1 ss1 where "memory_occupancy_step x (d0, n0, ss) = Inr (d1, n1, ss1)"
      "rfold memory_occupancy_step xs (d1, n1, ss1) = Inr (d, n, ss')"
    by (auto simp: res_simps)
  then show ?case
    using Cons.IH memory_occupancy_step_loads [of ss x d0 n0] same_loads_trans by (fastforce simp: rpost_def)
qed simp

lemma ebs_occupancy_loads: "same_loads ss (snd (snd (fold ebs_occupancy_step xs (d0, n0, ss))))"
proof (induction xs arbitrary: d0 n0 ss)
  case (Cons x xs)
  obtain d1 n1 ss1 where step: "ebs_occupancy_step x (d0, n0, ss) = (d1, n1, ss1)"
    by (metis prod_cases3)
  then have "same_loads ss ss1"
    by (cases x) (auto simp: ebs_occupancy_step_def Let_def same_loads_def split: if_splits)
  then show ?case
    using Cons [of ss1 d1 n1] same_loads_trans by (auto simp: step)
qed simp

lemma summarise_occupancy_loads:
  assumes "summarise_occupancy s ss = Inr ss'"
  shows "same_loads ss ss'"
proof -
  obtain d n ss1 where ss1: "rfold memory_occupancy_step (memory_occupancy s) (Finite 0, 0, ss) = Inr (d, n, ss1)"
    using assms by (auto simp: summarise_occupancy_def res_simps)
  obtain d2 n2 ss2 where
      ss2: "fold ebs_occupancy_step (ebs_occupancy s) (Finite 0, 0, ss1\<lparr>avg_memory_occupancy := average d n\<rparr>) = (d2, n2, ss2)"
    by (metis prod_cases3)
  have ss': "ss' = ss2\<lparr>avg_ebs_occupancy := average d2 n2\<rparr>"
    using assms by (simp add: summarise_occupancy_def ss1 ss2)
  have "same_loads (ss1\<lparr>avg_memory_occupancy := average d n\<rparr>) ss2"
    using ebs_occupancy_loads [of "ss1\<lparr>avg_memory_occupancy := average d n\<rparr>" "ebs_occupancy s" "Finite 0" 0] ss2 by simp
  with memory_occupancy_loads [OF ss1] show ?thesis
    by (simp add: same_loads_def ss')
qed

lemma storage_fold_total:
  "fst (fold (storage_step c) storage (n, p, k)) = n + (\<Sum>(_, threads)\<leftarrow>storage. sum_list (map snd threads))"
proof (induction storage arbitrary: n p k)
  case (Cons x xs)
  obtain ip threads where x: "x = (ip, threads)"
    by (cases x)
  have "storage_step c (ip, threads) (n, p, k) = (n + sum_list (map snd threads),
      snd (storage_step c (ip, threads) (n, p, k)))"
    by (simp add: storage_step_def Let_def fold_counts)
  then obtain p' k' where "storage_step c (ip, threads) (n, p, k) = (n + sum_list (map snd threads), p', k')"
    by (metis prod.collapse)
  then show ?case
    by (simp add: x Cons add.assoc)
qed simp

lemma ceil_unsigned_Inr:
  "ceil_unsigned (ddiv x y) = Inr n \<longleftrightarrow> y \<noteq> 0 \<and> 0 \<le> \<lceil>x / y\<rceil> \<and> \<lceil>x / y\<rceil> < 2 ^ 32 \<and> n = word_of_int \<lceil>x / y\<rceil>"
  by (auto simp: ceil_unsigned_def ddiv_def)

text \<open>The number of nodes is the least that keeps the average consumption within the bound.\<close>

definition enough_nodes :: "real \<Rightarrow> real \<Rightarrow> nat \<Rightarrow> bool" where
  "enough_nodes consumption node_share n \<longleftrightarrow>
     consumption \<le> real n * node_share \<and> (\<forall>k < n. real k * node_share < consumption)"

lemma ceil_nodes:
  assumes "ceil_unsigned (ddiv x y) = Inr n" "0 < y" "0 \<le> x"
  shows "enough_nodes x y (unat n)"
proof -
  have n: "0 \<le> \<lceil>x / y\<rceil>" "int (unat n) = \<lceil>x / y\<rceil>"
    using assms(1) by (auto simp: ceil_unsigned_Inr uint_word_of_int)
  have "x / y \<le> real (unat n)"
    using n(2) le_of_int_ceiling [of "x / y"] by (metis of_int_of_nat_eq)
  moreover have "real k < x / y" if "k < unat n" for k
    using that n(2) by (metis less_ceiling_iff of_int_of_nat_eq of_nat_less_iff)
  ultimately show ?thesis
    using assms(2) by (simp add: enough_nodes_def field_simps)
qed

lemma dsqrt_variance:
  "dsqrt (ddiv (\<Sum>x\<leftarrow>xs. (x - mean_of xs)\<^sup>2) (real (length xs))) =
     (if xs = [] then NaN else Finite (sqrt (variance_of xs)))"
proof (cases "xs = []")
  case False
  have "(\<Sum>x\<leftarrow>xs. (x - mean_of xs)\<^sup>2) / real (length xs) \<ge> 0"
    by (intro divide_nonneg_nonneg sum_list_nonneg) auto
  with False show ?thesis
    by (simp add: variance_of_def ddiv_def)
qed (simp add: ddiv_def)

lemma summarise_storage_Inr:
  assumes "summarise_storage M s ss = Inr ss'"
  shows "key_access_mean ss' = key_access_mean ss \<and> key_access_std ss' = key_access_std ss
    \<and> total_memory_consumption ss' = fst (fold (storage_step (tier_capacity M MEMORY)) (memory_storage s)
        (total_memory_consumption ss, max_memory_consumption_percentage ss, 0))
    \<and> ceil_unsigned (ddiv (real_word (total_memory_consumption ss')) (kMaxMemoryNodeConsumption * tier_capacity M MEMORY)) =
        Inr (required_memory_node ss')
    \<and> ceil_unsigned (ddiv (real_word (total_ebs_consumption ss')) (kMaxEbsNodeConsumption * tier_capacity M DISK)) =
        Inr (required_ebs_node ss')"
  using assms by (auto simp: summarise_storage_def res_simps Let_def split: prod.splits if_splits)


text \<open>
  C33. Feedback from users never influences the monitor: an epoch clears the latencies, throughputs and
  miss ratios that the feedback handler has collected before it looks at them, so its outcome is the same
  whatever users reported.
\<close>

theorem feedback_has_no_effect:
  "monitoring_epoch M (s\<lparr>user_latency := latencies, user_throughput := throughputs, latency_miss_ratio_map := ratios\<rparr>) =
     monitoring_epoch M s"
  by (simp add: monitoring_epoch_def Let_def clear_stats_def touch_global_ring_def tier_node_count_def global_ring_def)

lemma ceil_zero_divisor: "ceil_unsigned (ddiv x 0) = Inl BadConversion"
  by (simp add: ceil_unsigned_def ddiv_def)

lemma ceil_unsigned_fault: "ceil_unsigned d = Inl e \<Longrightarrow> e = BadConversion"
  by (auto simp: ceil_unsigned_def split: double.splits if_splits)

lemma summary_without_capacity:
  assumes "tier_capacity M DISK = 0"
  shows "compute_summary_stats M s = Inl BadConversion"
proof -
  have "summarise_storage M s ss = Inl BadConversion" for ss
    using ceil_unsigned_fault
    by (auto simp: summarise_storage_def assms ceil_zero_divisor Let_def rbind_def split: prod.splits sum.splits)
  then show ?thesis
    by (simp add: compute_summary_stats_def Let_def split: prod.splits)
qed


text \<open>
  When the memory tier is filled beyond the allowed share, the free storage that the movement policy computes
  is negative, and its conversion to an unsigned integer is undefined.
\<close>

lemma overfull_memory_undefined:
  assumes "kEnableTiering M"
    and "kMaxMemoryNodeConsumption * tier_capacity M MEMORY * real_word (memory_node_count s) + 1
      \<le> real_word (total_memory_consumption (summary_stats s))"
  shows "movement_policy M s = Inl BadConversion"
  using assms by (simp add: movement_policy_def promote_keys_def free_storage_def trunc_word_def Let_def)

text \<open>
  Nothing is added or removed during the grace period after the last change of membership.
\<close>

lemma storage_policy_waits:
  assumes "\<And>n. to_secs (mo_clock M n - grace_start s) \<le> uint kGracePeriod" "storage_policy M s = Inr s'"
  shows "outbox s' = outbox s \<and> new_memory_count s' = new_memory_count s \<and> new_ebs_count s' = new_ebs_count s
    \<and> removing_ebs_node s' = removing_ebs_node s \<and> departing_node_map s' = departing_node_map s"
proof -
  have "\<not> grace_elapsed M t" if "grace_start t = grace_start s" for t
    using assms(1) that by (simp add: grace_elapsed_def mo_now_def not_less)
  then show ?thesis
    using assms(2) by (auto simp: storage_policy_def remove_ebs_node_def add_ebs_nodes_def add_memory_nodes_def mo_tick_def Let_def
        split: if_splits)
qed

section \<open>What servers report arrives\<close>

definition thread_figures :: "Tier \<Rightarrow> Address \<Rightarrow> u32 \<Rightarrow> monitor \<Rightarrow> u64 option \<times> (real \<times> u32) option \<times> u32 option" where
  "thread_figures tier ip_pair tid m =
     (if tier = MEMORY
      then (map_of (om_at [] (memory_storage m) ip_pair) tid, map_of (om_at [] (memory_occupancy m) ip_pair) tid,
        map_of (om_at [] (memory_accesses m) ip_pair) tid)
      else (map_of (om_at [] (ebs_storage m) ip_pair) tid, map_of (om_at [] (ebs_occupancy m) ip_pair) tid,
        map_of (om_at [] (ebs_accesses m) ip_pair) tid))"

lemma note_stats_figures:
  "thread_figures tier' ip' tid' (note_stats tier ip tid stat m) =
     (if ip' = ip \<and> tid' = tid \<and> (tier' = MEMORY \<longleftrightarrow> tier = MEMORY)
      then (Some (sts_storage_consumption stat), Some (sts_occupancy stat, sts_epoch stat), Some (sts_access_count stat))
      else thread_figures tier' ip' tid' m)"
  by (simp add: thread_figures_def note_stats_def update_conv')

lemma statistics_tokens:
  assumes "CHR ''|'' \<notin> set (st_public_ip st)" "CHR ''|'' \<notin> set (st_private_ip st)"
  shows "split_metadata_key (get_metadata_key st tier n server_stats) =
    [''ANNA_METADATA'', ''stats'', st_public_ip st, st_private_ip st, to_string n, Tier_Name tier]"
proof -
  have 1: "CHR ''|'' \<notin> set ''ANNA_METADATA''" and 2: "CHR ''|'' \<notin> set ''stats''"
    by simp_all
  have n: "CHR ''|'' \<notin> set (to_string n)"
    by (rule to_string_no_char) (simp add: is_digit_def)
  have tier: "CHR ''|'' \<notin> set (Tier_Name tier)" "Tier_Name tier \<noteq> []"
    by (cases tier; simp)+
  have key: "get_metadata_key st tier n server_stats =
      ''ANNA_METADATA'' @ CHR ''|'' # ''stats'' @ CHR ''|'' # st_public_ip st @ CHR ''|'' #
      st_private_ip st @ CHR ''|'' # to_string n @ CHR ''|'' # Tier_Name tier"
    by (simp add: get_metadata_key_def metadata_key_defs)
  show ?thesis
    unfolding key split_metadata_key_def kMetadataDelimiterChar_def
    by (simp only: split_item [OF 1] split_item [OF 2] split_item [OF assms(1)]
        split_item [OF assms(2)] split_item [OF n] split_last [OF tier])
qed

lemma stoi_to_string: "unat n < 2 ^ 31 \<Longrightarrow> stoi (to_string n) = Inr (int (unat n))"
  by (simp add: to_string_def stoi_nat_to_string)

lemma collect_stats_tuple:
  assumes "kt_error answer = NO_ERROR" "kt_key answer = get_metadata_key st tier tid server_stats"
    and "CHR ''|'' \<notin> set (st_public_ip st)" "CHR ''|'' \<notin> set (st_private_ip st)" "unat tid < 2 ^ 31"
    and "lwwv_value (snd (parse_LWWValue (env_codec (mo_env M)) (kt_payload answer))) = value"
  shows "collect_tuple M answer m = Inr (note_stats tier (st_public_ip st @ ''/'' @ st_private_ip st) tid
    (snd (parse_ServerThreadStatistics (env_codec (mo_env M)) value)) m)"
  by (simp add: collect_tuple_def assms(1,2,6) statistics_tokens [OF assms(3,4)] stoi_to_string [OF assms(5)]
      vec_at_def tier_read_def)

lemma report_message:
  assumes "send_report W ts type value s = Inr s'" "outbox s' = outbox s @ [(address, msg)]"
  shows "msg = ser_KeyRequest (env_codec (w_env W)) (prepare_put_tuple (empty_KeyRequest\<lparr>rq_type := PUT\<rparr>)
      (get_metadata_key (wt W) (kSelfTier (w_env W)) (st_tid (wt W)) type) LWW
      (serialize_timestamped (env_codec (w_env W)) ts value))"
  using assms by (auto simp: send_report_def Let_def res_simps send_string_def touch_local_ring_def touch_global_ring_def
      split: prod.splits if_splits)

text \<open>
  C31. What a server thread reports about itself is what the monitor records: when the monitor reads back the value that the
  thread stored under its statistics key, it files storage, occupancy and accesses under the addresses
  and the number of that very thread and leaves the figures of all other threads alone.
\<close>

theorem reported_statistics_collected:
  assumes "send_report W ts server_stats (ser_ServerThreadStatistics C stat) s = Inr s'"
    and "outbox s' = outbox s @ [(address, msg)]"
    and "C = env_codec (w_env W)" "env_codec (mo_env M) = C"
    and "\<And>q. snd (parse_KeyRequest C (ser_KeyRequest C q)) = q"
    and "\<And>v. snd (parse_LWWValue C (ser_LWWValue C v)) = v"
    and "snd (parse_ServerThreadStatistics C (ser_ServerThreadStatistics C stat)) = stat"
    and "CHR ''|'' \<notin> set (st_public_ip (wt W))" "CHR ''|'' \<notin> set (st_private_ip (wt W))" "unat (st_tid (wt W)) < 2 ^ 31"
  shows "\<exists>tuple. rq_tuples (snd (parse_KeyRequest C msg)) = [tuple] \<and>
    (\<forall>m answer. kt_key answer = kt_key tuple \<and> kt_payload answer = kt_payload tuple \<and> kt_error answer = NO_ERROR \<longrightarrow>
      (\<exists>m'. collect_tuple M answer m = Inr m' \<and>
        (\<forall>tier ip tid. thread_figures tier ip tid m' =
          (if ip = st_public_ip (wt W) @ ''/'' @ st_private_ip (wt W) \<and> tid = st_tid (wt W)
              \<and> (tier = MEMORY \<longleftrightarrow> kSelfTier (w_env W) = MEMORY)
           then (Some (sts_storage_consumption stat), Some (sts_occupancy stat, sts_epoch stat), Some (sts_access_count stat))
           else thread_figures tier ip tid m))))"
proof -
  let ?report = "ser_ServerThreadStatistics C stat"
  have payload: "lwwv_value (snd (parse_LWWValue C (serialize_timestamped C ts ?report))) = ?report"
    by (simp add: serialize_timestamped_def assms(6))
  have "rq_tuples (snd (parse_KeyRequest C msg)) = [empty_KeyTuple\<lparr>
      kt_key := get_metadata_key (wt W) (kSelfTier (w_env W)) (st_tid (wt W)) server_stats, kt_lattice_type := LWW,
      kt_payload := serialize_timestamped C ts ?report\<rparr>]"
    using report_message [OF assms(1,2)] by (simp add: assms(3)[symmetric] assms(5) prepare_put_tuple_def empty_KeyRequest_def)
  then show ?thesis
    using collect_stats_tuple [OF _ _ assms(8-10), where M = M] payload
    by (auto simp: assms(4,7) note_stats_figures)
qed

section \<open>Departures are not acknowledged\<close>

lemma stoi_tier_name: "stoi (Tier_Name tier) = Inl InvalidArgument" "stoi ''TIER'' = Inl InvalidArgument"
  by (cases tier) (simp_all add: stoi_def is_space_def is_digit_def)

text \<open>
  C28. The acknowledgement of a departure crashes the monitor: the last message of a departing thread names its tier in
  words, and the monitor's handler, which expects a number there, ends in an exception of the string
  conversion in every state.
\<close>

theorem departure_crashes_monitor:
  assumes "self_depart_handler W serialized s = Inr s'" "kSelfTier (w_env W) \<noteq> TIER_UNSPECIFIED"
    and "CHR ''_'' \<notin> set (public_ip W)" "CHR ''_'' \<notin> set (private_ip W)"
  shows "\<exists>sent m. outbox s' = sent @ [(serialized, m)] \<and> (\<forall>M t. depart_done_handler M m t = Inl InvalidArgument)"
proof -
  let ?name = "Tier_Name (kSelfTier (w_env W))"
  have name: "CHR ''_'' \<notin> set ?name" "?name \<noteq> []"
    using assms(2) by (cases "kSelfTier (w_env W)"; simp)+
  obtain s1 where "s' = send_string (public_ip W @ ''_'' @ private_ip W @ ''_'' @ ?name) serialized s1"
    using assms(1) by (auto simp: self_depart_handler_def Let_def res_simps)
  then have "outbox s' = outbox s1 @ [(serialized, public_ip W @ ''_'' @ private_ip W @ ''_'' @ ?name)]"
    by (simp add: send_string_def)
  moreover have "split (public_ip W @ ''_'' @ private_ip W @ ''_'' @ ?name) CHR ''_'' = [public_ip W, private_ip W, ?name]"
    using split_item [OF assms(3)] split_item [OF assms(4)] split_last [OF name] by simp
  ultimately show ?thesis
    by (auto simp: depart_done_handler_def vec_at_def stoi_tier_name)
qed

section \<open>Replication factors are stored and announced\<close>

text \<open>The keys whose new factors the n-th synchronous request failed to store.\<close>

definition rejected :: "monitor_conf \<Rightarrow> KeyRequest \<Rightarrow> nat \<Rightarrow> Key set" where
  "rejected M request n =
     (let C = env_codec (mo_env M)
      in case snd (make_request (ser_KeyRequest C) rq_request_id rs_response_id empty_KeyResponse request
             (map (map_option (\<lambda>m. snd (parse_KeyResponse C m))) (mo_recv M n))) of
           None \<Rightarrow> {}
         | Some (succeed, res) \<Rightarrow> (\<lambda>tuple. get_key_from_metadata (kt_key tuple)) `
             set (if \<not> succeed then rq_tuples request else filter (\<lambda>tuple. kt_error tuple = WRONG_THREAD) (rs_tuples res)))"

definition settled :: "KeyReplication \<Rightarrow> KeyReplication \<Rightarrow> KeyReplication" where
  "settled new_rep current = (if KeyReplication_eq new_rep current then current else new_rep)"

definition same_net :: "monitor \<Rightarrow> monitor \<Rightarrow> bool" where
  "same_net s s' \<longleftrightarrow> outbox s' = outbox s \<and> mo_calls s' = mo_calls s \<and> mo_routing_ips s' = mo_routing_ips s
     \<and> (\<forall>tier. global_ring tier s' = global_ring tier s \<and> local_ring tier s' = local_ring tier s)"

lemma same_net_refl [simp]: "same_net s s"
  by (simp add: same_net_def)

lemma same_net_trans: "same_net a b \<Longrightarrow> same_net b c \<Longrightarrow> same_net a c"
  by (simp add: same_net_def)

lemma same_rand_state: "\<exists>r. ctx = ctx\<lparr>rand_state := r\<rparr>" for ctx :: "'a ring_ctx_scheme"
  by (rule exI [of _ "rand_state ctx"]) simp

lemma prepare_request_ctx:
  assumes "prepare_metadata_request E key g l m address i type ctx = Inr (a, m', j, ctx')"
  shows "\<exists>r. ctx' = ctx\<lparr>rand_state := r\<rparr>"
  using assms unfolding prepare_metadata_request_def
  by (cases "env_rand E (rand_state ctx)") (auto simp: Let_def res_simps same_rand_state split: option.splits if_splits)

lemma prepare_put_ctx:
  assumes "prepare_metadata_put_request E now key value g l m address i ctx = Inr (m', j, ctx')"
  shows "\<exists>r. ctx' = ctx\<lparr>rand_state := r\<rparr>"
  using assms unfolding prepare_metadata_put_request_def
  by (auto simp: res_simps dest!: prepare_request_ctx split: if_splits)

lemma stage_request_step:
  assumes "stage_request M (key, new_rep) (orig, puts, s) = Inr (orig', puts', s')"
  shows "orig' = AList.update key (replication_of key s) orig"
    and "replication_of k s' = (if k = key then settled new_rep (replication_of key s) else replication_of k s)"
    and "same_net s s'"
proof -
  define t where "t = s\<lparr>key_replication_map := om_touch empty_KeyReplication key (key_replication_map s)\<rparr>"
  define u where "u = mo_tick (t\<lparr>key_replication_map := AList.update key new_rep (key_replication_map t)\<rparr>)"
  have t: "replication_of k t = replication_of k s" for k
    by (simp add: t_def replication_of_def)
  have new: "\<lparr>global_replication = global_replication new_rep, local_replication = local_replication new_rep\<rparr> = new_rep"
    by simp
  consider "KeyReplication_eq new_rep (replication_of key s)" "orig' = AList.update key (replication_of key s) orig" "s' = t"
    | r j where "\<not> KeyReplication_eq new_rep (replication_of key s)" "orig' = AList.update key (replication_of key s) orig"
      "s' = (touch_local_ring MEMORY (touch_global_ring MEMORY u))\<lparr>rand_state := r, mo_rid := j\<rparr>"
    using assms unfolding stage_request_def Let_def prod.case new t_def [symmetric]
    by (auto simp: res_simps u_def dest!: prepare_put_ctx split: if_splits)
  note cases = this
  show "orig' = AList.update key (replication_of key s) orig"
    using cases by cases
  show "replication_of k s' = (if k = key then settled new_rep (replication_of key s) else replication_of k s)"
    using cases t by cases (simp_all add: settled_def u_def mo_tick_def replication_of_def touch_local_ring_def
        touch_global_ring_def om_at_def update_conv')
  show "same_net s s'"
    using cases by cases (simp_all add: same_net_def t_def u_def mo_tick_def touch_local_ring_def
        touch_global_ring_def global_ring_def local_ring_def)
qed

definition put_tuples :: "(Address, KeyRequest) omap \<Rightarrow> KeyTuple set" where
  "put_tuples puts = {t. \<exists>a. t \<in> set (rq_tuples (om_at empty_KeyRequest puts a))}"

definition stores_factor :: "codec \<Rightarrow> Key \<Rightarrow> KeyReplication \<Rightarrow> KeyTuple \<Rightarrow> bool" where
  "stores_factor C key rep t \<longleftrightarrow> kt_key t = get_replication_key key replication
     \<and> (\<exists>ts. kt_payload t = serialize_timestamped C ts (ser_ReplicationFactor C (replication_factor key rep)))"

lemma put_tuples_mem: "t \<in> put_tuples puts \<Longrightarrow> \<exists>(a, q) \<in> set puts. t \<in> set (rq_tuples q)"
proof -
  assume "t \<in> put_tuples puts"
  then obtain a where a: "t \<in> set (rq_tuples (om_at empty_KeyRequest puts a))"
    by (auto simp: put_tuples_def)
  then obtain q where "map_of puts a = Some q"
    by (auto simp: om_at_def empty_KeyRequest_def split: option.splits)
  with a show ?thesis
    by (intro bexI [of _ "(a, q)"]) (auto simp: om_at_Some dest: map_of_SomeD)
qed

lemma put_tuples_grow:
  assumes "\<And>b. set (rq_tuples (om_at empty_KeyRequest m b)) \<subseteq> set (rq_tuples (om_at empty_KeyRequest m' b))"
  shows "put_tuples m \<subseteq> put_tuples m'"
  using assms by (auto simp: put_tuples_def)

lemma connect_address_nonempty: "key_request_connect_address t \<noteq> []"
  by (simp add: key_request_connect_address_def tcp_base_def)

lemma prepare_request_tuples:
  assumes "prepare_metadata_request E key g l m address i type ctx = Inr (a, m', j, ctx')"
  shows "rq_tuples (om_at empty_KeyRequest m' b) = rq_tuples (om_at empty_KeyRequest m b)"
    and "a = [] \<Longrightarrow> get_responsible_threads_metadata E key g l = Inr []"
proof -
  obtain n r where rand: "env_rand E (rand_state ctx) = (n, r)"
    by fastforce
  show "rq_tuples (om_at empty_KeyRequest m' b) = rq_tuples (om_at empty_KeyRequest m b)"
    using assms unfolding prepare_metadata_request_def rand
    by (auto simp: Let_def res_simps empty_KeyRequest_def om_at_def update_conv' split: option.splits if_splits)
  show "get_responsible_threads_metadata E key g l = Inr []" if "a = []"
    using assms that connect_address_nonempty unfolding prepare_metadata_request_def rand
    by (auto simp: Let_def res_simps split: option.splits if_splits)
qed

lemma prepare_put_tuples:
  assumes "prepare_metadata_put_request E now key value g l m address i ctx = Inr (m', j, ctx')"
  shows "put_tuples m \<subseteq> put_tuples m'"
    and "get_responsible_threads_metadata E key g l = Inr [] \<or>
      (\<exists>t ts. t \<in> put_tuples m' \<and> kt_key t = key \<and> kt_payload t = serialize_timestamped (env_codec E) ts value)"
proof -
  obtain a m1 where pre: "prepare_metadata_request E key g l m address i PUT ctx = Inr (a, m1, j, ctx')"
    and m': "a = [] \<and> m' = m1 \<or> a \<noteq> [] \<and> (\<exists>ts. m' = om_modify empty_KeyRequest a
        (\<lambda>r. prepare_put_tuple r key LWW (serialize_timestamped (env_codec E) ts value)) m1)"
    using assms unfolding prepare_metadata_put_request_def by (fastforce simp: res_simps split: if_splits)
  note req = prepare_request_tuples [OF pre]
  show "put_tuples m \<subseteq> put_tuples m'"
    using m' req(1) by (intro put_tuples_grow) (auto simp: prepare_put_tuple_def split: if_splits)
  show "get_responsible_threads_metadata E key g l = Inr [] \<or>
      (\<exists>t ts. t \<in> put_tuples m' \<and> kt_key t = key \<and> kt_payload t = serialize_timestamped (env_codec E) ts value)"
  proof (cases "a = []")
    case False
    with m' obtain ts where m': "m' = om_modify empty_KeyRequest a
        (\<lambda>r. prepare_put_tuple r key LWW (serialize_timestamped (env_codec E) ts value)) m1"
      by auto
    have "empty_KeyTuple\<lparr>kt_key := key, kt_lattice_type := LWW, kt_payload := serialize_timestamped (env_codec E) ts value\<rparr>
        \<in> put_tuples m'"
      unfolding put_tuples_def m' by (auto simp: prepare_put_tuple_def intro!: exI [of _ a])
    then show ?thesis
      by (intro disjI2 exI [of _ "empty_KeyTuple\<lparr>kt_key := key, kt_lattice_type := LWW,
          kt_payload := serialize_timestamped (env_codec E) ts value\<rparr>"] exI [of _ ts]) simp
  qed (use req(2) in simp)
qed

lemma stage_request_puts:
  assumes "stage_request M (key, new_rep) (orig, puts, s) = Inr (orig', puts', s')"
  shows "put_tuples puts \<subseteq> put_tuples puts'"
    and "\<not> KeyReplication_eq new_rep (replication_of key s) \<Longrightarrow>
      get_responsible_threads_metadata (mo_env M) (get_replication_key key replication) (global_ring MEMORY s) (local_ring MEMORY s)
        = Inr [] \<or> (\<exists>t \<in> put_tuples puts'. stores_factor (env_codec (mo_env M)) key new_rep t)"
proof -
  consider "KeyReplication_eq new_rep (replication_of key s)" "puts' = puts"
    | now j and ctx :: monitor and ctx' where
      "prepare_metadata_put_request (mo_env M) now (get_replication_key key replication)
         (ser_ReplicationFactor (env_codec (mo_env M)) (replication_factor key new_rep))
         (global_ring MEMORY s) (local_ring MEMORY s) puts (mt_response_connect_address (mo_mt M)) (mo_rid s) ctx =
        Inr (puts', j, ctx')"
    using assms unfolding stage_request_def Let_def
    by (auto simp: res_simps mo_tick_def global_ring_def local_ring_def split: if_splits)
  note cases = this
  show "put_tuples puts \<subseteq> put_tuples puts'"
    using cases by cases (simp, rule prepare_put_tuples(1))
  show "get_responsible_threads_metadata (mo_env M) (get_replication_key key replication) (global_ring MEMORY s)
      (local_ring MEMORY s) = Inr [] \<or> (\<exists>t \<in> put_tuples puts'. stores_factor (env_codec (mo_env M)) key new_rep t)"
    if "\<not> KeyReplication_eq new_rep (replication_of key s)"
    using cases
  proof cases
    case 2
    from prepare_put_tuples(2) [OF this] show ?thesis
      by (auto simp: stores_factor_def)
  qed (use that in simp)
qed

lemma stage_loop:
  assumes "rfold (stage_request M) requests (orig, puts, s) = Inr (orig', puts', s')" "distinct (map fst requests)"
  shows "map_of orig' key = (if key \<in> fst ` set requests then Some (replication_of key s) else map_of orig key)
    \<and> replication_of key s' = (case map_of requests key of None \<Rightarrow> replication_of key s
         | Some new_rep \<Rightarrow> settled new_rep (replication_of key s))
    \<and> same_net s s' \<and> put_tuples puts \<subseteq> put_tuples puts'"
  using assms
proof (induction requests arbitrary: orig puts s)
  case (Cons r requests)
  obtain k new_rep where r: "r = (k, new_rep)"
    by (cases r)
  obtain orig1 puts1 s1 where step: "stage_request M (k, new_rep) (orig, puts, s) = Inr (orig1, puts1, s1)"
    and rest: "rfold (stage_request M) requests (orig1, puts1, s1) = Inr (orig', puts', s')"
    using Cons.prems(1) by (auto simp: r res_simps)
  note one = stage_request_step [OF step] stage_request_puts(1) [OF step]
  have IH: "map_of orig' key = (if key \<in> fst ` set requests then Some (replication_of key s1) else map_of orig1 key)
    \<and> replication_of key s' = (case map_of requests key of None \<Rightarrow> replication_of key s1
         | Some new_rep \<Rightarrow> settled new_rep (replication_of key s1))
    \<and> same_net s1 s' \<and> put_tuples puts1 \<subseteq> put_tuples puts'"
    using Cons.prems(2) by (intro Cons.IH rest) (simp add: r)
  moreover have "k \<notin> fst ` set requests" "map_of requests k = None"
    using Cons.prems(2) by (auto simp: r map_of_eq_None_iff)
  ultimately show ?case
    using same_net_trans [OF one(3)] one(1) one(2) [of key] one(4)
    by (cases "key = k") (auto simp: r update_conv' split: option.splits)
qed simp

lemma stage_loop_puts:
  assumes "rfold (stage_request M) requests (orig, puts, s) = Inr (orig', puts', s')" "distinct (map fst requests)"
    and "(key, new_rep) \<in> set requests" "\<not> KeyReplication_eq new_rep (replication_of key s)"
  shows "get_responsible_threads_metadata (mo_env M) (get_replication_key key replication) (global_ring MEMORY s)
      (local_ring MEMORY s) = Inr [] \<or> (\<exists>t \<in> put_tuples puts'. stores_factor (env_codec (mo_env M)) key new_rep t)"
proof -
  from assms(3) obtain before after where split: "requests = before @ (key, new_rep) # after"
    by (meson split_list)
  obtain orig1 puts1 s1 orig2 puts2 s2 where
      before: "rfold (stage_request M) before (orig, puts, s) = Inr (orig1, puts1, s1)"
    and step: "stage_request M (key, new_rep) (orig1, puts1, s1) = Inr (orig2, puts2, s2)"
    and after: "rfold (stage_request M) after (orig2, puts2, s2) = Inr (orig', puts', s')"
    using assms(1) unfolding split by (auto simp: rfold_append res_simps)
  have new: "map_of before key = None"
    using assms(2) unfolding split by (auto simp: map_of_eq_None_iff)
  have b: "replication_of key s1 = replication_of key s" "same_net s s1"
    using stage_loop [OF before, of key] assms(2) new unfolding split by auto
  have "put_tuples puts2 \<subseteq> put_tuples puts'"
    using stage_loop [OF after, of key] assms(2) unfolding split by auto
  with stage_request_puts(2) [OF step] assms(4) b show ?thesis
    by (auto simp: same_net_def)
qed

lemma store_loop:
  assumes "rfold (store_factors M) puts (failed0, s) = Inr (failed, s')"
  shows "s' = s\<lparr>outbox := outbox s @ map (\<lambda>(a, q). (a, ser_KeyRequest (env_codec (mo_env M)) q)) puts,
      mo_calls := mo_calls s + length puts\<rparr>
    \<and> set failed = set failed0 \<union> (\<Union>i<length puts. rejected M (snd (puts ! i)) (mo_calls s + i))"
  using assms
proof (induction puts arbitrary: failed0 s)
  case (Cons put puts)
  obtain a q where put: "put = (a, q)"
    by (cases put)
  obtain failed1 s1 where step: "store_factors M (a, q) (failed0, s) = Inr (failed1, s1)"
    and rest: "rfold (store_factors M) puts (failed1, s1) = Inr (failed, s')"
    using Cons.prems by (auto simp: put res_simps)
  have inserts: "set (fold (\<lambda>tuple. List.insert (f tuple)) ts acc) = set acc \<union> f ` set ts" for f :: "KeyTuple \<Rightarrow> Key" and ts acc
    by (induction ts arbitrary: acc) auto
  have one: "s1 = s\<lparr>outbox := outbox s @ [(a, ser_KeyRequest (env_codec (mo_env M)) q)], mo_calls := Suc (mo_calls s)\<rparr>"
      "set failed1 = set failed0 \<union> rejected M q (mo_calls s)"
    using step by (auto simp: store_factors_def sync_request_def make_request_def rejected_def send_string_def Let_def res_simps
        inserts split: option.splits prod.splits)
  have "(\<Union>i<Suc (length puts). rejected M (snd ((put # puts) ! i)) (mo_calls s + i)) =
      rejected M q (mo_calls s) \<union> (\<Union>i<length puts. rejected M (snd (puts ! i)) (Suc (mo_calls s) + i))"
    unfolding lessThan_Suc_eq_insert_0 by (auto simp: put)
  then show ?case
    using Cons.IH [OF rest] by (auto simp: one put)
qed simp

definition informed :: "(Address, ReplicationFactorUpdate) omap \<Rightarrow> Address \<Rightarrow> ReplicationFactor \<Rightarrow> bool" where
  "informed updates a f \<longleftrightarrow> f \<in> set (rfu_updates (om_at \<lparr>rfu_updates = []\<rparr> updates a))"

text \<open>Who is told of a change: the owners before and after it, and every routing node.\<close>

definition update_addresses :: "monitor_conf \<Rightarrow> monitor \<Rightarrow> Key \<Rightarrow> KeyReplication \<Rightarrow> KeyReplication \<Rightarrow> Address set" where
  "update_addresses M s key old new_rep =
     (\<Union>tier\<in>set kAllTiers. case responsible_global (env_hash (mo_env M)) key
          (max (om_at 0 (global_replication new_rep) tier) (om_at 0 (global_replication old) tier)) (global_ring tier s) of
        Inl _ \<Rightarrow> {} | Inr threads \<Rightarrow> replication_change_connect_address ` set threads)
     \<union> (\<lambda>ip. rt_replication_change_connect_address \<lparr>rt_ip = ip, rt_tid = 0\<rparr>) ` set (mo_routing_ips s)"

definition located :: "monitor_conf \<Rightarrow> monitor \<Rightarrow> Key \<Rightarrow> KeyReplication \<Rightarrow> KeyReplication \<Rightarrow> bool" where
  "located M s key old new_rep \<longleftrightarrow> (\<forall>tier \<in> set kAllTiers. \<exists>threads. responsible_global (env_hash (mo_env M)) key
     (max (om_at 0 (global_replication new_rep) tier) (om_at 0 (global_replication old) tier)) (global_ring tier s) = Inr threads)"

definition both_tiers :: "KeyReplication \<Rightarrow> bool" where
  "both_tiers rep \<longleftrightarrow> {MEMORY, DISK} \<subseteq> dom (map_of (global_replication rep))"

definition same_view_of_factors :: "monitor \<Rightarrow> monitor \<Rightarrow> bool" where
  "same_view_of_factors s s' \<longleftrightarrow> same_net s s' \<and> (\<forall>k. replication_of k s' = replication_of k s)"

lemma same_view_of_factors_refl [simp]: "same_view_of_factors s s"
  by (simp add: same_view_of_factors_def)

lemma same_view_of_factors_trans:
  "same_view_of_factors a b \<Longrightarrow> same_view_of_factors b c \<Longrightarrow> same_view_of_factors a c"
  by (auto simp: same_view_of_factors_def intro: same_net_trans)

lemma update_addresses_same:
  "same_net s s' \<Longrightarrow> update_addresses M s' key old new_rep = update_addresses M s key old new_rep"
  "same_net s s' \<Longrightarrow> located M s' key old new_rep \<longleftrightarrow> located M s key old new_rep"
  by (simp_all add: same_net_def update_addresses_def located_def)

lemma informed_fold:
  "informed (fold (\<lambda>x. prepare_replication_factor_update key (g x) factors) xs updates) a f \<longleftrightarrow>
     informed updates a f \<or> a \<in> g ` set xs \<and> f = replication_factor key (om_at empty_KeyReplication factors key)"
proof (induction xs arbitrary: updates)
  case (Cons x xs)
  have "informed (prepare_replication_factor_update key (g x) factors updates) a f \<longleftrightarrow>
      informed updates a f \<or> a = g x \<and> f = replication_factor key (om_at empty_KeyReplication factors key)"
    by (auto simp: informed_def prepare_replication_factor_update_def)
  then show ?case
    by (auto simp: Cons)
qed simp

lemma touch_present_rep:
  assumes "tier \<in> dom (map_of (global_replication (replication_of key s)))"
  shows "same_view_of_factors s (touch_global_ring tier' (touch_global_rep key tier s))"
proof -
  have "om_touch 0 tier (global_replication (replication_of key s)) = global_replication (replication_of key s)"
    using assms by (auto simp: om_touch_def)
  then have "replication_of k (touch_global_rep key tier s) = replication_of k s" for k
    by (simp add: touch_global_rep_def replication_of_def)
  then show ?thesis
    by (simp add: same_view_of_factors_def same_net_def touch_global_ring_def touch_global_rep_def replication_of_def
        global_ring_def local_ring_def)
qed

lemma update_tier_step:
  assumes "update_tier M orig key tier (updates, s) = Inr (updates', s')" "both_tiers (replication_of key s)"
    and "tier \<in> {MEMORY, DISK}"
  obtains threads where "responsible_global (env_hash (mo_env M)) key (max (om_at 0 (global_replication (replication_of key s)) tier)
      (om_at 0 (global_replication (om_at empty_KeyReplication orig key)) tier)) (global_ring tier s) = Inr threads"
    and "\<And>a f. informed updates' a f \<longleftrightarrow> informed updates a f
      \<or> a \<in> replication_change_connect_address ` set threads \<and> f = replication_factor key (replication_of key s)"
    and "same_view_of_factors s s'"
proof -
  define t where "t = touch_global_ring tier (touch_global_rep key tier s)"
  have "tier \<in> dom (map_of (global_replication (replication_of key s)))"
    using assms(2,3) by (auto simp: both_tiers_def)
  note same = touch_present_rep [OF this, of tier, folded t_def]
  then have t: "global_ring tier t = global_ring tier s" "om_at empty_KeyReplication (key_replication_map t) key = replication_of key s"
    by (auto simp: same_view_of_factors_def same_net_def replication_of_def)
  obtain threads where "responsible_global (env_hash (mo_env M)) key (max (global_rep key tier s)
        (om_at 0 (global_replication (om_at empty_KeyReplication orig key)) tier)) (global_ring tier s) = Inr threads"
      "updates' = fold (\<lambda>thread. prepare_replication_factor_update key (replication_change_connect_address thread)
         (key_replication_map t)) threads updates" "s' = t"
    using assms(1) unfolding update_tier_def Let_def prod.case t_def [symmetric] t(1) by (auto simp: res_simps)
  then show thesis
    using that same t(2) by (simp add: informed_fold global_rep_def)
qed

lemma update_key_step:
  assumes "update_key M orig failed (key, rep) (updates, s) = Inr (updates', s')" "both_tiers (replication_of key s)"
  shows "same_view_of_factors s s' \<and> (informed updates' a f \<longleftrightarrow> informed updates a f \<or> key \<notin> set failed
    \<and> f = replication_factor key (replication_of key s)
    \<and> a \<in> update_addresses M s key (om_at empty_KeyReplication orig key) (replication_of key s))
    \<and> (key \<notin> set failed \<longrightarrow> located M s key (om_at empty_KeyReplication orig key) (replication_of key s))"
proof (cases "key \<in> set failed")
  case False
  obtain u1 s1 u2 s2 where m: "update_tier M orig key MEMORY (updates, s) = Inr (u1, s1)"
    and d: "update_tier M orig key DISK (u1, s1) = Inr (u2, s2)"
    and s': "s' = s2" "updates' = fold (\<lambda>address. prepare_replication_factor_update key
              (rt_replication_change_connect_address \<lparr>rt_ip = address, rt_tid = 0\<rparr>) (key_replication_map s2))
            (mo_routing_ips s2) u2"
    using assms(1) False by (auto simp: update_key_def kAllTiers_def res_simps)
  from update_tier_step [OF m assms(2)] obtain tm where
      tm: "responsible_global (env_hash (mo_env M)) key (max (om_at 0 (global_replication (replication_of key s)) MEMORY)
        (om_at 0 (global_replication (om_at empty_KeyReplication orig key)) MEMORY)) (global_ring MEMORY s) = Inr tm"
      "\<And>a f. informed u1 a f \<longleftrightarrow> informed updates a f \<or> a \<in> replication_change_connect_address ` set tm
        \<and> f = replication_factor key (replication_of key s)" "same_view_of_factors s s1"
    by auto
  then have s1: "replication_of key s1 = replication_of key s" "global_ring DISK s1 = global_ring DISK s"
    by (auto simp: same_view_of_factors_def same_net_def)
  from update_tier_step [OF d assms(2) [folded s1(1)]] obtain td where
      td: "responsible_global (env_hash (mo_env M)) key (max (om_at 0 (global_replication (replication_of key s)) DISK)
        (om_at 0 (global_replication (om_at empty_KeyReplication orig key)) DISK)) (global_ring DISK s) = Inr td"
      "\<And>a f. informed u2 a f \<longleftrightarrow> informed u1 a f \<or> a \<in> replication_change_connect_address ` set td
        \<and> f = replication_factor key (replication_of key s)" "same_view_of_factors s1 s2"
    unfolding s1 by auto
  have same: "same_view_of_factors s s2"
    using same_view_of_factors_trans [OF tm(3) td(3)] .
  then have "mo_routing_ips s2 = mo_routing_ips s" "om_at empty_KeyReplication (key_replication_map s2) key = replication_of key s"
    by (auto simp: same_view_of_factors_def same_net_def replication_of_def)
  then show ?thesis
    using same False
    by (auto simp: s' informed_fold tm(1,2) td(1,2) update_addresses_def located_def kAllTiers_def)
qed (use assms in \<open>simp add: update_key_def\<close>)

lemma update_loop:
  assumes "rfold (update_key M orig failed) requests (updates, s) = Inr (updates', s')"
    and "\<forall>key \<in> fst ` set requests. both_tiers (replication_of key s)"
  shows "same_view_of_factors s s' \<and> (informed updates' a f \<longleftrightarrow> informed updates a f \<or> (\<exists>key \<in> fst ` set requests.
    key \<notin> set failed \<and> f = replication_factor key (replication_of key s)
    \<and> a \<in> update_addresses M s key (om_at empty_KeyReplication orig key) (replication_of key s)))
    \<and> (\<forall>key \<in> fst ` set requests - set failed. located M s key (om_at empty_KeyReplication orig key) (replication_of key s))"
  using assms
proof (induction requests arbitrary: updates s)
  case (Cons r requests)
  obtain key rep where r: "r = (key, rep)"
    by (cases r)
  obtain u1 s1 where step: "update_key M orig failed (key, rep) (updates, s) = Inr (u1, s1)"
    and rest: "rfold (update_key M orig failed) requests (u1, s1) = Inr (updates', s')"
    using Cons.prems(1) by (auto simp: r res_simps)
  have "both_tiers (replication_of key s)"
    using Cons.prems(2) by (simp add: r)
  note one = update_key_step [OF step this]
  have same: "same_view_of_factors s s1"
    using one by simp
  then have eq: "replication_of k s1 = replication_of k s" and net: "same_net s s1" for k
    by (simp_all add: same_view_of_factors_def)
  have "\<forall>k \<in> fst ` set requests. both_tiers (replication_of k s1)"
    using Cons.prems(2) by (simp add: eq)
  from Cons.IH [OF rest this] one show ?case
    using same_view_of_factors_trans [OF same]
    by (auto simp: r eq update_addresses_same [OF net])
qed simp

lemma fold_send_pairs:
  "fold (\<lambda>(address, update). send_string (f update) address) xs s = s\<lparr>outbox := outbox s @ map (\<lambda>(a, u). (a, f u)) xs\<rparr>"
  by (induction xs arbitrary: s) (auto simp: send_string_def)

lemma restored:
  "om_at empty_KeyReplication (fold (\<lambda>key. AList.update key (om_at empty_KeyReplication orig key)) failed m) key =
     (if key \<in> set failed then om_at empty_KeyReplication orig key else om_at empty_KeyReplication m key)"
  by (induction failed arbitrary: m) auto

lemma KeyReplication_eq_tiers:
  assumes "KeyReplication_eq lhs rhs"
  shows "dom (map_of (global_replication lhs)) \<subseteq> dom (map_of (global_replication rhs))"
proof
  fix tier
  assume "tier \<in> dom (map_of (global_replication lhs))"
  then obtain n where "(tier, n) \<in> set (global_replication lhs)"
    by (auto dest: map_of_SomeD)
  with assms have "map_of (global_replication rhs) tier = Some n"
    by (auto simp: KeyReplication_eq_def list_all_iff)
  then show "tier \<in> dom (map_of (global_replication rhs))"
    by blast
qed

lemma settled_both_tiers: "both_tiers new_rep \<Longrightarrow> both_tiers (settled new_rep current)"
  using KeyReplication_eq_tiers [of new_rep current] by (auto simp: settled_def both_tiers_def)

lemma change_replication_spec:
  assumes run: "change_replication_factor M requests s = Inr s'" and wf: "om_wf requests"
    and complete: "\<forall>(key, new_rep) \<in> set requests. both_tiers new_rep" and C: "C = env_codec (mo_env M)"
  shows "\<exists>puts updates failed.
    outbox s' = outbox s @ map (\<lambda>(a, q). (a, ser_KeyRequest C q)) puts @ map (\<lambda>(a, u). (a, ser_ReplicationFactorUpdate C u)) updates
    \<and> failed = (\<Union>i<length puts. rejected M (snd (puts ! i)) (mo_calls s + i))
    \<and> (\<forall>(key, new_rep) \<in> set requests. \<not> KeyReplication_eq new_rep (replication_of key s) \<longrightarrow>
         get_responsible_threads_metadata (mo_env M) (get_replication_key key replication) (global_ring MEMORY s)
           (local_ring MEMORY s) = Inr []
         \<or> (\<exists>(a, q) \<in> set puts. \<exists>t \<in> set (rq_tuples q). stores_factor C key new_rep t))
    \<and> (\<forall>key. replication_of key s' = (case map_of requests key of
         None \<Rightarrow> if key \<in> failed then empty_KeyReplication else replication_of key s
       | Some new_rep \<Rightarrow> if key \<in> failed then replication_of key s else settled new_rep (replication_of key s)))
    \<and> (\<forall>a f. informed updates a f \<longleftrightarrow> (\<exists>key \<in> fst ` set requests - failed. f = replication_factor key (replication_of key s')
         \<and> a \<in> update_addresses M s key (replication_of key s) (replication_of key s')))
    \<and> (\<forall>key \<in> fst ` set requests - failed. located M s key (replication_of key s) (replication_of key s'))"
proof -
  obtain orig puts s1 failed s2 updates s3 where
      stage: "rfold (stage_request M) requests ([], [], s) = Inr (orig, puts, s1)"
    and store: "rfold (store_factors M) puts ([], s1) = Inr (failed, s2)"
    and update: "rfold (update_key M orig failed) requests ([], s2) = Inr (updates, s3)"
    and s': "s' = s3\<lparr>outbox := outbox s3 @ map (\<lambda>(a, u). (a, ser_ReplicationFactorUpdate C u)) updates,
        key_replication_map := fold (\<lambda>key. AList.update key (om_at empty_KeyReplication orig key)) failed (key_replication_map s3)\<rparr>"
    using run by (auto simp: change_replication_factor_def Let_def res_simps fold_send_pairs C)
  note S = stage_loop [OF stage wf [unfolded om_wf_def]]
  note T = store_loop [OF store]
  have s2: "replication_of key s2 = (case map_of requests key of None \<Rightarrow> replication_of key s
      | Some new_rep \<Rightarrow> settled new_rep (replication_of key s))" for key
    using S [of key] T by (simp add: replication_of_def)
  have "\<forall>key \<in> fst ` set requests. both_tiers (replication_of key s2)"
    using wf complete by (auto simp: s2 om_wf_def intro!: settled_both_tiers)
  note U = update_loop [OF update this]
  have same: "same_net s s1" "same_view_of_factors s2 s3"
    using S [of undefined] U [of undefined undefined] by blast+
  have out: "outbox s' = outbox s @ map (\<lambda>(a, q). (a, ser_KeyRequest C q)) puts @
      map (\<lambda>(a, u). (a, ser_ReplicationFactorUpdate C u)) updates"
    using same T by (simp add: s' same_net_def same_view_of_factors_def C)
  have failed: "set failed = (\<Union>i<length puts. rejected M (snd (puts ! i)) (mo_calls s + i))"
    using same T by (simp add: same_net_def)
  have orig: "om_at empty_KeyReplication orig key =
      (if key \<in> fst ` set requests then replication_of key s else empty_KeyReplication)" for key
    using S [of key] by (simp add: om_at_def)
  have final: "replication_of key s' = (case map_of requests key of
       None \<Rightarrow> if key \<in> set failed then empty_KeyReplication else replication_of key s
     | Some new_rep \<Rightarrow> if key \<in> set failed then replication_of key s else settled new_rep (replication_of key s))" for key
  proof -
    have "replication_of key s' = (if key \<in> set failed then om_at empty_KeyReplication orig key else replication_of key s2)"
      using same(2) by (simp add: s' replication_of_def restored same_view_of_factors_def)
    then show ?thesis
      using map_of_eq_None_iff [of requests key] by (auto simp: orig s2 split: option.splits)
  qed
  have net: "same_net s (s2\<lparr>outbox := outbox s, mo_calls := mo_calls s\<rparr>)"
    using same(1) T by (simp add: same_net_def global_ring_def local_ring_def)
  have addresses: "update_addresses M s2 key old new_rep = update_addresses M s key old new_rep"
      "located M s2 key old new_rep \<longleftrightarrow> located M s key old new_rep" for key old new_rep
    using update_addresses_same [OF net] by (simp_all add: update_addresses_def located_def global_ring_def)
  have kept: "replication_of key s' = replication_of key s2" if "key \<in> fst ` set requests - set failed" for key
    using that final [of key] s2 [of key] by (auto split: option.splits)
  have informed: "informed updates a f \<longleftrightarrow> (\<exists>key \<in> fst ` set requests - set failed. f = replication_factor key (replication_of key s')
         \<and> a \<in> update_addresses M s key (replication_of key s) (replication_of key s'))" for a f
    using U [of a f] kept by (auto simp: addresses orig informed_def)
  have located: "\<forall>key \<in> fst ` set requests - set failed. located M s key (replication_of key s) (replication_of key s')"
    using U [of undefined undefined] kept by (auto simp: addresses orig)
  have stored: "\<forall>(key, new_rep) \<in> set requests. \<not> KeyReplication_eq new_rep (replication_of key s) \<longrightarrow>
      get_responsible_threads_metadata (mo_env M) (get_replication_key key replication) (global_ring MEMORY s)
        (local_ring MEMORY s) = Inr [] \<or> (\<exists>(a, q) \<in> set puts. \<exists>t \<in> set (rq_tuples q). stores_factor C key new_rep t)"
    using stage_loop_puts [OF stage wf [unfolded om_wf_def]] by (fastforce simp: C dest!: put_tuples_mem)
  show ?thesis
    by (intro exI [of _ puts] exI [of _ updates] exI [of _ "set failed"] conjI out failed stored allI final informed located)
qed


section \<open>Promotions fit into memory\<close>

definition looked :: "monitor \<Rightarrow> monitor \<Rightarrow> bool" where
  "looked s s' \<longleftrightarrow> (\<forall>key tier. global_rep key tier s' = global_rep key tier s \<and> local_rep key tier s' = local_rep key tier s)
     \<and> (\<forall>tier. global_ring tier s' = global_ring tier s \<and> local_ring tier s' = local_ring tier s)
     \<and> outbox s' = outbox s \<and> ring_ctx.more s' = ring_ctx.more s"

lemma looked_refl [simp]: "looked s s"
  by (simp add: looked_def)

lemma looked_trans: "looked a b \<Longrightarrow> looked b c \<Longrightarrow> looked a c"
  by (simp add: looked_def)

lemma looked_touch [intro]:
  "looked s t \<Longrightarrow> looked s (touch_global_rep key tier t)"
  "looked s t \<Longrightarrow> looked s (touch_local_rep key tier t)"
  "looked s t \<Longrightarrow> looked s (touch_global_ring tier t)"
  by (auto simp: looked_def touch_global_rep_def touch_local_rep_def touch_global_ring_def global_rep_def local_rep_def
      replication_of_def global_ring_def local_ring_def)

lemma looked_fields:
  assumes "looked s t"
  shows "key_sizes t = key_sizes s" "global_rep key tier t = global_rep key tier s" "local_rep key tier t = local_rep key tier s"
    "global_ring tier t = global_ring tier s" "mo_calls t = mo_calls s"
  using assms by (cases s; cases t; simp add: looked_def)+

definition size_of :: "monitor \<Rightarrow> Key \<Rightarrow> nat" where
  "size_of s key = unat (om_at 0 (key_sizes s) key)"

definition promoted :: "monitor \<Rightarrow> Key \<Rightarrow> KeyReplication" where
  "promoted s key = create_new_replication_vector 1 (global_rep key DISK s - 1) (local_rep key MEMORY s) (local_rep key DISK s)"

definition promotable :: "monitor \<Rightarrow> Key \<times> u32 \<Rightarrow> bool" where
  "promotable s = (\<lambda>(key, access_count). is_metadata key = Inr False \<and> access_count > 0
     \<and> key \<in> dom (map_of (key_sizes s)) \<and> global_rep key MEMORY s = 0)"

lemma touched_rep [simp]:
  "global_rep k t (touch_global_rep key tier s) = global_rep k t s" "local_rep k t (touch_global_rep key tier s) = local_rep k t s"
  "global_rep k t (touch_local_rep key tier s) = global_rep k t s" "local_rep k t (touch_local_rep key tier s) = local_rep k t s"
  "key_sizes (touch_global_rep key tier s) = key_sizes s" for s :: monitor
  using looked_fields [OF looked_touch(1) [OF looked_refl]] looked_fields [OF looked_touch(2) [OF looked_refl]] by auto

lemma promote_key_step:
  assumes "promote_key free (key, n) (requests, required, overflow, s) = Inr (requests', required', overflow', s')"
  shows "looked s s' \<and> (if promotable s (key, n)
    then required' = required + ucast (om_at 0 (key_sizes s) key)
      \<and> (if required' > free then requests' = requests \<and> overflow'
         else requests' = AList.update key (promoted s key) requests \<and> overflow' = overflow)
    else requests' = requests \<and> required' = required \<and> overflow' = overflow)"
  using assms
  by (auto simp: promote_key_def promotable_def promoted_def om_at_def kKeyPromotionThreshold_def Let_def res_simps
      intro!: looked_touch split: if_splits option.splits)

lemma update_fresh: "k \<notin> fst ` set m \<Longrightarrow> AList.update k v m = m @ [(k, v)]"
  by (induction m) auto

lemma looked_promotable:
  assumes "looked s t"
  shows "size_of t = size_of s" "promotable t = promotable s" "promoted t = promoted s"
  by (simp_all add: fun_eq_iff size_of_def promotable_def promoted_def looked_fields [OF assms])

definition weight :: "monitor \<Rightarrow> (Key \<times> 'a) list \<Rightarrow> nat" where
  "weight s xs = sum_list (map (size_of s \<circ> fst) xs)"

lemma unat_add_size:
  assumes "unat required + size_of s key < 2 ^ 64"
  shows "unat (required + ucast (om_at 0 (key_sizes s) key) :: u64) = unat required + size_of s key"
proof -
  have "unat (ucast (om_at 0 (key_sizes s) key) :: u64) = size_of s key"
    unfolding size_of_def by transfer (simp add: take_bit_nat_eq_self_iff)
  then show ?thesis
    using assms by (simp add: unat_word_ariths(1) [where 'a = 64])
qed

lemma promote_loop:
  assumes "rfold (promote_key free) accesses (requests, required, overflow, s) = Inr (requests', required', overflow', s')"
    and "distinct (map fst accesses)" "fst ` set accesses \<inter> fst ` set requests = {}"
    and "unat required + weight s accesses < 2 ^ 64" "weight s requests \<le> unat required" "weight s requests \<le> unat free"
  shows "weight s requests' \<le> unat free \<and> looked s s'
    \<and> (\<forall>(key, rep) \<in> set requests' - set requests. rep = promoted s key \<and> (\<exists>n. (key, n) \<in> set accesses \<and> promotable s (key, n)))"
  using assms
proof (induction accesses arbitrary: requests required overflow s)
  case (Cons access accesses)
  obtain key n where access: "access = (key, n)"
    by (cases access)
  obtain r1 q1 o1 s1 where step: "promote_key free (key, n) (requests, required, overflow, s) = Inr (r1, q1, o1, s1)"
    and rest: "rfold (promote_key free) accesses (r1, q1, o1, s1) = Inr (requests', required', overflow', s')"
    using Cons.prems(1) by (auto simp: access res_simps)
  note one = promote_key_step [OF step]
  then have same: "looked s s1"
    by simp
  have eq: "weight s1 xs = weight s xs" for xs :: "(Key \<times> 'b) list"
    by (simp add: weight_def looked_promotable [OF same])
  have fresh: "key \<notin> fst ` set requests" "key \<notin> fst ` set accesses"
    using Cons.prems(2,3) by (auto simp: access)
  have total: "unat required + (size_of s key + weight s accesses) < 2 ^ 64"
    using Cons.prems(4) by (simp add: access weight_def)
  have inv: "unat q1 + weight s accesses < 2 ^ 64 \<and> weight s r1 \<le> unat q1 \<and> weight s r1 \<le> unat free
      \<and> fst ` set accesses \<inter> fst ` set r1 = {}
      \<and> set r1 \<subseteq> insert (key, promoted s key) (set requests) \<and> (r1 = requests \<or> promotable s (key, n))"
  proof (cases "promotable s (key, n)")
    case True
    then have "q1 = required + ucast (om_at 0 (key_sizes s) key)"
      using one by simp
    then have q1: "unat q1 = unat required + size_of s key"
      using unat_add_size [of required s key] total by simp
    have "r1 = requests \<or> r1 = requests @ [(key, promoted s key)] \<and> unat q1 \<le> unat free"
      using one True update_fresh [OF fresh(1)] by (auto simp: word_le_nat_alt not_less split: if_splits)
    then show ?thesis
      using q1 total Cons.prems(3,5,6) fresh True by (elim disjE) (auto simp: weight_def access image_iff Bex_def)
  qed (use one Cons.prems(3,5,6) total in \<open>auto simp: access\<close>)
  have IH: "weight s1 requests' \<le> unat free \<and> looked s1 s' \<and> (\<forall>(key, rep) \<in> set requests' - set r1.
      rep = promoted s1 key \<and> (\<exists>n. (key, n) \<in> set accesses \<and> promotable s1 (key, n)))"
    using inv Cons.prems(2) by (intro Cons.IH [OF rest]) (simp_all add: eq access)
  have "rep = promoted s k \<and> (\<exists>m. (k, m) \<in> set (access # accesses) \<and> promotable s (k, m))"
    if "(k, rep) \<in> set requests'" "(k, rep) \<notin> set requests" for k rep
  proof (cases "(k, rep) \<in> set r1")
    case True
    then show ?thesis
      using inv that(2) by (auto simp: access)
  next
    case False
    with IH that(1) have "rep = promoted s1 k \<and> (\<exists>n. (k, n) \<in> set accesses \<and> promotable s1 (k, n))"
      by blast
    then show ?thesis
      by (auto simp: looked_promotable [OF same])
  qed
  then show ?case
    using IH looked_trans [OF same] by (simp add: eq split: prod.splits) blast
qed simp

lemma weight_bound:
  fixes xs :: "(Key \<times> 'a) list"
  assumes "length xs < 2 ^ 32"
  shows "weight s xs < 2 ^ 64"
proof -
  have "size_of s key \<le> 2 ^ 32 - 1" for key
    unfolding size_of_def using unsigned_less [where 'a = nat, of "om_at 0 (key_sizes s) key"] by simp
  then have "weight s xs \<le> length xs * (2 ^ 32 - 1)"
    unfolding weight_def by (induction xs) (auto intro: add_mono)
  also have "\<dots> \<le> (2 ^ 32 - 1) * (2 ^ 32 - 1)"
    using assms by (intro mult_right_mono) auto
  finally show ?thesis
    by simp
qed

lemma free_storage_fits:
  assumes "free_storage max_consumption capacity nodes consumption = Inr free"
    and "real_word consumption \<le> max_consumption * capacity * real_word nodes" "n \<le> unat free"
  shows "real_word consumption + real n \<le> max_consumption * capacity * real_word nodes"
proof -
  let ?x = "max_consumption * capacity * real_word nodes - real_word consumption"
  have x: "0 \<le> ?x" "?x < 2 ^ 64" "free = word_of_int \<lfloor>?x\<rfloor>"
    using assms(1,2) by (auto simp: free_storage_def trunc_word_def split: if_splits)
  then have "\<lfloor>?x\<rfloor> < 2 ^ 64"
    by (simp add: floor_less_iff)
  then have "int (unat free) = \<lfloor>?x\<rfloor>"
    using x(1) unfolding x(3) by (simp add: uint_word_of_int)
  then have "real (unat free) \<le> ?x"
    using of_int_floor_le [of ?x] by (metis of_int_of_nat_eq)
  then show ?thesis
    using assms(3) of_nat_mono [of n "unat free", where 'a = real] by linarith
qed


section \<open>Removing a node may never end\<close>

definition spared :: "monitor_conf \<Rightarrow> monitor \<Rightarrow> Key \<Rightarrow> KeyReplication" where
  "spared M s key = create_new_replication_vector (global_rep key MEMORY s - 1)
     (kMinimumReplicaNumber M - (global_rep key MEMORY s - 1)) (local_rep key MEMORY s) (local_rep key DISK s)"

definition everywhere :: "monitor \<Rightarrow> Key \<Rightarrow> bool" where
  "everywhere s key \<longleftrightarrow> is_metadata key = Inr False
     \<and> unat (global_rep key MEMORY s) = length (hr_nodes (global_ring MEMORY s)) div unat kVirtualThreadNum"

lemma touched_ring [simp]:
  "global_rep k t (touch_global_ring tier s) = global_rep k t s" "local_rep k t (touch_global_ring tier s) = local_rep k t s"
  "global_ring t (touch_global_ring tier s) = global_ring t s" "global_ring t (touch_global_rep key tier s) = global_ring t s"
  for s :: monitor
  using looked_fields [OF looked_touch(1) [OF looked_refl]] looked_fields [OF looked_touch(3) [OF looked_refl]] by auto

lemma spare_key_step:
  assumes "spare_key M (key, n) (requests, s) = Inr (requests', s')"
  shows "looked s s' \<and> requests' = (if everywhere s key then AList.update key (spared M s key) requests else requests)"
  using assms by (auto simp: spare_key_def everywhere_def spared_def Let_def res_simps intro!: looked_touch split: if_splits)

lemma looked_spared:
  assumes "looked s t"
  shows "everywhere t = everywhere s" "spared M t = spared M s"
  by (simp_all add: fun_eq_iff everywhere_def spared_def looked_fields [OF assms])

lemma spare_loop:
  assumes "rfold (spare_key M) accesses (requests, s) = Inr (requests', s')"
  shows "looked s s' \<and> (om_wf requests \<longrightarrow> om_wf requests')
    \<and> map_of requests' key = (if key \<in> fst ` set accesses \<and> everywhere s key then Some (spared M s key) else map_of requests key)"
  using assms
proof (induction accesses arbitrary: requests s)
  case (Cons access accesses)
  obtain k n where access: "access = (k, n)"
    by (cases access)
  obtain r1 s1 where step: "spare_key M (k, n) (requests, s) = Inr (r1, s1)"
    and rest: "rfold (spare_key M) accesses (r1, s1) = Inr (requests', s')"
    using Cons.prems by (auto simp: access res_simps)
  note one = spare_key_step [OF step]
  then have same: "looked s s1"
    by simp
  show ?case
    using Cons.IH [OF rest] one looked_trans [OF same]
    by (auto simp: access looked_spared [OF same] update_conv' split: if_splits)
qed simp

lemma wrapped_difference:
  fixes a b :: u32
  assumes "a < b"
  shows "unat (a - b) = 2 ^ 32 + unat a - unat b"
  using assms by (simp add: unat_sub_if_size word_less_nat_alt word_size)

lemma overfull_factor_not_located:
  assumes "tier \<in> {MEMORY, DISK}" "sorted (map fst (hr_nodes (global_ring tier s)))" "hr_nodes (global_ring tier s) \<noteq> []"
    and "card (st_id ` snd ` set (hr_nodes (global_ring tier s))) < unat (om_at 0 (global_replication new_rep) tier)"
  shows "\<not> located M s key old new_rep"
proof
  assume "located M s key old new_rep"
  then obtain threads where "responsible_global (env_hash (mo_env M)) key (max (om_at 0 (global_replication new_rep) tier)
      (om_at 0 (global_replication old) tier)) (global_ring tier s) = Inr threads"
    using assms(1) by (auto simp: located_def kAllTiers_def)
  moreover have "unat (om_at 0 (global_replication new_rep) tier) \<le>
      unat (max (om_at 0 (global_replication new_rep) tier) (om_at 0 (global_replication old) tier))"
    by (simp add: max_def word_le_nat_alt)
  ultimately show False
    using assms(4) by (simp add: responsible_global_eq [OF assms(2)] assms(3) length_preference split: if_splits)
qed

lemma settled_factor:
  assumes "map_of (global_replication new_rep) tier = Some n"
  shows "om_at 0 (global_replication (settled new_rep current)) tier = n"
proof (cases "KeyReplication_eq new_rep current")
  case True
  then have "map_of (global_replication current) tier = Some n"
    using map_of_SomeD [OF assms] by (auto simp: KeyReplication_eq_def list_all_iff)
  with True show ?thesis
    by (simp add: settled_def om_at_Some)
qed (simp add: settled_def om_at_Some [OF assms])

lemma change_locates:
  assumes "change_replication_factor M requests s = Inr s'" "om_wf requests" "\<forall>(key, new_rep) \<in> set requests. both_tiers new_rep"
    and "\<And>request n. rejected M request n = {}" "map_of requests key = Some new_rep"
  shows "located M s key (replication_of key s) (settled new_rep (replication_of key s))"
proof -
  obtain puts :: "(Address \<times> KeyRequest) list" and failed where
      failed: "failed = (\<Union>i<length puts. rejected M (snd (puts ! i)) (mo_calls s + i))"
    and reps: "\<forall>key. replication_of key s' = (case map_of requests key of
         None \<Rightarrow> if key \<in> failed then empty_KeyReplication else replication_of key s
       | Some new_rep \<Rightarrow> if key \<in> failed then replication_of key s else settled new_rep (replication_of key s))"
    and loc: "\<forall>key \<in> fst ` set requests - failed. located M s key (replication_of key s) (replication_of key s')"
    using change_replication_spec [OF assms(1-3) refl] by (elim exE conjE) (rule that)
  have "failed = {}"
    using failed assms(4) by simp
  moreover have "key \<in> fst ` set requests"
    using imageI [OF map_of_SomeD [OF assms(5)], of fst] by simp
  moreover have "replication_of key s' = settled new_rep (replication_of key s)"
    using spec [OF reps, of key] assms(5) \<open>failed = {}\<close> by simp
  ultimately show ?thesis
    using bspec [OF loc, of key] by (metis Diff_empty)
qed

definition removal_due :: "monitor_conf \<Rightarrow> monitor \<Rightarrow> bool" where
  "removal_due M s \<longleftrightarrow> (let ss = summary_stats s in
     \<not> (dless (Finite (real_word kSloWorst)) (avg_latency ss) \<and> new_memory_count s = 0)
     \<and> kEnableElasticity M \<and> \<not> removing_memory_node s \<and> dless (min_memory_occupancy ss) (Finite (5 / 100))
     \<and> memory_node_count s > max (required_memory_node ss) kMinMemoryTierSize \<and> grace_elapsed M s)"

text \<open>
  C32. The removal of an underused memory node may never complete. The keys replicated on all memory nodes lose one replica there, and the
  number of replicas on disk is set to the difference to the minimum, which wraps around when the
  remaining replicas in memory exceed the minimum. The factor is then larger than the number of disk
  nodes, and the search for its owners does not end, so the removal is never requested.
\<close>

theorem node_removal_hangs:
  assumes "removal_due M s" "key \<in> fst ` set (key_access_summary s)" "everywhere s key"
    and "0 < global_rep key MEMORY s" "kMinimumReplicaNumber M < global_rep key MEMORY s - 1"
    and "sorted (map fst (hr_nodes (global_ring DISK s)))" "hr_nodes (global_ring DISK s) \<noteq> []"
    and "card (st_id ` snd ` set (hr_nodes (global_ring DISK s))) + unat (global_rep key MEMORY s) \<le> 2 ^ 32"
    and "\<And>request n. rejected M request n = {}"
  shows "slo_policy M s \<noteq> Inr s'"
proof
  assume run: "slo_policy M s = Inr s'"
  obtain requests s1 s2 where loop: "rfold (spare_key M) (key_access_summary s) ([], mo_tick s) = Inr (requests, s1)"
    and change: "change_replication_factor M requests s1 = Inr s2"
    using run assms(1) by (auto simp: slo_policy_def removal_due_def Let_def res_simps mo_tick_def split: if_splits)
  have tick: "everywhere (mo_tick s) = everywhere s" "spared M (mo_tick s) = spared M s" "global_ring DISK (mo_tick s) = global_ring DISK s"
    by (simp_all add: fun_eq_iff mo_tick_def everywhere_def spared_def global_rep_def local_rep_def replication_of_def
        global_ring_def)
  note L = spare_loop [OF loop, unfolded tick]
  have wf: "om_wf requests" and ring: "global_ring DISK s1 = global_ring DISK s"
    using L looked_fields(4) [of "mo_tick s" s1 DISK] by (simp_all add: tick)
  have requested: "map_of requests key = Some (spared M s key)"
    using L [of key] assms(2,3) by simp
  have complete: "\<forall>(k, rep) \<in> set requests. both_tiers rep"
  proof clarify
    fix k rep
    assume "(k, rep) \<in> set requests"
    then have "map_of requests k = Some rep"
      using wf by (simp add: om_wf_def)
    then have "rep = spared M s k"
      using L [of k] by (auto split: if_splits)
    then show "both_tiers rep"
      by (simp add: both_tiers_def spared_def create_new_replication_vector_def)
  qed
  have "located M s1 key (replication_of key s1) (settled (spared M s key) (replication_of key s1))"
    using change_locates [OF change wf complete assms(9) requested] .
  moreover have "om_at 0 (global_replication (settled (spared M s key) (replication_of key s1))) DISK =
      kMinimumReplicaNumber M - (global_rep key MEMORY s - 1)"
    by (rule settled_factor) (simp add: spared_def create_new_replication_vector_def)
  moreover have "card (st_id ` snd ` set (hr_nodes (global_ring DISK s))) <
      unat (kMinimumReplicaNumber M - (global_rep key MEMORY s - 1))"
  proof -
    have "unat (global_rep key MEMORY s - 1) = unat (global_rep key MEMORY s) - 1" "unat (global_rep key MEMORY s) > 0"
      using assms(4) by (simp_all add: unat_minus_one unat_gt_0)
    then show ?thesis
      using assms(8) unfolding wrapped_difference [OF assms(5)] by linarith
  qed
  ultimately show False
    using overfull_factor_not_located [of DISK s1] assms(6,7) unfolding ring by (metis insertCI)
qed

section \<open>A sample monitor\<close>

definition sample_monitor_conf :: monitor_conf where
  "sample_monitor_conf = \<lparr>mo_env = sample_env, mo_clock = (\<lambda>n. int n * 200000000000),
     mo_recv = (\<lambda>_. [Some (ser_KeyResponse wire_codec empty_KeyResponse)]), mo_mt = \<lparr>mt_ip = ''8.8.8.8''\<rparr>,
     mo_management_ip = ''NULL'', kEnableElasticity = True, kEnableTiering = True, kEnableSelectiveRep = False,
     kMemoryThreadCount = 1, kEbsThreadCount = 1, kMinimumReplicaNumber = 0\<rparr>"

definition sample_monitor :: monitor where
  "sample_monitor = \<lparr>global_hash_rings = [], local_hash_rings = [],
     key_replication_map = [(''k'', create_new_replication_vector 0 1 1 1)], seed = 0, rand_state = 0, outbox = [],
     memory_node_count = 1, ebs_node_count = 1, key_access_frequency = [(''k'', [(''a'', 3), (''b'', 2)])],
     key_access_summary = [], key_sizes = [(''k'', 10)],
     memory_storage = [(''5.5.5.5/a'', [(0, 300)])], ebs_storage = [], memory_occupancy = [], ebs_occupancy = [],
     memory_accesses = [], ebs_accesses = [], summary_stats = cleared_SummaryStats, user_latency = [], user_throughput = [],
     latency_miss_ratio_map = [], mo_routing_ips = [''7.7.7.7''], departing_node_map = [], mo_report_start = 0,
     grace_start = 0, new_memory_count = 0, new_ebs_count = 0, removing_memory_node = False,
     removing_ebs_node = False, server_monitoring_epoch = 0, mo_rid = 0, mo_ticks = 1, mo_calls = 0\<rparr>"

lemma sample_capacity: "tier_capacity sample_monitor_conf MEMORY = 1000" "tier_capacity sample_monitor_conf DISK = 1000"
  by (simp_all add: tier_capacity_def sample_monitor_conf_def sample_env_def om_at_def)



theorem departure_crashes_monitor_witness:
  "\<exists>s' sent m. self_depart_handler sample_worker ''tcp://8.8.8.8:6700'' sample_server = Inr s'
    \<and> outbox s' = sent @ [(''tcp://8.8.8.8:6700'', m)]
    \<and> depart_done_handler sample_monitor_conf m sample_monitor = Inl InvalidArgument"
proof -
  obtain s' where run: "self_depart_handler sample_worker ''tcp://8.8.8.8:6700'' sample_server = Inr s'"
  proof -
    let ?ring = "hr_remove (GlobalHasher (env_hash (w_env sample_worker))) (public_ip sample_worker)
      (private_ip sample_worker) 0 (global_ring (kSelfTier (w_env sample_worker)) sample_server)"
    let ?s1 = "set_global_ring (kSelfTier (w_env sample_worker)) ?ring sample_server"
    let ?s2 = "if thread_id sample_worker = 0 then notify_depart sample_worker ''tcp://8.8.8.8:6700'' ?s1 else ?s1"
    have "only_sends ?s1 ?s2"
      by (simp add: only_sends_notify_depart)
    then have "ring_ctx.more ?s2 = ring_ctx.more sample_server"
      by (simp add: only_sends_def)
    then have "map fst (stored_key_map ?s2) = []"
      using server_more_eq(6) by (fastforce simp: sample_server_def)
    then show thesis
      using that by (simp add: self_depart_handler_def send_gossip_def Let_def cong: if_cong split del: if_split)
  qed
  from departure_crashes_monitor [OF run] show ?thesis
    using run by (auto simp: sample_worker_def sample_env_def)
qed

lemma no_servers [simp]:
  "responsible_global H key rep empty_HashRing = Inr []"
  "get_responsible_threads_metadata E key empty_HashRing l = Inr []"
  by (simp_all add: responsible_global_eq get_responsible_threads_metadata_def)
    (simp_all add: empty_HashRing_def responsible_global_eq)

lemma change_without_servers:
  assumes "\<And>tier. global_ring tier s = empty_HashRing"
  shows "\<exists>s'. change_replication_factor M [(key, rep)] s = Inr s'"
proof -
  have stage: "\<exists>orig s1. stage_request M (key, rep) ([], [], s) = Inr (orig, [], s1)"
    using assms by (auto simp: stage_request_def Let_def prepare_metadata_put_request_def prepare_metadata_request_def
        mo_tick_def global_ring_def)
  then obtain orig s1 where s1: "stage_request M (key, rep) ([], [], s) = Inr (orig, [], s1)"
    by blast
  then have "global_ring tier s1 = empty_HashRing" for tier
    using stage_request_step(3) [OF s1] assms by (simp add: same_net_def)
  then have "\<exists>u s2. update_key M orig [] (key, rep) ([], s1) = Inr (u, s2)"
    by (simp add: update_key_def update_tier_def kAllTiers_def Let_def)
  then show ?thesis
    using s1 by (auto simp: change_replication_factor_def Let_def)
qed

lemma sample_monitor_rings: "global_ring tier sample_monitor = empty_HashRing"
  by (simp add: global_ring_def sample_monitor_def)


definition sample_busy :: monitor where
  "sample_busy = sample_monitor\<lparr>key_access_summary := [(''k'', 5)]\<rparr>"


definition sample_idle :: monitor where
  "sample_idle = sample_monitor\<lparr>
     global_hash_rings := [(MEMORY, empty_HashRing\<lparr>hr_nodes := replicate 6000 (0, server_thread ''5.5.5.5'' ''a'' 0)\<rparr>),
       (DISK, empty_HashRing\<lparr>hr_nodes := [(0, server_thread ''6.6.6.6'' ''bb'' 0)]\<rparr>)],
     key_replication_map := [(''k'', create_new_replication_vector 2 0 1 1)], key_access_summary := [(''k'', 5)],
     summary_stats := cleared_SummaryStats\<lparr>min_memory_occupancy := Finite 0\<rparr>, memory_node_count := 2\<rparr>"

lemma sample_idle_rings:
  "hr_nodes (global_ring MEMORY sample_idle) = replicate 6000 (0, server_thread ''5.5.5.5'' ''a'' 0)"
  "hr_nodes (global_ring DISK sample_idle) = [(0, server_thread ''6.6.6.6'' ''bb'' 0)]"
  "global_rep ''k'' MEMORY sample_idle = 2"
  by (simp_all add: sample_idle_def sample_monitor_def global_ring_def global_rep_def replication_of_def om_at_def
      create_new_replication_vector_def)

theorem node_removal_hangs_witness: "slo_policy sample_monitor_conf sample_idle \<noteq> Inr sample_idle"
proof (rule node_removal_hangs [where key = "''k''"])
  show "removal_due sample_monitor_conf sample_idle"
    by (simp add: removal_due_def sample_idle_def sample_monitor_def sample_monitor_conf_def cleared_SummaryStats_def
        kMinMemoryTierSize_def kSloWorst_def grace_elapsed_def mo_now_def to_secs_def duration_cast_def kGracePeriod_def)
  show "''k'' \<in> fst ` set (key_access_summary sample_idle)"
    by (simp add: sample_idle_def)
  show "everywhere sample_idle ''k''"
    by (simp add: everywhere_def sample_not_metadata sample_idle_rings kVirtualThreadNum_def)
  show "rejected sample_monitor_conf request n = {}" for request n
    by (simp add: rejected_def sample_monitor_conf_def sample_env_def make_request_def receive_def empty_KeyResponse_def Let_def)
  show "kMinimumReplicaNumber sample_monitor_conf < global_rep ''k'' MEMORY sample_idle - 1"
    by (simp add: sample_idle_rings sample_monitor_conf_def)
qed (simp_all add: sample_idle_rings)

definition sample_stat :: ServerThreadStatistics where
  "sample_stat = \<lparr>sts_storage_consumption = 300, sts_occupancy = 1 / 2, sts_epoch = 4, sts_access_count = 7\<rparr>"

definition sample_stat_env :: env where
  "sample_stat_env = sample_env\<lparr>env_codec := wire_codec\<lparr>parse_ServerThreadStatistics := (\<lambda>_. (True, sample_stat))\<rparr>\<rparr>"

theorem reported_statistics_collected_witness:
  "\<exists>s' address msg tuple m'.
     send_report (sample_worker\<lparr>w_env := sample_stat_env\<rparr>) 1 server_stats
       (ser_ServerThreadStatistics (env_codec sample_stat_env) sample_stat) sample_server = Inr s'
    \<and> outbox s' = outbox sample_server @ [(address, msg)]
    \<and> rq_tuples (snd (parse_KeyRequest (env_codec sample_stat_env) msg)) = [tuple]
    \<and> collect_tuple (sample_monitor_conf\<lparr>mo_env := sample_stat_env\<rparr>) (tuple\<lparr>kt_error := NO_ERROR\<rparr>) sample_monitor = Inr m'
    \<and> thread_figures MEMORY ''5.5.5.5/a'' 0 m' = (Some 300, Some (1 / 2, 4), Some 7)"
proof -
  let ?W = "sample_worker\<lparr>w_env := sample_stat_env\<rparr>" and ?C = "env_codec sample_stat_env"
  let ?M = "sample_monitor_conf\<lparr>mo_env := sample_stat_env\<rparr>"
  have "cluster_ok sample_stat_env sample_server"
    using sample_cluster_ok by (simp add: sample_stat_env_def sample_worker_def cluster_ok_def rings_ok_def)
  then obtain threads where "get_responsible_threads_metadata sample_stat_env
      (get_metadata_key (wt ?W) (kSelfTier sample_stat_env) (st_tid (wt ?W)) server_stats)
      (global_ring MEMORY sample_server) (local_ring MEMORY sample_server) = Inr threads" "threads \<noteq> []"
    using metadata_threads_nonempty by blast
  moreover obtain n r where "env_rand_r sample_stat_env (seed (touch_local_ring MEMORY (touch_global_ring MEMORY sample_server))) = (n, r)"
    by (metis prod.collapse)
  ultimately obtain s' address msg where
      run: "send_report ?W 1 server_stats (ser_ServerThreadStatistics ?C sample_stat) sample_server = Inr s'"
      "outbox s' = outbox sample_server @ [(address, msg)]"
    by (auto simp: send_report_def Let_def)
  have laws: "snd (parse_KeyRequest ?C (ser_KeyRequest ?C q)) = q" "snd (parse_LWWValue ?C (ser_LWWValue ?C v)) = v"
      "snd (parse_ServerThreadStatistics ?C (ser_ServerThreadStatistics ?C sample_stat)) = sample_stat" for q v
    by (simp_all add: sample_stat_env_def)
  have W: "st_public_ip (wt ?W) = ''5.5.5.5''" "st_private_ip (wt ?W) = ''a''" "st_tid (wt ?W) = 0" "w_env ?W = sample_stat_env"
      "kSelfTier sample_stat_env = MEMORY" "mo_env ?M = sample_stat_env"
    by (simp_all add: sample_worker_def server_thread_def sample_stat_env_def sample_env_def)
  obtain tuple where tuple: "rq_tuples (snd (parse_KeyRequest ?C msg)) = [tuple]"
    and all: "\<forall>m answer. kt_key answer = kt_key tuple \<and> kt_payload answer = kt_payload tuple \<and> kt_error answer = NO_ERROR \<longrightarrow>
      (\<exists>m'. collect_tuple ?M answer m = Inr m' \<and> (\<forall>tier ip tid. thread_figures tier ip tid m' =
          (if ip = ''5.5.5.5'' @ ''/'' @ ''a'' \<and> tid = 0 \<and> (tier = MEMORY \<longleftrightarrow> MEMORY = MEMORY)
           then (Some (sts_storage_consumption sample_stat), Some (sts_occupancy sample_stat, sts_epoch sample_stat),
             Some (sts_access_count sample_stat))
           else thread_figures tier ip tid m)))"
    using reported_statistics_collected [where W = ?W and M = ?M and C = ?C, OF run, unfolded W, OF refl refl laws] by auto
  obtain m' where "collect_tuple ?M (tuple\<lparr>kt_error := NO_ERROR\<rparr>) sample_monitor = Inr m'"
      "thread_figures MEMORY ''5.5.5.5/a'' 0 m' = (Some 300, Some (1 / 2, 4), Some 7)"
    using all [rule_format, of "tuple\<lparr>kt_error := NO_ERROR\<rparr>" sample_monitor] by (auto simp: sample_stat_def)
  with run tuple show ?thesis
    by (intro exI [of _ s'] exI [of _ address] exI [of _ msg] exI [of _ tuple] exI [of _ m']) simp
qed

end
