(* ===== verification/Spec2Isabelle.thy ===== *)
theory Spec2Isabelle
  imports Anna_Elasticity
begin

text \<open>
  A model of the Anna key-value store and proofs about it.

  \<^bold>\<open>The program.\<close> Anna keeps keys in two tiers of servers, memory and disk. Every server runs several threads,
  which share nothing and talk by messages. A key belongs to the servers that follow its hash on the
  global ring of a tier, and within a server to the threads that follow it on the local ring; how many
  of each is the replication factor of the key in that tier. A thread answers the requests for its keys, merges the
  values it receives into lattices, and periodically gossips the keys it changed to the other owners.
  Servers that join or leave tell the others, which hand over the keys that change owner. Routing
  nodes hold the rings too and tell clients the addresses of the owners; clients cache
  these, retry, and give up after a timeout. The monitor watches the cluster.

  \<^bold>\<open>Conventions.\<close> A component's state is a record, and an operation is a function from the state to the next
  state. A C++ hash map is an association list without duplicate keys in insertion order (\<open>omap\<close>), with
  \<open>operator[]\<close>, which inserts a default, kept apart from \<open>find\<close>; statements do not depend on the order.
  \<^verbatim>\<open>unsigned\<close> and \<^verbatim>\<open>unsigned long long\<close> are words of 32 and 64 bits. What the C++ program may do
  beyond returning, such as to read out of range, to dereference a null pointer, to divide by zero or to loop for ever,
  is a value of \<open>fault\<close>, and an operation that can meet it has the type \<open>fault + 'a\<close>. A message
  sent is appended to the outbox of the sender with its address; a message received is an argument.
  Code from outside the repository is an argument of the model: the generated protobuf codec (\<open>codec\<close>), \<^verbatim>\<open>std::hash\<close>,
  \<^verbatim>\<open>rand_r\<close>, the clocks and the configuration (\<open>env\<close>, \<open>client_conf\<close>). The hypotheses on them are that
  parsing a serialised message returns it and that the hash function separates the virtual nodes of
  the cluster; \<open>wire_codec\<close> and the sample cluster satisfy them.

  \<^bold>\<open>Values.\<close> \<open>Anna_Lattices\<close> and \<open>Anna_Causal\<close> model \<^verbatim>\<open>common/include/lattices/\<close>: each lattice with its merge, as the
  interpretation of a locale of semilattices up to the abstraction of the value, which gives that merging is
  commutative, associative and idempotent where it is, with a counterexample where it is not. \<open>Anna_Messages\<close>
  has the protobuf messages, \<open>Anna_Wire\<close> a concrete codec used by the examples only, and \<open>Anna_Common\<close> the payloads,
  the string splitting and the timestamps of \<^verbatim>\<open>common.hpp\<close>, with the round trips. \<open>Anna_Threads\<close> models the
  addresses and ports of \<^verbatim>\<open>kvs_threads.hpp\<close> and \<^verbatim>\<open>threads.hpp\<close>, \<open>Anna_Metadata\<close> the metadata keys of \<^verbatim>\<open>metadata.hpp\<close>.

  \<^bold>\<open>Storage.\<close> \<open>Anna_KVStore\<close> models \<^verbatim>\<open>base_kv_store.hpp\<close> and the memory serializers of \<^verbatim>\<open>server_utils.hpp\<close>: a serializer
  is a record of operations, and a locale of serializers that merge gives that replicas which received the same updates in
  any order and multiplicity answer alike. \<open>Anna_Disk\<close> models the disk serializers over a map from file names to contents;
  the disk serializer of last-writer-wins values refines the memory one.

  \<^bold>\<open>Placement.\<close> \<open>Anna_HashRing\<close> models \<^verbatim>\<open>consistent_hash_map.hpp\<close>, \<^verbatim>\<open>hash_ring.hpp\<close> and the ring operations of
  \<^verbatim>\<open>hash_ring.cpp\<close>. The search for servers is a loop that need not end; it is run with as much fuel as suffices
  on a ring with enough servers, which is proved, and otherwise the search is proved to diverge.
  It returns the first distinct servers clockwise from the key. \<open>Anna_Responsible\<close> composes the rings and factors into
  \<open>get_responsible_threads\<close> and its request for unknown factors.

  \<^bold>\<open>Servers.\<close> \<open>Anna_Server\<close> has the state of a server thread and \<^verbatim>\<open>kvs/utils.cpp\<close>; \<open>Anna_UserRequest\<close>, \<open>Anna_Gossip\<close>,
  \<open>Anna_ReplicationResponse\<close>, \<open>Anna_ReplicationChange\<close>, \<open>Anna_Membership\<close> (node join, node depart, self depart) and \<open>Anna_Caches\<close>
  (cache reports, management node) the handlers of \<^verbatim>\<open>src/kvs/\<close>; \<open>Anna_Loop\<close> and \<open>Anna_Rounds\<close> the start-up,
  the event loop, the gossip, statistics and redistribution rounds of \<^verbatim>\<open>server.cpp\<close>. The theorems say what happens to every tuple
  of a request or of a gossip message (it is stored, answered, forwarded or parked, and never lost), that keys which change owner
  are sent to the new owners before they are dropped, that all books of the thread stay consistent over the loop,
  and in which cases the code does not do so.

  \<^bold>\<open>Routing.\<close> \<open>Anna_Route\<close> models \<^verbatim>\<open>src/route/\<close>. The theorems say that a query is answered with the owners that the
  rings determine, or parked until the factors arrive and then answered. \<open>Anna_Cluster\<close> relates the views of a router and of a server.

  \<^bold>\<open>Clients.\<close> \<open>Anna_Client\<close> models \<^verbatim>\<open>client/kvs_client.hpp\<close> and \<^verbatim>\<open>requests.hpp\<close>: its tables stay well formed, no request
  waits for ever, and request ids are distinct.

  \<^bold>\<open>Monitor.\<close> \<open>Anna_Monitor\<close> models \<^verbatim>\<open>src/monitor/\<close> and \<^verbatim>\<open>include/monitor/\<close>: the membership, feedback and departure
  handlers, the collection and summary of the statistics, the change of replication factors, the policies and one round of the loop.
  The cluster it talks to is the parameter record \<open>monitor_conf\<close>, which gives the clock and the answers to its synchronous
  requests. A \<^verbatim>\<open>double\<close> is a real number, an infinity or NaN; rounding is not modelled, and a conversion to an
  integer type that does not fit is the fault \<open>BadConversion\<close>. \<open>Anna_Elasticity\<close> has the theorems: which servers and
  routers learn a new factor, what the summary counts, that promotions fit in memory, and the cases in which
  a departure, a removal or an empty tier stops the monitor.

  This theory holds what spans components: a request that a router sends to a thread is accepted there, a client's
  request travels through the router's answer to such a thread, and a new server that
  bootstraps from the router, or joins, has the same rings as everybody else.

  \<^bold>\<open>Not modelled.\<close> Sockets and their caches (\<^verbatim>\<open>zmq/\<close>), logging, the reading of the YAML configuration and the \<^verbatim>\<open>main\<close>
  functions, except the joining of the worker threads. Threads share no data, so the interleaving of nodes is
  that of their handlers. \<^verbatim>\<open>src/benchmark/\<close> and the
  consoles \<^verbatim>\<open>client/cpp/cli.cpp\<close> and \<^verbatim>\<open>cli/\<close> (terminal and wall clock), the Rust client, most of which is commented out,
  and the Python client. Tests, mocks and build scripts are no part of the program.
\<close>


lemma sample_view:
  "same_view sample_router sample_server" "names_own_node sample_worker sample_router"
  "same_params sample_env sample_env" "kSelfTierIdVector sample_env = [kSelfTier sample_env]"
proof -
  show "same_view sample_router sample_server"
    using rings_agree_trans [OF rings_agree_sym [OF sample_router_agree] sample_server_agree]
    by (simp add: same_view_def rings_agree_def)
  show "names_own_node sample_worker sample_router"
    by (auto simp: names_own_node_def rings_agree_simps [OF sample_router_agree] sample_ctx_rings sample_ring_def
        sample_worker_def sample_env_def server_thread_def server_thread_v_def empty_HashRing_def)
qed (simp_all add: same_params_def sample_env_def)

lemma sample_routed:
  "routed sample_env ''k'' sample_router =
     Inr ([server_thread ''5.5.5.5'' ''a'' 0, server_thread ''6.6.6.6'' ''bb'' 0], True)"
proof -
  have "rings_agree sample_router sample_server"
    using rings_agree_trans [OF rings_agree_sym [OF sample_router_agree] sample_server_agree] .
  moreover have "lookup sample_env ''k'' False [MEMORY] sample_server =
      Inr ([server_thread ''5.5.5.5'' ''a'' 0, server_thread ''6.6.6.6'' ''bb'' 0], True)"
    using sample_lookup by (simp add: srv_lookup_def sample_not_metadata sample_worker_def) (simp add: sample_env_def)
  ultimately show ?thesis
    by (simp add: routed_def sample_not_metadata kAllTiers_def lookup_agree [symmetric])
qed


lemma address_of_thread_ok: "address_ok (key_request_connect_address st)"
proof -
  have "split (key_request_connect_address st) CHR '':'' =
      ''tcp'' # split (''//'' @ st_public_ip st @ '':'' @ to_string (st_tid st + kKeyRequestPort)) CHR '':''"
    using split_item [of "CHR '':''" "''tcp''"] by (simp add: key_request_connect_address_def tcp_base_def)
  then show ?thesis
    using split_nonempty [of "''//'' @ st_public_ip st @ '':'' @ to_string (st_tid st + kKeyRequestPort)" "CHR '':''"]
    by (cases "split (''//'' @ st_public_ip st @ '':'' @ to_string (st_tid st + kKeyRequestPort)) CHR '':''")
      (simp_all add: address_ok_def key_request_connect_address_def tcp_base_def)
qed

lemma length_inserts: "distinct xs \<Longrightarrow> length (fold List.insert ips xs) = card (set ips \<union> set xs)"
proof -
  assume "distinct xs"
  then have "distinct (fold List.insert ips xs)"
    by (induction ips arbitrary: xs) simp_all
  then show ?thesis
    using distinct_card set_inserts [of ips xs] by metis
qed

lemma list_all2_senders: "list_all2 (\<lambda>x (w, m). w \<in> A \<and> P x m) xs sent \<Longrightarrow> w \<in> fst ` set sent \<Longrightarrow> w \<in> A"
  by (induction rule: list_all2_induct) auto

text \<open>
  C19. From client to owner: in a working cluster, a client's waiting requests for a key whose factors
  the routing tier knows are all sent, once each and in order, as soon as the routing tier's
  answer to the client's query arrives, each to a thread that the answer names. Every such thread
  with the same view of the cluster finds itself responsible for the key, together with exactly the
  threads that the router named.
\<close>

theorem client_request_reaches_owner:
  assumes "cluster_ok (ro_env R) r" "routed (ro_env R) key r = Inr (threads, True)" "threads \<noteq> []" "key \<noteq> []"
    and "query = snd (parse_KeyAddressRequest (env_codec (ro_env R)) serialized)" "aq_keys query = [key]"
    and "cl_codec cf = env_codec (ro_env R)"
    and "\<And>m. snd (parse_KeyAddressResponse (cl_codec cf) (ser_KeyAddressResponse (cl_codec cf) m)) = m"
    and "routing_threads cf \<noteq> []" "client_ok c" "om_at [] (key_address_cache c) key = []"
    and "map_of (pending_request_map c) key = Some (tp, requests)"
    and "same_view r s" "same_params (ro_env R) (w_env W)" "names_own_node W r"
    and "kSelfTierIdVector (w_env W) = [kSelfTier (w_env W)]"
  shows "\<exists>r' m c' sent. address_handler R serialized r = Inr r' \<and> outbox r' = outbox r @ [(aq_response_address query, m)]
    \<and> receive_addresses cf m c = Inr c' \<and> cl_outbox c' = cl_outbox c @ sent
    \<and> list_all2 (\<lambda>request (worker, msg). worker \<in> key_request_connect_address ` set threads
         \<and> msg = ser_KeyRequest (cl_codec cf) (sized (card (key_request_connect_address ` set threads)) request)) requests sent
    \<and> map_of (pending_request_map c') key = None
    \<and> (key_request_connect_address (wt W) \<in> fst ` set sent \<longrightarrow>
        srv_lookup W key (kSelfTierIdVector (w_env W)) s = Inr (threads, True) \<and> st_mem (wt W) threads)"
proof -
  let ?ips = "map key_request_connect_address threads"
  let ?answer = "empty_KeyAddressResponse\<lparr>ar_response_id := aq_request_id query, ar_addresses := [key_address key threads]\<rparr>"
  let ?cached = "fold List.insert ?ips []"
  let ?m = "ser_KeyAddressResponse (cl_codec cf) ?answer"
  have "known (ro_env R) r key" "routed_threads (ro_env R) r key = threads"
    using assms(2) by (simp_all add: known_def routed_threads_def)
  then obtain r' where r': "address_handler R serialized r = Inr r'" "outbox r' = outbox r @ [(aq_response_address query, ?m)]"
    using address_handler_answers [OF assms(1) _ assms(5)] assms(6,7) by auto
  have ka: "ka_key (key_address key threads) = key" "ka_ips (key_address key threads) = ?ips"
    by (simp_all add: key_address_def)
  have answer: "ar_addresses ?answer = [key_address key threads]" "ar_error ?answer \<noteq> NO_SERVERS"
    by (simp_all add: empty_KeyAddressResponse_def)
  have set: "set ?cached = key_request_connect_address ` set threads"
    using set_inserts [of ?ips "[]"] by simp
  have length: "length ?cached = card (key_request_connect_address ` set threads)"
    using length_inserts [of "[]" ?ips] by simp
  have ok: "list_all address_ok ?ips" "?ips \<noteq> []"
    using address_of_thread_ok assms(3) by (simp_all add: list_all_iff)
  obtain c' sent where c': "receive_addresses cf ?m c = Inr c'" "cl_outbox c' = cl_outbox c @ sent"
      "map_of (pending_request_map c') = (map_of (pending_request_map c))(key := None)"
      "list_all2 (\<lambda>request (worker, msg). worker \<in> set ?cached
         \<and> msg = ser_KeyRequest (cl_codec cf) (sized (length ?cached) request)) requests sent"
    using receive_addresses_releases [OF assms(9,10) assms(8) [of ?answer, symmetric] answer(1) ka(1) [symmetric] answer(2)
        assms(12), unfolded ka(2), OF ok(2,1) refl] unfolding assms(11) by blast
  have "worker \<in> key_request_connect_address ` set threads" if "worker \<in> fst ` set sent" for worker
    using list_all2_senders [OF c'(4) that] set by simp
  then have "srv_lookup W key (kSelfTierIdVector (w_env W)) s = Inr (threads, True) \<and> st_mem (wt W) threads"
    if "key_request_connect_address (wt W) \<in> fst ` set sent"
    using routed_to_owner [OF assms(1,13-16,4,2)] that by blast
  with r' c' show ?thesis
    unfolding set length by (intro exI [of _ r'] exI [of _ ?m] exI [of _ c'] exI [of _ sent]) simp
qed

theorem client_request_reaches_owner_witness:
  "\<exists>r' m c' worker. address_handler sample_router_conf (ser_KeyAddressRequest wire_codec
      \<lparr>aq_response_address = ''tcp://9.9.9.9:6850'', aq_keys = [''k''], aq_request_id = ''r1''\<rparr>) sample_router = Inr r'
    \<and> outbox r' = outbox sample_router @ [(''tcp://9.9.9.9:6850'', m)]
    \<and> receive_addresses sample_conf m sample_client = Inr c' \<and> map_of (pending_request_map c') ''k'' = None
    \<and> cl_outbox c' = cl_outbox sample_client @ [(worker, ser_KeyRequest wire_codec (sized 2 sample_request))]"
proof -
  let ?query = "\<lparr>aq_response_address = ''tcp://9.9.9.9:6850'', aq_keys = [''k''], aq_request_id = ''r1''\<rparr>"
  let ?threads = "[server_thread ''5.5.5.5'' ''a'' 0, server_thread ''6.6.6.6'' ''bb'' 0]"
  have E: "ro_env sample_router_conf = sample_env" "w_env sample_worker = sample_env" "cl_codec sample_conf = wire_codec"
      "env_codec sample_env = wire_codec"
    by (simp_all add: sample_router_conf_def sample_worker_def sample_conf_def sample_env_def)
  have c: "om_at [] (key_address_cache sample_client) ''k'' = []"
      "map_of (pending_request_map sample_client) ''k'' = Some (0, [sample_request])"
    by (simp_all add: sample_client_def new_client_def om_at_def)
  have workers: "card (key_request_connect_address ` set ?threads) = 2"
    by (simp add: key_request_connect_address_def tcp_base_def server_thread_def server_thread_v_def)
  have "?query = snd (parse_KeyAddressRequest (env_codec (ro_env sample_router_conf)) (ser_KeyAddressRequest wire_codec ?query))"
    by (simp add: E)
  note run = client_request_reaches_owner [OF _ _ _ _ this _ _ _ sample_client_ok(2,1) c sample_view(1) _ sample_view(2),
      where threads = ?threads, unfolded E, OF sample_router_ok sample_routed, unfolded workers]
  then show ?thesis
    using sample_view(3,4) by (force simp: list_all2_Cons1)
qed

text \<open>
  Every process computes the same placement of threads: the local rings that a routing thread
  and a server thread, or servers with different addresses, form at their start from the same
  configuration differ only in the addresses they carry, not in hashes and thread ids.
\<close>

theorem local_rings_agree:
  fixes s :: "'a ring_ctx_scheme" and s' :: "'b ring_ctx_scheme"
  assumes "local_hash_rings s = []" "local_hash_rings s' = []"
  shows "placement (local_ring tier (form_local_rings E pub priv s)) =
    placement (local_ring tier (form_local_rings E pub' priv' s'))"
proof -
  let ?alike = "\<lambda>a b. \<forall>tier. placed_alike priv priv' (local_ring tier a) (local_ring tier b)"
  have tids: "?alike (fold (\<lambda>tid. insert_local E t pub priv (of_nat tid)) ns a)
      (fold (\<lambda>tid. insert_local E t pub' priv' (of_nat tid)) ns b)" if "?alike a b"
    for t ns and a :: "'a ring_ctx_scheme" and b :: "'b ring_ctx_scheme"
    using that
  proof (induction ns arbitrary: a b)
    case (Cons n ns)
    have "?alike (insert_local E t pub priv (of_nat n) a) (insert_local E t pub' priv' (of_nat n) b)"
      using Cons.prems placed_alike_insert by (simp add: local_ring_insert_local)
    from Cons.IH [OF this] show ?case
      by simp
  qed simp
  have tiers: "?alike (fold (\<lambda>(_, tier). fold (\<lambda>tid. insert_local E (tmd_id tier) pub priv (of_nat tid))
        [0..<unat (tmd_thread_number tier)]) tiers a)
      (fold (\<lambda>(_, tier). fold (\<lambda>tid. insert_local E (tmd_id tier) pub' priv' (of_nat tid))
        [0..<unat (tmd_thread_number tier)]) tiers b)" if "?alike a b"
    for tiers and a :: "'a ring_ctx_scheme" and b :: "'b ring_ctx_scheme"
    using that
  proof (induction tiers arbitrary: a b)
    case (Cons x tiers)
    from Cons.IH [OF tids [OF Cons.prems]] show ?case
      by (simp add: split_beta)
  qed simp
  have "?alike s s'"
    by (simp add: assms local_ring_def om_at_def placed_alike_def placement_def empty_HashRing_def)
  from tiers [OF this, of "kTierMetadata E"] have "?alike (form_local_rings E pub priv s) (form_local_rings E pub' priv' s')"
    unfolding form_local_rings_def .
  then show ?thesis
    by (simp add: placed_alike_def)
qed

theorem local_rings_agree_witness:
  "placement (local_ring MEMORY (form_local_rings sample_env ''5.5.5.5'' ''a'' (sample_ctx\<lparr>local_hash_rings := []\<rparr>))) =
   placement (local_ring MEMORY (start_router sample_router_conf 0))"
proof -
  have "start_router sample_router_conf 0 = form_local_rings sample_env ''7.7.7.7'' ''7.7.7.7''
      \<lparr>global_hash_rings = [], local_hash_rings = [], key_replication_map = [], seed = 0, rand_state = 0,
       outbox = [], address_requests = []\<rparr>"
    by (simp add: start_router_def sample_router_conf_def)
  then show ?thesis
    by (simp only:) (rule local_rings_agree; simp)
qed

text \<open>
  C21. When a server announces itself to the routing tier, the first routing thread passes the news
  on to every other server it knows, exactly once each, and to its worker threads. A server that had
  the same global rings as the router and handles the forwarded message ends with the same
  global rings as the router again.
\<close>

theorem join_keeps_rings_equal:
  assumes "CHR '':'' \<notin> set pub \<union> set priv \<union> set count" "stoi count = Inr n"
    and "ro_thread_id R = 0" "env_hash (w_env W) = env_hash (ro_env R)"
    and "\<forall>t. global_ring t s = global_ring t r"
    and "\<not> st_mem (server_thread_v pub priv 0 0) (hr_unique_servers (global_ring tier r))"
    and "news = Tier_Name tier @ '':'' @ pub @ '':'' @ priv @ '':'' @ count"
  shows "\<exists>r'. membership_handler R (''join:'' @ news) r = Inr r'
    \<and> outbox r' = outbox r @ map (\<lambda>st. (node_join_connect_address st, news))
          (filter (\<lambda>st. st_private_ip st \<noteq> priv) (all_servers r'))
        @ map (\<lambda>tid. (rt_notify_connect_address \<lparr>rt_ip = ro_ip R, rt_tid = of_nat tid\<rparr>, ''join:'' @ news))
          [1..<unat (kRoutingThreadCount R)]
    \<and> (\<forall>s'. node_join_handler W news s = Inr s' \<longrightarrow> (\<forall>t. global_ring t s' = global_ring t r'))"
proof -
  note split = split_announcement [OF assms(1) stoi_nonempty [OF assms(2)], of tier]
  have inserted: "fst (hr_insert (GlobalHasher (env_hash (ro_env R))) pub priv n 0 (global_ring tier r))"
    using hr_insert_joined [OF assms(6)] .
  obtain r' where r': "membership_handler R (''join:'' @ news) r = Inr r'"
      "global_hash_rings r' = global_hash_rings (insert_global (ro_env R) tier pub priv n r)"
      "outbox r' = outbox r @ map (\<lambda>st. (node_join_connect_address st, news))
          (filter (\<lambda>st. st_private_ip st \<noteq> priv) (all_servers (insert_global (ro_env R) tier pub priv n r)))
        @ map (\<lambda>tid. (rt_notify_connect_address \<lparr>rt_ip = ro_ip R, rt_tid = of_nat tid\<rparr>, ''join:'' @ news))
          [1..<unat (kRoutingThreadCount R)]"
    using membership_handler_join [OF split(2) assms(2), of R r] inserted assms(3) unfolding assms(7) by auto
  have "all_servers r' = all_servers (insert_global (ro_env R) tier pub priv n r)"
    by (simp add: all_servers_def r'(2))
  moreover have "global_ring t s' = global_ring t r'" if "node_join_handler W news s = Inr s'" for s' t
    using admit_server_rings [of W news tier pub priv n s s' t] that assms(4,5)
    unfolding assms(7) node_join_parsed [OF split(1) assms(2)]
    by (simp add: global_ring_insert_global r'(2) global_ring_def [of _ r'])
      (simp add: global_ring_def [symmetric] global_ring_insert_global)
  ultimately show ?thesis
    using r' by auto
qed

theorem join_keeps_rings_equal_witness:
  "\<exists>r' s'. membership_handler sample_router_conf ''join:MEMORY:7.7.7.7:ccc:0'' sample_router = Inr r'
    \<and> node_join_handler sample_worker ''MEMORY:7.7.7.7:ccc:0'' sample_server = Inr s'
    \<and> global_ring MEMORY s' = global_ring MEMORY r'"
proof -
  have hyps: "ro_thread_id sample_router_conf = 0"
      "env_hash (w_env sample_worker) = env_hash (ro_env sample_router_conf)"
    by (simp_all add: sample_router_conf_def sample_worker_def)
  have agree: "rings_agree sample_router sample_server"
    using rings_agree_trans [OF rings_agree_sym [OF sample_router_agree] sample_server_agree] .
  have new: "\<not> st_mem (server_thread_v ''7.7.7.7'' ''ccc'' 0 0) (hr_unique_servers (global_ring MEMORY sample_router))"
    by (simp add: rings_agree_simps [OF sample_router_agree] sample_ctx_rings sample_ring_def st_mem_def st_eq_iff
        server_thread_v_def)
  have news: "''MEMORY:7.7.7.7:ccc:0'' = Tier_Name MEMORY @ '':'' @ ''7.7.7.7'' @ '':'' @ ''ccc'' @ '':'' @ ''0''"
    by simp
  have "stored_key_map sample_server = []"
    by (simp add: sample_server_def)
  then have "stored_key_map (if thread_id sample_worker = 0 then notify_join sample_worker m p q (set_global_ring t ring sample_server)
      else set_global_ring t ring sample_server) = []" for m p q t ring
    using only_sends_notify_join [of "set_global_ring t ring sample_server" sample_worker m p q]
      server_more_eq(6) [of "notify_join sample_worker m p q (set_global_ring t ring sample_server)" sample_server]
    by (simp add: only_sends_def set_global_ring_def)
  then have admitted: "\<exists>s'. admit_server sample_worker m t p q n sample_server = Inr s'" for m t p q n
    by (simp add: admit_server_def Let_def split_beta)
  obtain s' where s': "node_join_handler sample_worker ''MEMORY:7.7.7.7:ccc:0'' sample_server = Inr s'"
    using node_join_parsed [OF split_announcement(1) [of "''7.7.7.7''" "''ccc''" "''0''" MEMORY] stoi_zero, of sample_worker sample_server]
      admitted [of "''MEMORY:7.7.7.7:ccc:0''" MEMORY "''7.7.7.7''" "''ccc''" 0] by auto
  have "\<forall>t. global_ring t sample_server = global_ring t sample_router"
    using rings_agree_simps(3) [OF agree] by simp
  from join_keeps_rings_equal [OF _ stoi_zero hyps this new news] s' show ?thesis
    by auto
qed



end
